(* ===== verification/Prelude.thy ===== *)
theory Prelude
  imports Main "HOL-Library.AList" "HOL-Library.Sublist"
begin

text \<open>
  Shared vocabulary of the development: Python exceptions as values, the result type of code
  that may raise, the short-circuiting \<open>all\<close>, \<open>any\<close> and list comprehension over
  code that may raise, and insertion-ordered dictionaries. The collections \<open>result_simps\<close>
  and \<open>dict_simps\<close> gather the rewrite rules the component proofs use.
\<close>

named_theorems result_simps
named_theorems dict_simps

section \<open>Exceptions and results\<close>

text \<open>
  The exceptions the modelled code raises or catches. Python's classes form a hierarchy;
  what the sources use of it is which classes are a \<open>ValueError\<close>.
\<close>

datatype exn =
    TypeError
  | KeyError
  | AttributeError
  | IndexError
  | ValueError
  | UnicodeEncodeError
  | JSONDecodeError
  | NotAConfigBundleError
  | OverflowError
  | ZeroDivisionError
  | StreamTooLargeError
  | StreamClosedError
  | StreamStalledError
  | ValueOutOfRangeError
  | HTTPError
  | LocationValueError
  | ReadTimeoutError
  | ProtocolError
  | ConfigDirectorValidationError
  | ConfigDirectorTypeError
  | ConfigDirectorInitializationError
  | ConfigDirectorConnectionError "int option"

definition is_value_error :: "exn \<Rightarrow> bool" where
  "is_value_error e \<longleftrightarrow> e \<in> {ValueError, UnicodeEncodeError, JSONDecodeError,
     NotAConfigBundleError, LocationValueError, ConfigDirectorValidationError}"

text \<open>The classes of \<open>urllib3\<close> below \<open>HTTPError\<close>.\<close>

definition is_http_error :: "exn \<Rightarrow> bool" where
  "is_http_error e \<longleftrightarrow> e \<in> {HTTPError, LocationValueError, ReadTimeoutError, ProtocolError}"

definition is_connection_error :: "exn \<Rightarrow> bool" where
  "is_connection_error e \<longleftrightarrow> (case e of ConfigDirectorConnectionError _ \<Rightarrow> True | _ \<Rightarrow> False)"

definition is_type_error :: "exn \<Rightarrow> bool" where
  "is_type_error e \<longleftrightarrow> e \<in> {TypeError, ConfigDirectorTypeError}"

type_synonym 'a result = "exn + 'a"

definition bindE :: "'a result \<Rightarrow> ('a \<Rightarrow> 'b result) \<Rightarrow> 'b result" where
  "bindE r f = (case r of Inl e \<Rightarrow> Inl e | Inr a \<Rightarrow> f a)"

lemma bindE_simps [simp, result_simps]:
  "bindE (Inl e) f = Inl e"
  "bindE (Inr a) f = f a"
  by (simp_all add: bindE_def)

lemma bindE_Inr_iff [result_simps]: "bindE r f = Inr b \<longleftrightarrow> (\<exists>a. r = Inr a \<and> f a = Inr b)"
  by (cases r) simp_all

lemma bindE_Inl_iff [result_simps]:
  "bindE r f = Inl e \<longleftrightarrow> r = Inl e \<or> (\<exists>a. r = Inr a \<and> f a = Inl e)"
  by (cases r) simp_all

lemma bindE_assoc: "bindE (bindE r f) g = bindE r (\<lambda>a. bindE (f a) g)"
  by (cases r) simp_all

lemma bindE_cong [fundef_cong]:
  "r = r' \<Longrightarrow> (\<And>a. r' = Inr a \<Longrightarrow> f a = f' a) \<Longrightarrow> bindE r f = bindE r' f'"
  by (cases r') simp_all

text \<open>
  A list comprehension, \<open>all(\<dots>)\<close> and \<open>any(\<dots>)\<close> over an expression that may raise:
  elements are visited from the left, the first exception ends the visit, and \<open>all\<close> and
  \<open>any\<close> stop at the first element that decides them.
\<close>

fun mapE :: "('a \<Rightarrow> 'b result) \<Rightarrow> 'a list \<Rightarrow> 'b list result" where
  "mapE f [] = Inr []"
| "mapE f (x # xs) = bindE (f x) (\<lambda>y. bindE (mapE f xs) (\<lambda>ys. Inr (y # ys)))"

fun allE :: "('a \<Rightarrow> bool result) \<Rightarrow> 'a list \<Rightarrow> bool result" where
  "allE f [] = Inr True"
| "allE f (x # xs) = bindE (f x) (\<lambda>b. if b then allE f xs else Inr False)"

fun anyE :: "('a \<Rightarrow> bool result) \<Rightarrow> 'a list \<Rightarrow> bool result" where
  "anyE f [] = Inr False"
| "anyE f (x # xs) = bindE (f x) (\<lambda>b. if b then Inr True else anyE f xs)"

definition notE :: "bool result \<Rightarrow> bool result" where
  "notE r = bindE r (\<lambda>b. Inr (\<not> b))"

lemma notE_simps [simp, result_simps]: "notE (Inr b) = Inr (\<not> b)" "notE (Inl e) = Inl e"
  by (simp_all add: notE_def)

lemma notE_notE [simp]: "notE (notE r) = r"
  by (cases r) auto

lemma notE_bindE: "notE (bindE r f) = bindE r (\<lambda>a. notE (f a))"
  by (cases r) auto

lemma mapE_cong [fundef_cong]:
  "xs = ys \<Longrightarrow> (\<And>x. x \<in> set ys \<Longrightarrow> f x = g x) \<Longrightarrow> mapE f xs = mapE g ys"
  by (induction xs arbitrary: ys) auto

lemma mapE_Inr [result_simps]: "mapE (\<lambda>x. Inr (f x)) xs = Inr (map f xs)"
  by (induction xs) simp_all

lemma mapE_eq_Inr: "mapE f xs = Inr ys \<longleftrightarrow> list_all2 (\<lambda>x y. f x = Inr y) xs ys"
  by (induction xs arbitrary: ys) (auto simp: bindE_Inr_iff list_all2_Cons1)

lemma allE_pure [result_simps]: "allE (\<lambda>x. Inr (p x)) xs = Inr (list_all p xs)"
  by (induction xs) simp_all

lemma anyE_pure [result_simps]: "anyE (\<lambda>x. Inr (p x)) xs = Inr (list_ex p xs)"
  by (induction xs) simp_all

lemma allE_cong_set:
  "(\<And>x. x \<in> set xs \<Longrightarrow> f x = g x) \<Longrightarrow> allE f xs = allE g xs"
  by (induction xs) (auto intro!: arg_cong2 [where f = bindE])

lemma allE_True_iff: "allE f xs = Inr True \<longleftrightarrow> (\<forall>x \<in> set xs. f x = Inr True)"
  by (induction xs) (auto simp: bindE_Inr_iff)

lemma allE_False_prefix:
  "allE f xs = Inr False \<Longrightarrow> \<exists>x \<in> set xs. f x = Inr False"
  by (induction xs) (auto simp: bindE_Inr_iff split: if_splits)

lemma anyE_True_imp: "anyE f xs = Inr True \<Longrightarrow> \<exists>x \<in> set xs. f x = Inr True"
  by (induction xs) (auto simp: bindE_Inr_iff split: if_splits)

lemma anyE_False_iff: "anyE f xs = Inr False \<longleftrightarrow> (\<forall>x \<in> set xs. f x = Inr False)"
  by (induction xs) (auto simp: bindE_Inr_iff)

section \<open>Dictionaries\<close>

text \<open>
  A Python dictionary keeps its keys in the order of their first insertion; assigning to a
  key that is present changes the value and leaves the key where it was. It is an association
  list with distinct keys, updated by \<^const>\<open>AList.update\<close>, which has exactly that order.
\<close>

type_synonym ('k, 'v) dict = "('k \<times> 'v) list"

definition dict_ok :: "('k, 'v) dict \<Rightarrow> bool" where
  "dict_ok d \<longleftrightarrow> distinct (map fst d)"

definition dict_keys :: "('k, 'v) dict \<Rightarrow> 'k list" where
  "dict_keys d = map fst d"

definition dict_values :: "('k, 'v) dict \<Rightarrow> 'v list" where
  "dict_values d = map snd d"

definition dict_get :: "('k, 'v) dict \<Rightarrow> 'k \<Rightarrow> 'v option" where
  "dict_get d k = map_of d k"

definition dict_set :: "'k \<Rightarrow> 'v \<Rightarrow> ('k, 'v) dict \<Rightarrow> ('k, 'v) dict" where
  "dict_set k v d = AList.update k v d"

definition dict_del :: "'k \<Rightarrow> ('k, 'v) dict \<Rightarrow> ('k, 'v) dict" where
  "dict_del k d = AList.delete k d"

definition dict_mem :: "'k \<Rightarrow> ('k, 'v) dict \<Rightarrow> bool" where
  "dict_mem k d \<longleftrightarrow> k \<in> set (map fst d)"

definition dict_update :: "('k, 'v) dict \<Rightarrow> ('k, 'v) dict \<Rightarrow> ('k, 'v) dict" where
  "dict_update d e = fold (\<lambda>(k, v). dict_set k v) e d"

lemma dict_get_empty [simp, dict_simps]: "dict_get [] k = None"
  by (simp add: dict_get_def)

lemma dict_get_set [simp, dict_simps]:
  "dict_get (dict_set k v d) k' = (if k' = k then Some v else dict_get d k')"
  by (simp add: dict_get_def dict_set_def update_conv)

lemma dict_get_del [simp, dict_simps]:
  "dict_get (dict_del k d) k' = (if k' = k then None else dict_get d k')"
  by (simp add: dict_get_def dict_del_def delete_conv)

lemma dict_ok_empty [simp, dict_simps]: "dict_ok []"
  by (simp add: dict_ok_def)

lemma dict_ok_set [simp, dict_simps]: "dict_ok d \<Longrightarrow> dict_ok (dict_set k v d)"
  by (simp add: dict_ok_def dict_set_def distinct_update)

lemma dict_ok_del [simp, dict_simps]: "dict_ok d \<Longrightarrow> dict_ok (dict_del k d)"
  by (simp add: dict_ok_def dict_del_def distinct_delete)

lemma dict_mem_iff [dict_simps]: "dict_mem k d \<longleftrightarrow> dict_get d k \<noteq> None"
  by (auto simp: dict_mem_def dict_get_def map_of_eq_None_iff)

lemma dict_mem_set [simp, dict_simps]: "dict_mem k' (dict_set k v d) \<longleftrightarrow> k' = k \<or> dict_mem k' d"
  by (simp add: dict_mem_iff)

lemma dict_ok_update [simp, dict_simps]: "dict_ok d \<Longrightarrow> dict_ok (dict_update d e)"
  unfolding dict_update_def by (induction e arbitrary: d) (auto split: prod.splits)

lemma dict_get_Cons: "dict_get ((k', v') # d) k = (if k = k' then Some v' else dict_get d k)"
  by (simp add: dict_get_def)

lemma dict_get_update:
  "dict_ok e \<Longrightarrow>
   dict_get (dict_update d e) k = (case dict_get e k of Some v \<Rightarrow> Some v | None \<Rightarrow> dict_get d k)"
proof (induction e arbitrary: d)
  case Nil
  then show ?case by (simp add: dict_update_def)
next
  case (Cons p e)
  obtain k' v' where p: "p = (k', v')" by fastforce
  have IH: "dict_get (dict_update (dict_set k' v' d) e) k =
      (case dict_get e k of Some v \<Rightarrow> Some v | None \<Rightarrow> dict_get (dict_set k' v' d) k)"
    using Cons by (auto simp: dict_ok_def)
  moreover have "dict_get e k' = None"
    using Cons.prems p by (auto simp: dict_ok_def dict_get_def map_of_eq_None_iff)
  ultimately show ?case
    by (auto simp: p dict_update_def dict_get_Cons split: option.splits)
qed

lemma dict_set_new: "\<not> dict_mem k d \<Longrightarrow> dict_set k v d = d @ [(k, v)]"
  unfolding dict_mem_def dict_set_def by (induction d) auto

lemma dict_set_keys_present: "dict_mem k d \<Longrightarrow> dict_keys (dict_set k v d) = dict_keys d"
  unfolding dict_mem_def dict_set_def dict_keys_def by (induction d) auto

lemma dict_keys_set:
  "dict_keys (dict_set k v d) = (if dict_mem k d then dict_keys d else dict_keys d @ [k])"
  by (simp add: dict_set_keys_present) (simp add: dict_set_new dict_keys_def)

lemma length_dict_set:
  "length (dict_set k v d) = (if dict_mem k d then length d else Suc (length d))"
  by (metis dict_keys_def dict_keys_set length_append_singleton length_map)

lemma dict_get_SomeD: "dict_get d k = Some v \<Longrightarrow> (k, v) \<in> set d"
  by (simp add: dict_get_def map_of_SomeD)

lemma dict_update_append: "dict_ok (d @ e) \<Longrightarrow> dict_update d e = d @ e"
proof (induction e arbitrary: d)
  case Nil
  then show ?case by (simp add: dict_update_def)
next
  case (Cons kv e)
  obtain k v where kv: "kv = (k, v)" by fastforce
  have "\<not> dict_mem k d" using Cons.prems by (auto simp: kv dict_ok_def dict_mem_def)
  moreover have "dict_update (d @ [(k, v)]) e = d @ (k, v) # e"
    using Cons.IH [of "d @ [(k, v)]"] Cons.prems kv by simp
  ultimately show ?case by (simp add: dict_update_def kv dict_set_new)
qed

lemma dict_update_empty: "dict_ok d \<Longrightarrow> dict_update [] d = d"
  using dict_update_append [of "[]" d] by simp

lemma list_all_dict_set:
  fixes d :: "('k, 'v) dict"
  assumes "P (k, v)" and "list_all P d"
  shows "list_all P (dict_set k v d)"
proof -
  have "set (dict_set k v d) \<subseteq> insert (k, v) (set d)"
    unfolding dict_set_def by (induction d) auto
  with assms show ?thesis by (auto simp: list_all_iff)
qed

end
