(* ===== verification/Py_Str.thy ===== *)
theory Py_Str
  imports Prelude
begin

text \<open>
  Python's \<open>str\<close> and what the SDK uses of it. A \<open>str\<close> is a sequence of Unicode
  code points, so it is modelled as a list of natural numbers; \<open>py ''abc''\<close> is the Python
  literal \<open>"abc"\<close>. The operations follow the language: \<open>lower\<close>, \<open>strip\<close>,
  \<open>startswith\<close>, \<open>split\<close>, \<open>replace\<close>, \<open>str(int)\<close>, \<open>int(str)\<close>
  and the UTF-8 codec. The tables (white space, decimal digits) are those of Unicode 14, the
  version of Python 3.11.
\<close>

type_synonym pystr = "nat list"

definition py :: "string \<Rightarrow> pystr" where
  "py s = map of_char s"

lemma py_simps [simp]:
  "py [] = []"
  "py (c # s) = of_char c # py s"
  by (simp_all add: py_def)

lemma py_eq_iff: "py s = py t \<longleftrightarrow> s = t"
  unfolding py_def by (rule inj_map_eq_map) (simp add: inj_on_def)

section \<open>Case and white space\<close>

text \<open>
  \<open>str.lower\<close>. Every use in the SDK compares the result with an ASCII literal. Apart from
  the letters A to Z only the Kelvin sign U+212A has an ASCII string as its lower case (the
  letter k), and U+0130 maps to an i followed by a combining dot. Mapping the other code points to
  themselves therefore gives the same answer in every such comparison.
\<close>

definition lower_char :: "nat \<Rightarrow> nat" where
  "lower_char c = (if 65 \<le> c \<and> c \<le> 90 then c + 32 else if c = 8490 then 107 else c)"

definition str_lower :: "pystr \<Rightarrow> pystr" where
  "str_lower s = map lower_char s"

definition is_space :: "nat \<Rightarrow> bool" where
  "is_space c \<longleftrightarrow> (9 \<le> c \<and> c \<le> 13) \<or> (28 \<le> c \<and> c \<le> 32) \<or> c = 133 \<or> c = 160 \<or> c = 5760
     \<or> (8192 \<le> c \<and> c \<le> 8202) \<or> c = 8232 \<or> c = 8233 \<or> c = 8239 \<or> c = 8287 \<or> c = 12288"

definition str_strip :: "pystr \<Rightarrow> pystr" where
  "str_strip s = rev (dropWhile is_space (rev (dropWhile is_space s)))"

lemma str_strip_empty_iff: "str_strip s = [] \<longleftrightarrow> list_all is_space s"
proof -
  have "str_strip s = [] \<longleftrightarrow> (\<forall>c \<in> set (dropWhile is_space s). is_space c)"
    by (simp add: str_strip_def)
  also have "\<dots> \<longleftrightarrow> (\<forall>c \<in> set s. is_space c)"
  proof
    assume h: "\<forall>c \<in> set (dropWhile is_space s). is_space c"
    have "set s = set (takeWhile is_space s) \<union> set (dropWhile is_space s)"
      by (metis set_append takeWhile_dropWhile_id)
    with h show "\<forall>c \<in> set s. is_space c" by (auto dest: set_takeWhileD)
  qed (auto dest: set_dropWhileD)
  finally show ?thesis by (simp add: list_all_iff)
qed

section \<open>Prefixes, splitting and replacing\<close>

definition str_startswith :: "pystr \<Rightarrow> pystr \<Rightarrow> bool" where
  "str_startswith s p \<longleftrightarrow> prefix p s"

definition str_endswith :: "pystr \<Rightarrow> pystr \<Rightarrow> bool" where
  "str_endswith s p \<longleftrightarrow> suffix p s"

text \<open>\<open>s.split(sep)\<close> for a separator of one character; \<open>"".split(sep)\<close> is \<open>[""]\<close>.\<close>

fun str_split :: "nat \<Rightarrow> pystr \<Rightarrow> pystr list" where
  "str_split sep [] = [[]]"
| "str_split sep (c # s) =
     (if c = sep then [] # str_split sep s
      else (case str_split sep s of [] \<Rightarrow> [[c]] | t # ts \<Rightarrow> (c # t) # ts))"

text \<open>\<open>sep.join(parts)\<close>\<close>

fun str_join :: "pystr \<Rightarrow> pystr list \<Rightarrow> pystr" where
  "str_join sep [] = []"
| "str_join sep [t] = t"
| "str_join sep (t # ts) = t @ sep @ str_join sep ts"

text \<open>\<open>s.replace(ab, r)\<close> for a pattern of two characters: left to right, not overlapping.\<close>

fun str_replace2 :: "nat \<Rightarrow> nat \<Rightarrow> pystr \<Rightarrow> pystr \<Rightarrow> pystr" where
  "str_replace2 a b r (c # d # s) =
     (if c = a \<and> d = b then r @ str_replace2 a b r s else c # str_replace2 a b r (d # s))"
| "str_replace2 a b r s = s"

lemma str_split_nonempty: "str_split sep s \<noteq> []"
  by (induction s) (auto split: list.splits)

lemma str_split_no_sep: "sep \<notin> set s \<Longrightarrow> str_split sep s = [s]"
  by (induction s) auto

lemma str_split_append:
  "sep \<notin> set s \<Longrightarrow> str_split sep (s @ sep # t) = s # str_split sep t"
  by (induction s) auto

lemma str_split_join:
  "ts \<noteq> [] \<Longrightarrow> (\<forall>t \<in> set ts. sep \<notin> set t) \<Longrightarrow> str_split sep (str_join [sep] ts) = ts"
  by (induction "[sep]" ts rule: str_join.induct) (auto simp: str_split_no_sep str_split_append)

lemma str_join_split: "str_join [sep] (str_split sep s) = s"
proof (induction s)
  case (Cons c s)
  then show ?case
    by (cases "str_split sep s"; cases "tl (str_split sep s)")
      (auto simp: str_split_nonempty neq_Nil_conv)
qed simp

section \<open>Decimal digits and integers\<close>

text \<open>
  \<open>\d\<close> in a \<open>str\<close> pattern, and the digits \<open>int()\<close> reads, are the code points of
  category Nd. They come in runs of ten; the table lists the zeros.
\<close>

definition digit_zeros :: "nat list" where
  "digit_zeros = [48, 1632, 1776, 1984, 2406, 2534, 2662, 2790, 2918, 3046, 3174, 3302, 3430,
     3558, 3664, 3792, 3872, 4160, 4240, 6112, 6160, 6470, 6608, 6784, 6800, 6992, 7088, 7232,
     7248, 42528, 43216, 43264, 43472, 43504, 43600, 44016, 65296, 66720, 68912, 69734, 69872,
     69942, 70096, 70384, 70736, 70864, 71248, 71360, 71472, 71904, 72016, 72784, 73040, 73120,
     92768, 92864, 93008, 120782, 120792, 120802, 120812, 120822, 123200, 123632, 125264, 130032]"

definition digit_value :: "nat \<Rightarrow> nat option" where
  "digit_value c =
     (case List.find (\<lambda>z. z \<le> c \<and> c < z + 10) digit_zeros of None \<Rightarrow> None | Some z \<Rightarrow> Some (c - z))"

definition is_decimal :: "nat \<Rightarrow> bool" where
  "is_decimal c \<longleftrightarrow> digit_value c \<noteq> None"

definition is_ascii_digit :: "nat \<Rightarrow> bool" where
  "is_ascii_digit c \<longleftrightarrow> 48 \<le> c \<and> c \<le> 57"

lemma digit_value_ascii: "is_ascii_digit c \<Longrightarrow> digit_value c = Some (c - 48)"
  by (simp add: digit_value_def digit_zeros_def is_ascii_digit_def)

lemma is_decimal_ascii: "is_ascii_digit c \<Longrightarrow> is_decimal c"
  by (simp add: is_decimal_def digit_value_ascii)

text \<open>The number a run of digits denotes, most significant digit first.\<close>

definition digits_nat :: "pystr \<Rightarrow> nat" where
  "digits_nat s = foldl (\<lambda>n c. n * 10 + (case digit_value c of None \<Rightarrow> 0 | Some d \<Rightarrow> d)) 0 s"

text \<open>
  \<open>int(s)\<close> on a string of digits with an optional sign. Python refuses to convert more than
  4300 digits (\<open>sys.get_int_max_str_digits\<close>), with a \<open>ValueError\<close>; the same limit applies
  to \<open>str(int)\<close>.
\<close>

definition int_max_str_digits :: nat where
  "int_max_str_digits = 4300"

definition nat_of_digits :: "pystr \<Rightarrow> nat result" where
  "nat_of_digits s =
     (if s = [] \<or> \<not> list_all is_decimal s \<or> int_max_str_digits < length s then Inl ValueError
      else Inr (digits_nat s))"

definition int_of_str :: "pystr \<Rightarrow> int result" where
  "int_of_str s =
     (case s of
        [] \<Rightarrow> Inl ValueError
      | c # t \<Rightarrow>
          if c = 45 then bindE (nat_of_digits t) (\<lambda>n. Inr (- int n))
          else if c = 43 then bindE (nat_of_digits t) (\<lambda>n. Inr (int n))
          else bindE (nat_of_digits s) (\<lambda>n. Inr (int n)))"

fun nat_str :: "nat \<Rightarrow> pystr" where
  "nat_str n = (if n < 10 then [48 + n] else nat_str (n div 10) @ [48 + n mod 10])"

declare nat_str.simps [simp del]

definition int_str :: "int \<Rightarrow> pystr" where
  "int_str i = (if i < 0 then 45 # nat_str (nat (- i)) else nat_str (nat i))"

definition str_of_int :: "int \<Rightarrow> pystr result" where
  "str_of_int i =
     (if int_max_str_digits < length (nat_str (nat \<bar>i\<bar>)) then Inl ValueError else Inr (int_str i))"

lemma nat_str_nonempty [simp]: "nat_str n \<noteq> []"
  by (subst nat_str.simps) simp

lemma nat_str_digits: "list_all is_ascii_digit (nat_str n)"
proof (induction n rule: nat_str.induct)
  case (1 n)
  then show ?case
    by (cases "n < 10") (simp_all add: nat_str.simps [of n] is_ascii_digit_def)
qed

lemma digits_nat_snoc: "digits_nat (s @ [c]) =
    digits_nat s * 10 + (case digit_value c of None \<Rightarrow> 0 | Some d \<Rightarrow> d)"
  by (simp add: digits_nat_def)

lemma digits_nat_nat_str [simp]: "digits_nat (nat_str n) = n"
proof (induction n rule: nat_str.induct)
  case (1 n)
  show ?case
  proof (cases "n < 10")
    case True
    then show ?thesis
      by (simp add: nat_str.simps [of n] digits_nat_def digit_value_ascii is_ascii_digit_def)
  next
    case False
    with 1 show ?thesis
      by (simp add: nat_str.simps [of n] digits_nat_snoc digit_value_ascii is_ascii_digit_def)
  qed
qed

lemma nat_str_head: "\<exists>c t. nat_str n = c # t \<and> is_ascii_digit c"
  using nat_str_digits [of n] by (cases "nat_str n") auto

lemma nat_of_digits_nat_str:
  "length (nat_str n) \<le> int_max_str_digits \<Longrightarrow> nat_of_digits (nat_str n) = Inr n"
proof -
  assume "length (nat_str n) \<le> int_max_str_digits"
  moreover have "list_all is_decimal (nat_str n)"
    using nat_str_digits [of n] by (auto simp: list_all_iff is_decimal_ascii)
  ultimately show ?thesis by (simp add: nat_of_digits_def)
qed

text \<open>\<open>int(str(i)) == i\<close> whenever \<open>str(i)\<close> does not raise.\<close>

lemma int_of_str_str_of_int: "str_of_int i = Inr s \<Longrightarrow> int_of_str s = Inr i"
proof -
  assume "str_of_int i = Inr s"
  then have len: "length (nat_str (nat \<bar>i\<bar>)) \<le> int_max_str_digits" and s: "s = int_str i"
    by (auto simp: str_of_int_def split: if_splits)
  have rt: "nat_of_digits (nat_str (nat \<bar>i\<bar>)) = Inr (nat \<bar>i\<bar>)"
    by (rule nat_of_digits_nat_str [OF len])
  obtain c t where ct: "nat_str (nat i) = c # t" "is_ascii_digit c"
    using nat_str_head by blast
  show ?thesis
  proof (cases "i < 0")
    case True
    with rt s show ?thesis by (simp add: int_of_str_def int_str_def)
  next
    case False
    with rt s ct show ?thesis by (auto simp: int_of_str_def int_str_def is_ascii_digit_def)
  qed
qed

section \<open>UTF-8\<close>

text \<open>
  \<open>str.encode("utf-8")\<close>. A surrogate code point (which a \<open>str\<close> may hold, for example
  after reading the JSON escape of one) has no encoding and raises \<open>UnicodeEncodeError\<close>.
\<close>

definition is_surrogate :: "nat \<Rightarrow> bool" where
  "is_surrogate c \<longleftrightarrow> 55296 \<le> c \<and> c \<le> 57343"

definition utf8_char :: "nat \<Rightarrow> nat list" where
  "utf8_char c =
     (if c < 128 then [c]
      else if c < 2048 then [192 + c div 64, 128 + c mod 64]
      else if c < 65536 then [224 + c div 4096, 128 + c div 64 mod 64, 128 + c mod 64]
      else [240 + c div 262144, 128 + c div 4096 mod 64, 128 + c div 64 mod 64, 128 + c mod 64])"

definition utf8_encode :: "pystr \<Rightarrow> nat list result" where
  "utf8_encode s =
     (if list_ex is_surrogate s then Inl UnicodeEncodeError else Inr (concat (map utf8_char s)))"

definition is_pystr :: "pystr \<Rightarrow> bool" where
  "is_pystr s \<longleftrightarrow> list_all (\<lambda>c. c < 1114112) s"

lemma utf8_char_bytes: "c < 1114112 \<Longrightarrow> \<forall>b \<in> set (utf8_char c). b < 256"
  by (auto simp: utf8_char_def)

lemma utf8_encode_bytes: "is_pystr s \<Longrightarrow> utf8_encode s = Inr bs \<Longrightarrow> \<forall>b \<in> set bs. b < 256"
  using utf8_char_bytes by (fastforce simp: utf8_encode_def is_pystr_def list_all_iff split: if_splits)

lemma utf8_encode_ascii: "list_all (\<lambda>c. c < 128) s \<Longrightarrow> utf8_encode s = Inr s"
proof -
  assume a: "list_all (\<lambda>c. c < 128) s"
  then have "\<not> list_ex is_surrogate s"
    by (induction s) (auto simp: is_surrogate_def)
  moreover from a have "concat (map utf8_char s) = s"
    by (induction s) (auto simp: utf8_char_def)
  ultimately show ?thesis by (simp add: utf8_encode_def)
qed

end
