(* ===== verification/Py_Float.thy ===== *)
theory Py_Float
  imports Complex_Main Py_Str "HOL-Library.Log_Nat"
begin

text \<open>
  Python's \<open>float\<close>: IEEE 754 binary64 with rounding to nearest, ties to even. A finite float
  is the rational number it denotes; every operation is the exact operation on rationals followed by
  \<open>round_double\<close>. The sign of a zero is not kept: the comparisons and the arithmetic of the SDK do
  not see it. The second half is \<open>float(str)\<close> and \<open>repr(float)\<close>, the shortest decimal
  that reads back as the same float.
\<close>

datatype pyfloat = Finite rat | Infinite bool | NaN

section \<open>Rounding\<close>

definition round_half_even :: "rat \<Rightarrow> int" where
  "round_half_even x =
     (let f = \<lfloor>x\<rfloor>; d = x - of_int f
      in if d < 1 / 2 then f else if d > 1 / 2 then f + 1 else if even f then f else f + 1)"

text \<open>The exponent of the leading bit of a positive rational.\<close>

definition ilog2 :: "rat \<Rightarrow> int" where
  "ilog2 x =
     (let (p, q) = quotient_of x; k = int (floorlog 2 (nat p)) - int (floorlog 2 (nat q))
      in if 2 powi k \<le> x then k else k - 1)"

text \<open>53 bits of precision, and no bit below \<open>2 ^ -1074\<close>.\<close>

definition quantum_exp :: "rat \<Rightarrow> int" where
  "quantum_exp x = max (- 1074) (ilog2 \<bar>x\<bar> - 52)"

definition round_double :: "rat \<Rightarrow> pyfloat" where
  "round_double x =
     (if x = 0 then Finite 0
      else let q = 2 powi quantum_exp x; y = of_int (round_half_even (x / q)) * q
           in if 2 ^ 1024 \<le> \<bar>y\<bar> then Infinite (0 < x) else Finite y)"

text \<open>The rationals that are floats.\<close>

definition is_double :: "rat \<Rightarrow> bool" where
  "is_double x \<longleftrightarrow> \<bar>x\<bar> < 2 ^ 1024 \<and> (x = 0 \<or> x / 2 powi quantum_exp x \<in> \<int>)"

lemma round_half_even_ge: "of_int n \<le> x \<Longrightarrow> n \<le> round_half_even x"
proof -
  assume "of_int n \<le> x"
  then have "n \<le> \<lfloor>x\<rfloor>" by (simp add: le_floor_iff)
  then show ?thesis by (auto simp: round_half_even_def Let_def)
qed

lemma round_half_even_le: "x \<le> of_int n \<Longrightarrow> round_half_even x \<le> n"
proof -
  assume a: "x \<le> of_int n"
  show ?thesis
  proof (cases "x = of_int n")
    case True
    then show ?thesis by (simp add: round_half_even_def)
  next
    case False
    with a have "\<lfloor>x\<rfloor> < n" by (simp add: floor_less_iff)
    then show ?thesis by (auto simp: round_half_even_def Let_def)
  qed
qed

lemma round_half_even_int [simp]: "round_half_even (of_int n) = n"
  by (simp add: round_half_even_def)

lemma round_half_even_error: "\<bar>of_int (round_half_even x) - x\<bar> \<le> 1 / 2"
  unfolding round_half_even_def Let_def
  using of_int_floor_le [of x] floor_correct [of x] by (auto simp: abs_le_iff)

text \<open>What rounding a multiple of a quantum moves, scaled back.\<close>

lemma scaled_error: "0 < q \<Longrightarrow> \<bar>of_int (round_half_even (x / q)) * q - x\<bar> \<le> q / (2 :: rat)"
proof -
  assume q: "0 < q"
  then have "of_int (round_half_even (x / q)) * q - x = (of_int (round_half_even (x / q)) - x / q) * q"
    by (simp add: field_simps)
  then have "\<bar>of_int (round_half_even (x / q)) * q - x\<bar> =
      \<bar>of_int (round_half_even (x / q)) - x / q\<bar> * q"
    using q by (simp add: abs_mult)
  also have "\<dots> \<le> 1 / 2 * q"
    using q round_half_even_error by (intro mult_right_mono) auto
  finally show ?thesis by simp
qed

lemma powi_2_diff: "(2 :: rat) powi (m - n) = 2 powi m / 2 powi n"
  by (simp add: power_int_diff)

lemma rat_of_nat_floorlog:
  assumes "0 < p"
  shows "(2 :: rat) powi (int (floorlog 2 (nat p)) - 1) \<le> of_int p"
    and "of_int p < (2 :: rat) powi int (floorlog 2 (nat p))"
proof -
  have pos: "0 < nat p" using assms by simp
  have fl: "0 < floorlog 2 (nat p)" using pos by (simp add: floorlog_def)
  have "2 ^ (floorlog 2 (nat p) - 1) \<le> nat p"
    using floorlog_bounds [of "nat p" 2] pos by simp
  then have "(of_nat (2 ^ (floorlog 2 (nat p) - 1)) :: rat) \<le> of_nat (nat p)"
    by (simp only: of_nat_le_iff)
  moreover have "int (floorlog 2 (nat p)) - 1 = int (floorlog 2 (nat p) - 1)"
    using fl by simp
  ultimately show "(2 :: rat) powi (int (floorlog 2 (nat p)) - 1) \<le> of_int p"
    using assms by (simp only: power_int_of_nat of_nat_power) simp
  have "nat p < 2 ^ floorlog 2 (nat p)"
    using floorlog_bounds [of "nat p" 2] pos by simp
  then have "(of_nat (nat p) :: rat) < of_nat (2 ^ floorlog 2 (nat p))"
    by (simp only: of_nat_less_iff)
  then show "of_int p < (2 :: rat) powi int (floorlog 2 (nat p))"
    using assms by (simp only: power_int_of_nat of_nat_power) simp
qed

lemma ilog2_bounds:
  assumes "0 < x"
  shows "2 powi ilog2 x \<le> x" and "x < 2 powi (ilog2 x + 1)"
proof -
  obtain p q where pq: "quotient_of x = (p, q)" by fastforce
  have q: "0 < q" using quotient_of_denom_pos [OF pq] .
  have x: "x = of_int p / of_int q" using quotient_of_div [OF pq] .
  have p: "0 < p" using assms q by (simp add: x zero_less_divide_iff)
  let ?a = "int (floorlog 2 (nat p))" and ?b = "int (floorlog 2 (nat q))"
  note P = rat_of_nat_floorlog [OF p] and Q = rat_of_nat_floorlog [OF q]
  have lo: "2 powi (?a - ?b - 1) \<le> x"
  proof -
    have "?a - ?b - 1 = ?a - 1 - ?b" by simp
    then have "2 powi (?a - ?b - 1) = (2 :: rat) powi (?a - 1) / 2 powi ?b"
      by (simp only: powi_2_diff)
    also have "\<dots> \<le> of_int p / of_int q"
      using P Q p q by (intro frac_le) auto
    finally show ?thesis by (simp add: x)
  qed
  have hi: "x < 2 powi (?a - ?b + 1)"
  proof -
    have "of_int p / of_int q < (2 :: rat) powi ?a / 2 powi (?b - 1)"
      using P Q p q by (intro frac_less) auto
    also have "\<dots> = 2 powi (?a - (?b - 1))"
      by (simp only: powi_2_diff)
    also have "?a - (?b - 1) = ?a - ?b + 1" by simp
    finally show ?thesis by (simp add: x)
  qed
  show "2 powi ilog2 x \<le> x" and "x < 2 powi (ilog2 x + 1)"
    using lo hi by (auto simp: ilog2_def pq Let_def algebra_simps)
qed

lemma ilog2_le:
  assumes "0 < x" and "x < 2 powi k"
  shows "ilog2 x < k"
proof (rule ccontr)
  assume "\<not> ilog2 x < k"
  then have "(2 :: rat) powi k \<le> 2 powi ilog2 x" by (intro power_int_increasing) auto
  with ilog2_bounds(1) [OF assms(1)] assms(2) show False by simp
qed

lemma round_double_double [simp]: "is_double x \<Longrightarrow> round_double x = Finite x"
proof (cases "x = 0")
  case True
  then show ?thesis by (simp add: round_double_def)
next
  case False
  assume d: "is_double x"
  then obtain n where "x / 2 powi quantum_exp x = of_int n"
    using False by (auto simp: is_double_def elim: Ints_cases)
  then have "of_int (round_half_even (x / 2 powi quantum_exp x)) * 2 powi quantum_exp x =
      x / 2 powi quantum_exp x * 2 powi quantum_exp x"
    by (simp only: round_half_even_int)
  then have "of_int (round_half_even (x / 2 powi quantum_exp x)) * 2 powi quantum_exp x = x"
    by simp
  with d False show ?thesis by (simp add: round_double_def Let_def is_double_def)
qed

text \<open>Rounding never crosses a multiple of the quantum, and moves by at most half of it.\<close>

lemma round_double_ge:
  assumes "round_double x = Finite y" and "of_int n * 2 powi quantum_exp x \<le> x" and "x \<noteq> 0"
  shows "of_int n * 2 powi quantum_exp x \<le> y"
proof -
  have "of_int n \<le> x / 2 powi quantum_exp x"
    using assms(2) by (simp add: field_simps)
  then have "n \<le> round_half_even (x / 2 powi quantum_exp x)" by (rule round_half_even_ge)
  with assms(1,3) show ?thesis by (auto simp: round_double_def Let_def split: if_splits)
qed

lemma round_double_0 [simp]: "round_double 0 = Finite 0"
  by (simp add: round_double_def)

lemma is_double_0 [simp]: "is_double 0"
  by (simp add: is_double_def)

lemma round_double_ge_0: "round_double x = Finite y \<Longrightarrow> 0 \<le> x \<Longrightarrow> 0 \<le> y"
  using round_double_ge [of x y 0] by (cases "x = 0") auto

lemma round_double_error:
  assumes "round_double x = Finite y"
  shows "\<bar>y - x\<bar> \<le> 2 powi quantum_exp x / 2"
proof (cases "x = 0")
  case True
  with assms show ?thesis by (simp add: round_double_def)
next
  case False
  let ?q = "2 powi quantum_exp x :: rat"
  have y: "y = of_int (round_half_even (x / ?q)) * ?q"
    using assms False by (auto simp: round_double_def Let_def split: if_splits)
  show ?thesis unfolding y by (rule scaled_error) simp
qed

lemma round_double_finite:
  assumes "\<bar>x\<bar> < 2 ^ 1023"
  shows "\<exists>y. round_double x = Finite y"
proof (cases "x = 0")
  case True
  then show ?thesis by (simp add: round_double_def)
next
  case False
  let ?q = "2 powi quantum_exp x :: rat"
  have "ilog2 \<bar>x\<bar> < 1023" using assms False by (intro ilog2_le) auto
  then have q: "?q \<le> 2 powi 971" unfolding quantum_exp_def by (intro power_int_increasing) auto
  have "\<bar>of_int (round_half_even (x / ?q)) * ?q - x\<bar> \<le> ?q / 2"
    by (rule scaled_error) simp
  moreover have "?q / 2 < 2 ^ 1023" using q by simp
  ultimately have "\<bar>of_int (round_half_even (x / ?q)) * ?q\<bar> < 2 ^ 1023 + 2 ^ 1023"
    using assms by linarith
  then have "\<not> 2 ^ 1024 \<le> \<bar>of_int (round_half_even (x / ?q)) * ?q\<bar>"
    by (simp del: of_int_mult)
  then show ?thesis using False by (simp add: round_double_def Let_def)
qed

text \<open>Two rules to compute a rounding: the binade, and the integer nearest to the scaled value.\<close>

lemma round_half_even_unique: "\<bar>of_int n - x\<bar> < 1 / 2 \<Longrightarrow> round_half_even x = n"
proof -
  assume a: "\<bar>of_int n - x\<bar> < 1 / 2"
  have "\<bar>of_int (round_half_even x) - of_int n :: rat\<bar> < 1"
    using a round_half_even_error [of x] by linarith
  then have "\<bar>of_int (round_half_even x - n) :: rat\<bar> < 1" by simp
  then show ?thesis by linarith
qed

lemma round_half_even_tie:
  "even n \<Longrightarrow> of_int n - x = 1 / 2 \<or> x - of_int n = 1 / 2 \<Longrightarrow> round_half_even x = n"
proof (elim disjE)
  assume e: "even n"
  {
    assume "x - of_int n = 1 / 2"
    then have x: "x = of_int n + 1 / 2" by simp
    then have "\<lfloor>x\<rfloor> = n" by linarith
    then show "round_half_even x = n" using e x by (simp add: round_half_even_def)
  next
    assume "of_int n - x = 1 / 2"
    then have x: "x = of_int (n - 1) + 1 / 2" by simp
    then have "\<lfloor>x\<rfloor> = n - 1" by linarith
    then show "round_half_even x = n" using e x by (simp add: round_half_even_def)
  }
qed

lemma ilog2_unique:
  assumes "2 powi k \<le> x" and "x < 2 powi (k + 1)"
  shows "ilog2 x = k"
proof -
  have pos: "0 < x" using assms(1) by (meson less_le_trans zero_less_numeral zero_less_power_int)
  have "ilog2 x < k + 1" using pos assms(2) by (rule ilog2_le)
  moreover have "\<not> ilog2 x < k"
  proof
    assume "ilog2 x < k"
    then have "(2 :: rat) powi (ilog2 x + 1) \<le> 2 powi k" by (intro power_int_increasing) auto
    with ilog2_bounds(2) [OF pos] assms(1) show False by simp
  qed
  ultimately show ?thesis by simp
qed

lemma round_doubleI:
  assumes "2 powi k \<le> \<bar>x\<bar>" and "\<bar>x\<bar> < 2 powi (k + 1)" and "- 1022 \<le> k" and "k < 1023"
    and "\<bar>of_int n - x / 2 powi (k - 52)\<bar> < 1 / 2"
  shows "round_double x = Finite (of_int n * 2 powi (k - 52))"
proof -
  have "x \<noteq> 0"
  proof
    assume "x = 0"
    with assms(1) have "2 powi k \<le> (0 :: rat)" by simp
    moreover have "0 < (2 :: rat) powi k" by simp
    ultimately show False by linarith
  qed
  moreover have "quantum_exp x = k - 52"
    using ilog2_unique [OF assms(1,2)] assms(3) by (simp add: quantum_exp_def)
  moreover have "\<exists>y. round_double x = Finite y"
  proof (rule round_double_finite)
    have "(2 :: rat) powi (k + 1) \<le> 2 powi 1023" using assms(4) by (intro power_int_increasing) auto
    with assms(2) show "\<bar>x\<bar> < 2 ^ 1023" by simp
  qed
  ultimately show ?thesis
    using round_half_even_unique [OF assms(5)] by (auto simp: round_double_def Let_def split: if_splits)
qed

text \<open>Every integer below \<open>2 ^ 53\<close> is a float, and so are its neighbourhood's quanta.\<close>

lemma quantum_exp_le_0: "\<bar>x\<bar> < 2 ^ 53 \<Longrightarrow> x \<noteq> 0 \<Longrightarrow> quantum_exp x \<le> 0"
proof -
  assume "\<bar>x\<bar> < 2 ^ 53" and "x \<noteq> 0"
  then have "ilog2 \<bar>x\<bar> < 53" by (intro ilog2_le) auto
  then show ?thesis by (simp add: quantum_exp_def)
qed

lemma of_int_quantum:
  assumes "k \<le> 0"
  shows "\<exists>m. (of_int n :: rat) = of_int m * 2 powi k"
proof
  have "(2 :: rat) powi k = inverse (2 ^ nat (- k))"
    using assms by (auto simp: power_int_def power_one_over inverse_eq_divide)
  then show "(of_int n :: rat) = of_int (n * 2 ^ nat (- k)) * 2 powi k"
    by simp
qed

lemma is_double_int [simp]:
  assumes "\<bar>n\<bar> < 2 ^ 53"
  shows "is_double (of_int n)"
proof (cases "n = 0")
  case True
  then show ?thesis by (simp add: is_double_def)
next
  case False
  have b: "\<bar>of_int n :: rat\<bar> < 2 ^ 53"
    using assms by (metis of_int_abs of_int_less_iff of_int_numeral of_int_power)
  then have "quantum_exp (of_int n) \<le> 0"
    using False by (intro quantum_exp_le_0) auto
  then obtain m where "(of_int n :: rat) = of_int m * 2 powi quantum_exp (of_int n)"
    using of_int_quantum by blast
  then have "(of_int n :: rat) / 2 powi quantum_exp (of_int n) = of_int m"
    by (metis nonzero_mult_div_cancel_right power_int_eq_0_iff zero_neq_numeral)
  moreover have "\<bar>of_int n :: rat\<bar> < 2 ^ 1024"
  proof -
    have "(2 :: rat) ^ 53 < 2 ^ 1024" by (rule power_strict_increasing) auto
    with b show ?thesis by linarith
  qed
  ultimately show ?thesis by (simp add: is_double_def)
qed

text \<open>A float that is at least an integer is not rounded below it.\<close>

lemma round_double_ge_int:
  assumes "round_double x = Finite y" and "of_int n \<le> x" and "\<bar>x\<bar> < 2 ^ 53" and "x \<noteq> 0"
  shows "of_int n \<le> y"
proof -
  obtain m where "(of_int n :: rat) = of_int m * 2 powi quantum_exp x"
    using of_int_quantum quantum_exp_le_0 assms by blast
  with round_double_ge [OF assms(1), of m] assms show ?thesis by simp
qed

text \<open>What rounding returns is a float.\<close>

lemma round_double_eq:
  assumes "x \<noteq> 0" and "round_double x = Finite y"
  shows "y = of_int (round_half_even (x / 2 powi quantum_exp x)) * 2 powi quantum_exp x"
    and "\<bar>y\<bar> < 2 ^ 1024"
  using assms by (auto simp: round_double_def Let_def split: if_splits)

lemma round_half_even_abs_le: "\<bar>x\<bar> \<le> of_int n \<Longrightarrow> \<bar>round_half_even x\<bar> \<le> n"
  using round_half_even_le [of x n] round_half_even_ge [of "- n" x] by (auto simp: abs_le_iff)

lemma quantum_multiple_is_double:
  assumes "\<bar>y\<bar> < 2 ^ 1024" and "y = of_int n * 2 powi e" and "y \<noteq> 0" and "quantum_exp y \<le> e"
  shows "is_double y"
proof -
  have "y / 2 powi quantum_exp y = of_int n * 2 powi (e - quantum_exp y)"
    by (simp add: assms(2) powi_2_diff)
  also have "(2 :: rat) powi (e - quantum_exp y) = of_int (2 ^ nat (e - quantum_exp y))"
    using assms(4) by (simp add: power_int_def)
  finally show ?thesis
    using assms(1) by (auto simp: is_double_def simp flip: of_int_mult)
qed

lemma round_double_is_double:
  assumes r: "round_double x = Finite y"
  shows "is_double y"
proof (cases "y = 0")
  case True
  then show ?thesis by (simp add: is_double_def)
next
  case False
  have x: "x \<noteq> 0" using r False by (auto simp: round_double_def)
  define e where "e = quantum_exp x"
  define n where "n = round_half_even (x / 2 powi e)"
  have y: "y = of_int n * 2 powi e" and b: "\<bar>y\<bar> < 2 ^ 1024"
    using round_double_eq [OF x r] by (simp_all add: e_def n_def)
  define k where "k = max (ilog2 \<bar>x\<bar> + 1) e"
  have "\<bar>x\<bar> < 2 powi (ilog2 \<bar>x\<bar> + 1)" using ilog2_bounds(2) [of "\<bar>x\<bar>"] x by simp
  also have "\<dots> \<le> (2 :: rat) powi k" by (intro power_int_increasing) (auto simp: k_def)
  finally have xk: "\<bar>x\<bar> \<le> 2 powi k" by simp
  have ke: "k - e \<ge> 0" by (simp add: k_def)
  have "\<bar>x / 2 powi e\<bar> \<le> 2 powi (k - e)"
    using xk by (simp add: powi_2_diff divide_right_mono)
  also have "\<dots> = of_int (2 ^ nat (k - e))" using ke by (simp add: power_int_def)
  finally have "\<bar>n\<bar> \<le> 2 ^ nat (k - e)"
    unfolding n_def by (rule round_half_even_abs_le)
  then have "\<bar>of_int n :: rat\<bar> \<le> of_int (2 ^ nat (k - e))"
    by (metis of_int_abs of_int_le_iff)
  also have "\<dots> = 2 powi (k - e)" using ke by (simp add: power_int_def)
  finally have "\<bar>of_int n :: rat\<bar> * 2 powi e \<le> 2 powi k"
    by (simp add: powi_2_diff pos_le_divide_eq)
  then have yk: "\<bar>y\<bar> \<le> 2 powi k" by (simp add: y abs_mult)
  show ?thesis
  proof (cases "\<bar>y\<bar> = 2 powi k")
    case True
    have "ilog2 \<bar>y\<bar> = k" using True by (intro ilog2_unique) (auto simp: power_int_add)
    then have q: "quantum_exp y \<le> k" by (auto simp: quantum_exp_def k_def e_def)
    have "y = of_int (if 0 < y then 1 else - 1) * 2 powi k" using True by auto
    then show ?thesis using quantum_multiple_is_double [OF b _ False q] by blast
  next
    case F: False
    with yk have "\<bar>y\<bar> < 2 powi k" by simp
    then have "ilog2 \<bar>y\<bar> < k" using False by (intro ilog2_le) auto
    then have "quantum_exp y \<le> e" by (auto simp: quantum_exp_def k_def e_def)
    then show ?thesis using quantum_multiple_is_double [OF b y False] by blast
  qed
qed

section \<open>Arithmetic and comparison\<close>

fun fl_add :: "pyfloat \<Rightarrow> pyfloat \<Rightarrow> pyfloat" where
  "fl_add (Finite a) (Finite b) = round_double (a + b)"
| "fl_add (Infinite s) (Infinite t) = (if s = t then Infinite s else NaN)"
| "fl_add NaN _ = NaN"
| "fl_add _ NaN = NaN"
| "fl_add (Infinite s) _ = Infinite s"
| "fl_add _ (Infinite s) = Infinite s"

text \<open>Division of two finite floats with a divisor that is not zero.\<close>

definition fl_div_finite :: "rat \<Rightarrow> rat \<Rightarrow> pyfloat" where
  "fl_div_finite a b = round_double (a / b)"

fun fl_less :: "pyfloat \<Rightarrow> pyfloat \<Rightarrow> bool" where
  "fl_less NaN _ = False"
| "fl_less _ NaN = False"
| "fl_less (Finite a) (Finite b) = (a < b)"
| "fl_less (Finite a) (Infinite s) = s"
| "fl_less (Infinite s) (Finite b) = (\<not> s)"
| "fl_less (Infinite s) (Infinite t) = (\<not> s \<and> t)"

definition fl_is_finite :: "pyfloat \<Rightarrow> bool" where
  "fl_is_finite f = (case f of Finite _ \<Rightarrow> True | _ \<Rightarrow> False)"

text \<open>\<open>float.is_integer\<close>\<close>

definition rat_is_integer :: "rat \<Rightarrow> bool" where
  "rat_is_integer x \<longleftrightarrow> of_int \<lfloor>x\<rfloor> = x"

text \<open>\<open>float(i)\<close>: the nearest float, or \<open>OverflowError\<close>.\<close>

definition float_of_int :: "int \<Rightarrow> pyfloat result" where
  "float_of_int i =
     (case round_double (of_int i) of Finite x \<Rightarrow> Inr (Finite x) | _ \<Rightarrow> Inl OverflowError)"

text \<open>\<open>int(f)\<close>: truncation towards zero; infinities and NaN raise.\<close>

definition int_of_float :: "pyfloat \<Rightarrow> int result" where
  "int_of_float f =
     (case f of
        Finite x \<Rightarrow> Inr (if x < 0 then \<lceil>x\<rceil> else \<lfloor>x\<rfloor>)
      | Infinite _ \<Rightarrow> Inl OverflowError
      | NaN \<Rightarrow> Inl ValueError)"

text \<open>A float that is a number, as every float the SDK computes with is.\<close>

definition fl_ok :: "pyfloat \<Rightarrow> bool" where
  "fl_ok f = (case f of Finite x \<Rightarrow> is_double x | _ \<Rightarrow> True)"

lemma fl_add_0 [simp]: "is_double a \<Longrightarrow> fl_add (Finite a) (Finite 0) = Finite a"
  by simp

lemma fl_add_int:
  "\<bar>m + n\<bar> < 2 ^ 53 \<Longrightarrow> fl_add (Finite (of_int m)) (Finite (of_int n)) = Finite (of_int (m + n))"
  by (metis fl_add.simps(1) is_double_int of_int_add round_double_double)

lemma fl_add_commute: "fl_add a b = fl_add b a"
  by (cases a; cases b) (auto simp: add.commute)

lemma fl_add_is_double: "fl_add a b = Finite y \<Longrightarrow> is_double y"
  by (cases a; cases b) (auto simp: round_double_is_double split: if_splits)

lemma fl_ok_add: "fl_ok (fl_add a b)"
  by (auto simp: fl_ok_def fl_add_is_double split: pyfloat.splits)

lemma fl_add_zero: "fl_ok a \<Longrightarrow> fl_add a (Finite 0) = a"
  by (cases a) (auto simp: fl_ok_def)

lemma fl_add_nat: "m + n < 2 ^ 53 \<Longrightarrow> fl_add (Finite (of_nat m)) (Finite (of_nat n)) = Finite (of_nat (m + n))"
  using fl_add_int [of "int m" "int n"] by simp

section \<open>Decimal literals\<close>

text \<open>
  \<open>float(s)\<close> for a string made of ASCII digits, signs, dots and exponent markers (the only
  strings the SDK passes): an optional sign, digits with an optional point and at least one digit,
  and an optional exponent. The exact decimal is rounded once.
\<close>

definition split_sign :: "pystr \<Rightarrow> bool \<times> pystr" where
  "split_sign s =
     (case s of [] \<Rightarrow> (False, []) | c # t \<Rightarrow>
        if c = 45 then (True, t) else if c = 43 then (False, t) else (False, s))"

definition decimal_mantissa :: "pystr \<Rightarrow> (nat \<times> nat \<times> pystr) option" where
  "decimal_mantissa s =
     (let ip = takeWhile is_ascii_digit s; r = dropWhile is_ascii_digit s
      in case r of
           [] \<Rightarrow> if ip = [] then None else Some (digits_nat ip, 0, [])
         | c # t \<Rightarrow>
             if c = 46 then
               (let fp = takeWhile is_ascii_digit t
                in if ip @ fp = [] then None
                   else Some (digits_nat (ip @ fp), length fp, dropWhile is_ascii_digit t))
             else if ip = [] then None else Some (digits_nat ip, 0, r))"

definition decimal_exponent :: "pystr \<Rightarrow> int option" where
  "decimal_exponent s =
     (case s of
        [] \<Rightarrow> Some 0
      | c # t \<Rightarrow>
          if c = 101 \<or> c = 69 then
            (case split_sign t of (neg, ds) \<Rightarrow>
               if ds \<noteq> [] \<and> list_all is_ascii_digit ds
               then Some (if neg then - int (digits_nat ds) else int (digits_nat ds)) else None)
          else None)"

definition decimal_value :: "pystr \<Rightarrow> rat option" where
  "decimal_value s =
     (case split_sign s of (neg, t) \<Rightarrow>
        (case decimal_mantissa t of
           None \<Rightarrow> None
         | Some (m, scale, r) \<Rightarrow>
             (case decimal_exponent r of
                None \<Rightarrow> None
              | Some e \<Rightarrow>
                  (let v = of_nat m * 10 powi (e - int scale) in Some (if neg then - v else v)))))"

definition float_of_str :: "pystr \<Rightarrow> pyfloat result" where
  "float_of_str s = (case decimal_value s of None \<Rightarrow> Inl ValueError | Some v \<Rightarrow> Inr (round_double v))"

lemma takeWhile_nat_str: "takeWhile is_ascii_digit (nat_str n) = nat_str n"
  "dropWhile is_ascii_digit (nat_str n) = []"
  using nat_str_digits [of n] by (auto simp: takeWhile_eq_all_conv dropWhile_eq_Nil_conv list_all_iff)

lemma decimal_value_int_str: "decimal_value (int_str i) = Some (of_int i)"
proof -
  obtain c t where ct: "nat_str (nat i) = c # t" "is_ascii_digit c" using nat_str_head by blast
  have m: "decimal_mantissa (nat_str n) = Some (n, 0, [])" for n
    by (simp add: decimal_mantissa_def takeWhile_nat_str)
  show ?thesis
  proof (cases "i < 0")
    case True
    then show ?thesis
      by (simp add: int_str_def decimal_value_def split_sign_def m decimal_exponent_def)
  next
    case False
    then have "split_sign (int_str i) = (False, nat_str (nat i))"
      using ct by (auto simp: int_str_def split_sign_def is_ascii_digit_def)
    then show ?thesis
      using False by (simp add: decimal_value_def m decimal_exponent_def)
  qed
qed

lemma float_of_str_int_str: "float_of_str (int_str i) = Inr (round_double (of_int i))"
  by (simp add: float_of_str_def decimal_value_int_str)

section \<open>repr\<close>

text \<open>
  \<open>repr(f)\<close>: the shortest digit string that rounds to the float, the closest one if there are
  several, in positional notation for exponents from -4 to 15 and in scientific notation otherwise.
  Seventeen digits always suffice for binary64, so the search ends there.
\<close>

definition ilog10 :: "rat \<Rightarrow> int" where
  "ilog10 x =
     (let (p, q) = quotient_of x;
          k = int (length (nat_str (nat p))) - int (length (nat_str (nat q)))
      in if 10 powi k \<le> x then k else k - 1)"

definition decimal_candidate :: "rat \<Rightarrow> nat \<Rightarrow> (nat \<times> int) option" where
  "decimal_candidate a n =
     (let e = ilog10 a - int n + 1; u = 10 powi e; lo = \<lfloor>a / u\<rfloor>;
          ok = (\<lambda>c :: int. 0 < c \<and> round_double (of_int c * u) = Finite a);
          dlo = a - of_int lo * u; dhi = of_int (lo + 1) * u - a
      in if ok lo \<and> (\<not> ok (lo + 1) \<or> dlo < dhi \<or> dlo = dhi \<and> even lo) then Some (nat lo, e)
         else if ok (lo + 1) then Some (nat (lo + 1), e) else None)"

fun shortest_decimal :: "rat \<Rightarrow> nat list \<Rightarrow> nat \<times> int" where
  "shortest_decimal a [] = (0, 0)"
| "shortest_decimal a (n # ns) =
     (case decimal_candidate a n of Some c \<Rightarrow> c | None \<Rightarrow> shortest_decimal a ns)"

definition strip_zeros :: "pystr \<Rightarrow> pystr" where
  "strip_zeros ds = rev (dropWhile (\<lambda>c. c = 48) (rev ds))"

definition format_decimal :: "pystr \<Rightarrow> int \<Rightarrow> pystr" where
  "format_decimal ds point =
     (let n = int (length ds)
      in if - 4 < point \<and> point \<le> 16 then
           (if point \<le> 0 then py ''0.'' @ replicate (nat (- point)) 48 @ ds
            else if n \<le> point then ds @ replicate (nat (point - n)) 48 @ py ''.0''
            else take (nat point) ds @ py ''.'' @ drop (nat point) ds)
         else
           (let e = point - 1;
                es = nat_str (nat \<bar>e\<bar>)
            in take 1 ds @ (if length ds = 1 then [] else py ''.'' @ drop 1 ds)
               @ (if e < 0 then py ''e-'' else py ''e+'')
               @ (if length es = 1 then 48 # es else es)))"

definition finite_repr :: "rat \<Rightarrow> pystr" where
  "finite_repr x =
     (if x = 0 then py ''0.0''
      else let (c, e) = shortest_decimal \<bar>x\<bar> [1..<18];
               ds = nat_str c;
               t = format_decimal (strip_zeros ds) (int (length ds) + e)
           in if x < 0 then 45 # t else t)"

definition float_repr :: "pyfloat \<Rightarrow> pystr" where
  "float_repr f =
     (case f of
        Finite x \<Rightarrow> finite_repr x
      | Infinite s \<Rightarrow> if s then py ''inf'' else py ''-inf''
      | NaN \<Rightarrow> py ''nan'')"

section \<open>The shortest digits denote the float\<close>

lemma nat_str_upper: "n < 10 ^ length (nat_str n)"
proof (induction n rule: nat_str.induct)
  case (1 n)
  show ?case
  proof (cases "n < 10")
    case True
    then show ?thesis by (simp add: nat_str.simps [of n])
  next
    case False
    then have "n div 10 < 10 ^ length (nat_str (n div 10))" using 1 by simp
    then have "n < 10 * 10 ^ length (nat_str (n div 10))" by linarith
    then show ?thesis using False by (simp add: nat_str.simps [of n])
  qed
qed

lemma nat_str_lower: "0 < n \<Longrightarrow> 10 ^ length (nat_str n) \<le> 10 * n"
proof (induction n rule: nat_str.induct)
  case (1 n)
  show ?case
  proof (cases "n < 10")
    case True
    then show ?thesis using 1 by (simp add: nat_str.simps [of n])
  next
    case False
    then have "10 ^ length (nat_str (n div 10)) \<le> 10 * (n div 10)" using 1 by simp
    then show ?thesis using False by (simp add: nat_str.simps [of n])
  qed
qed

lemma powi_10_diff: "(10 :: rat) powi (m - n) = 10 powi m / 10 powi n"
  by (simp add: power_int_diff)

lemma ilog10_le: "0 < x \<Longrightarrow> 10 powi ilog10 x \<le> x"
proof -
  assume x0: "0 < x"
  obtain p q where pq: "quotient_of x = (p, q)" by fastforce
  have q: "0 < q" using quotient_of_denom_pos [OF pq] .
  have x: "x = of_int p / of_int q" using quotient_of_div [OF pq] .
  have p: "0 < p" using x0 q by (simp add: x zero_less_divide_iff)
  let ?a = "length (nat_str (nat p))" and ?b = "length (nat_str (nat q))"
  have "(of_nat (10 ^ ?a) :: rat) \<le> of_nat (10 * nat p)"
    using nat_str_lower [of "nat p"] p by (simp only: of_nat_le_iff)
  then have P: "(10 :: rat) powi (int ?a - 1) \<le> of_int p"
    using p by (simp add: power_int_diff)
  have "(of_nat (nat q) :: rat) \<le> of_nat (10 ^ ?b)"
    using nat_str_upper [of "nat q"] by (simp only: of_nat_le_iff less_imp_le)
  then have Q: "of_int q \<le> (10 :: rat) powi int ?b" using q by simp
  have "(10 :: rat) powi (int ?a - int ?b - 1) = 10 powi (int ?a - 1) / 10 powi int ?b"
    by (simp add: power_int_diff)
  also have "\<dots> \<le> x" unfolding x using P Q q p by (intro frac_le) auto
  finally show ?thesis by (simp add: ilog10_def pq Let_def)
qed

lemma quantum_half_gt:
  assumes "0 < y"
  shows "y * 2 powi (- 54) < 2 powi quantum_exp y / 2"
proof -
  have "y < 2 powi (ilog2 y + 1)" by (rule ilog2_bounds(2) [OF assms])
  then have "y * 2 powi (- 54) < 2 powi (ilog2 y + 1) * 2 powi (- 54)"
    by (intro mult_strict_right_mono) auto
  also have "\<dots> = (2 powi (ilog2 y + 1 + - 54) :: rat)" by (rule power_int_add [symmetric]) simp
  also have "\<dots> \<le> 2 powi (quantum_exp y - 1)"
    using assms by (intro power_int_increasing) (auto simp: quantum_exp_def)
  also have "\<dots> = 2 powi quantum_exp y / 2" by (simp add: power_int_diff)
  finally show ?thesis .
qed

lemma ilog2_mono: "0 < x \<Longrightarrow> x \<le> y \<Longrightarrow> ilog2 x \<le> ilog2 y"
proof (rule ccontr)
  assume a: "0 < x" "x \<le> y" "\<not> ilog2 x \<le> ilog2 y"
  then have "(2 :: rat) powi (ilog2 y + 1) \<le> 2 powi ilog2 x" by (intro power_int_increasing) auto
  with ilog2_bounds(1) [of x] ilog2_bounds(2) [of y] a show False by linarith
qed

text \<open>A float is a multiple of the quantum of any number close to it.\<close>

lemma double_near_multiple:
  assumes "is_double a" and "0 < a" and "0 < y" and "\<bar>y - a\<bar> < 2 powi quantum_exp y / 2"
  shows "a / 2 powi quantum_exp y \<in> \<int>"
proof (cases "quantum_exp y \<le> quantum_exp a")
  case True
  have "a / 2 powi quantum_exp y = a / 2 powi quantum_exp a * 2 powi (quantum_exp a - quantum_exp y)"
    by (simp add: power_int_diff)
  moreover have "(2 :: rat) powi (quantum_exp a - quantum_exp y) = 2 ^ nat (quantum_exp a - quantum_exp y)"
    using True by (simp add: power_int_def)
  moreover have "a / 2 powi quantum_exp a \<in> \<int>" using assms(1,2) by (simp add: is_double_def)
  ultimately show ?thesis by (simp only: Ints_mult Ints_power Ints_numeral)
next
  case False
  define k where "k = ilog2 a + 1"
  have ya: "a < y"
    using False ilog2_mono [of y a] assms(2,3) by (force simp: quantum_exp_def)
  have q: "quantum_exp y = ilog2 y - 52" "- 1074 < ilog2 y - 52" "k \<le> ilog2 y"
    using False assms(2,3) by (auto simp: quantum_exp_def k_def)
  have "(2 :: rat) powi k \<le> 2 powi ilog2 y" using q(3) by (intro power_int_increasing) auto
  then have ky: "2 powi k \<le> y" using ilog2_bounds(1) [OF assms(3)] by linarith
  have ak: "a < 2 powi k" unfolding k_def by (rule ilog2_bounds(2) [OF assms(2)])
  have "y - a < 2 powi quantum_exp y / 2" using assms(4) by linarith
  moreover have "2 powi quantum_exp y / 2 \<le> y / 2"
  proof -
    have "(2 :: rat) powi quantum_exp y \<le> 2 powi ilog2 y" unfolding q(1) by (intro power_int_increasing) auto
    then show ?thesis using ilog2_bounds(1) [OF assms(3)] by simp
  qed
  ultimately have "y < 2 powi (k + 1)" using ak by (simp add: power_int_add)
  then have "ilog2 y < k + 1" by (rule ilog2_le [OF assms(3)])
  then have yk: "quantum_exp y = k - 52" using q by simp
  let ?q = "2 powi quantum_exp a :: rat"
  have qa: "2 powi quantum_exp y / 2 \<le> ?q"
  proof -
    have "(2 :: rat) powi (k - 52 - 1) \<le> ?q"
      unfolding quantum_exp_def k_def using assms(2) by (intro power_int_increasing) auto
    then show ?thesis unfolding yk by (simp add: power_int_diff)
  qed
  obtain m where m: "a = of_int m * ?q"
    using assms(1,2) by (auto simp: is_double_def field_simps elim!: Ints_cases)
  have "quantum_exp a \<le> k" using yk q False by simp
  then have "(2 :: rat) powi (k - quantum_exp a) = of_int (2 ^ nat (k - quantum_exp a))"
    by (simp add: power_int_def)
  then obtain n where n: "(2 :: rat) powi k = of_int n * ?q"
    by (metis power_int_add zero_neq_numeral diff_add_cancel)
  have "of_int m * ?q < of_int n * ?q" using ak by (simp only: m [symmetric] n [symmetric])
  then have "(of_int m :: rat) < of_int n" by simp
  then have "m + 1 \<le> n" by simp
  then have "(of_int (m + 1) :: rat) \<le> of_int n" by (simp only: of_int_le_iff)
  then have "of_int (m + 1) * ?q \<le> of_int n * ?q" by (intro mult_right_mono) auto
  then have "of_int m * ?q + ?q \<le> of_int n * ?q" by (simp add: algebra_simps)
  then have "a + ?q \<le> 2 powi k" by (simp only: m [symmetric] n [symmetric])
  then have "2 powi quantum_exp y / 2 \<le> y - a" using ky qa by linarith
  with assms(4) show ?thesis by linarith
qed

lemma round_double_near:
  assumes a: "is_double a" "0 < a" and near: "\<bar>y - a\<bar> \<le> a / 10 ^ 16 / 2"
  shows "round_double y = Finite a"
proof -
  have "a - y \<le> \<bar>y - a\<bar>" by linarith
  also note near
  finally have "a - y \<le> a / 20000000000000000" by simp
  then have y: "0 < y" "a * (1 - 1 / 10 ^ 16) \<le> y" using a(2) by (simp_all add: field_simps)
  have "a / 10 ^ 16 / 2 < a * (1 - 1 / 10 ^ 16) * 2 powi (- 54)"
    using a(2) by simp
  also have "\<dots> \<le> y * 2 powi (- 54)" using y(2) by (intro mult_right_mono) auto
  also have "\<dots> < 2 powi quantum_exp y / 2" by (rule quantum_half_gt [OF y(1)])
  finally have d: "\<bar>y - a\<bar> < 2 powi quantum_exp y / 2" using near by linarith
  let ?q = "2 powi quantum_exp y :: rat"
  obtain n where n: "a / ?q = of_int n"
    using double_near_multiple [OF a y(1) d] by (auto elim: Ints_cases)
  have "\<bar>of_int n - y / ?q\<bar> = \<bar>y - a\<bar> / ?q"
    unfolding n [symmetric] by (simp add: abs_minus_commute flip: diff_divide_distrib)
  also have "\<dots> < 1 / 2" using d by (simp add: field_simps)
  finally have "round_half_even (y / ?q) = n" by (rule round_half_even_unique)
  moreover have "of_int n * ?q = a" using n by (simp add: field_simps)
  moreover have "\<bar>a\<bar> < 2 ^ 1024" using a(1) by (simp add: is_double_def)
  ultimately show ?thesis using y(1) by (simp add: round_double_def)
qed

lemma decimal_candidate_17:
  assumes "is_double a" and "0 < a"
  shows "decimal_candidate a 17 \<noteq> None"
proof -
  define u where "u = (10 :: rat) powi (ilog10 a - 16)"
  have u: "0 < u" "u \<le> a / 10 ^ 16"
    using ilog10_le [OF assms(2)] by (simp_all add: u_def power_int_diff divide_right_mono)
  define lo where "lo = \<lfloor>a / u\<rfloor>"
  have "of_int lo \<le> a / u" "a / u < of_int lo + 1" unfolding lo_def by linarith+
  then have lo: "of_int lo * u \<le> a" "a < (of_int lo + 1) * u" using u(1) by (simp_all add: field_simps)
  have "1 \<le> a / u" using u assms(2) by (simp add: field_simps)
  then have pos: "0 < lo" by (simp add: lo_def)
  have close: "\<bar>of_int lo * u - a\<bar> \<le> u / 2 \<or> \<bar>of_int (lo + 1) * u - a\<bar> \<le> u / 2"
    using lo by (auto simp: abs_le_iff algebra_simps)
  have "round_double (of_int c * u) = Finite a" if "\<bar>of_int c * u - a\<bar> \<le> u / 2" for c
  proof (rule round_double_near [OF assms])
    have "u / 2 \<le> a / 10 ^ 16 / 2" using u(2) by simp
    with that show "\<bar>of_int c * u - a\<bar> \<le> a / 10 ^ 16 / 2" by linarith
  qed
  with close have "round_double (of_int lo * u) = Finite a \<or> round_double (of_int (lo + 1) * u) = Finite a"
    by blast
  moreover have "0 \<le> a / u" using assms(2) u(1) by simp
  ultimately show ?thesis
    using pos by (auto simp: decimal_candidate_def Let_def u_def lo_def)
qed

lemma decimal_candidate_sound:
  assumes "decimal_candidate a n = Some (c, e)"
  shows "0 < c \<and> round_double (of_nat c * 10 powi e) = Finite a"
proof -
  let ?e = "ilog10 a - int n + 1"
  let ?lo = "\<lfloor>a / 10 powi ?e\<rfloor>"
  have "\<exists>d. 0 < d \<and> round_double (of_int d * 10 powi ?e) = Finite a \<and> c = nat d \<and> e = ?e"
    using assms unfolding decimal_candidate_def Let_def
    by (auto split: if_splits intro: exI [of _ ?lo] exI [of _ "?lo + 1"])
  then show ?thesis by force
qed

lemma shortest_decimal_sound:
  assumes "\<exists>n \<in> set ns. decimal_candidate a n \<noteq> None" and "shortest_decimal a ns = (c, e)"
  shows "0 < c \<and> round_double (of_nat c * 10 powi e) = Finite a"
  using assms by (induction ns) (auto dest: decimal_candidate_sound split: option.splits)

lemma shortest_decimal_double:
  assumes "is_double a" and "0 < a" and "shortest_decimal a [1..<18] = (c, e)"
  shows "0 < c" and "round_double (of_nat c * 10 powi e) = Finite a"
proof -
  have "\<exists>n \<in> set [1..<18]. decimal_candidate a n \<noteq> None"
    using decimal_candidate_17 [OF assms(1,2)] by (intro bexI [of _ 17]) auto
  from shortest_decimal_sound [OF this assms(3)]
  show "0 < c" and "round_double (of_nat c * 10 powi e) = Finite a" by auto
qed

lemma digit_value_48 [simp]: "digit_value 48 = Some 0"
  by (simp add: digit_value_ascii is_ascii_digit_def)

lemma digits_nat_leading_zeros [simp]: "digits_nat (replicate k 48 @ ds) = digits_nat ds"
  by (induction k) (simp_all add: digits_nat_def)

lemma digits_nat_trailing_zeros [simp]: "digits_nat (ds @ replicate k 48) = digits_nat ds * 10 ^ k"
proof (induction k)
  case (Suc k)
  have "ds @ replicate (Suc k) 48 = (ds @ replicate k 48) @ [48]"
    by (simp add: replicate_append_same)
  then show ?case using Suc by (simp only: digits_nat_snoc) simp
qed simp

lemma digits_split:
  "list_all is_ascii_digit xs \<Longrightarrow> takeWhile is_ascii_digit (xs @ 46 # ys) = xs"
  "list_all is_ascii_digit xs \<Longrightarrow> dropWhile is_ascii_digit (xs @ 46 # ys) = 46 # ys"
  "list_all is_ascii_digit xs \<Longrightarrow> takeWhile is_ascii_digit xs = xs"
  "list_all is_ascii_digit xs \<Longrightarrow> dropWhile is_ascii_digit xs = []"
  by (simp_all add: list_all_iff takeWhile_append2 dropWhile_append2 takeWhile_eq_all_conv
      dropWhile_eq_Nil_conv is_ascii_digit_def)

lemma decimal_mantissa_point:
  "list_all is_ascii_digit ip \<Longrightarrow> list_all is_ascii_digit fp \<Longrightarrow> ip \<noteq> [] \<Longrightarrow>
   decimal_mantissa (ip @ 46 # fp) = Some (digits_nat (ip @ fp), length fp, [])"
  by (simp add: decimal_mantissa_def digits_split)

lemma decimal_mantissa_whole:
  "list_all is_ascii_digit ip \<Longrightarrow> ip \<noteq> [] \<Longrightarrow> decimal_mantissa ip = Some (digits_nat ip, 0, [])"
  by (simp add: decimal_mantissa_def digits_split)

lemma split_sign_digit: "s \<noteq> [] \<Longrightarrow> is_ascii_digit (hd s) \<Longrightarrow> split_sign s = (False, s)"
  by (cases s) (auto simp: split_sign_def is_ascii_digit_def)

lemma decimal_value_mantissa:
  "s \<noteq> [] \<Longrightarrow> is_ascii_digit (hd s) \<Longrightarrow> decimal_mantissa s = Some (m, k, []) \<Longrightarrow>
   decimal_value s = Some (of_nat m * 10 powi (- int k))"
  by (simp add: decimal_value_def split_sign_digit decimal_exponent_def)

lemma strip_zeros_split: "\<exists>k. ds = strip_zeros ds @ replicate k 48"
proof -
  let ?z = "takeWhile (\<lambda>c. c = 48) (rev ds)"
  have "rev ds = ?z @ dropWhile (\<lambda>c. c = 48) (rev ds)" by simp
  moreover have "?z = replicate (length ?z) 48" by (intro replicate_eqI) (auto dest: set_takeWhileD)
  ultimately have "rev ds = replicate (length ?z) 48 @ dropWhile (\<lambda>c. c = 48) (rev ds)" by metis
  then have "rev (rev ds) = rev (replicate (length ?z) 48 @ dropWhile (\<lambda>c. c = 48) (rev ds))" by simp
  then have "ds = strip_zeros ds @ replicate (length ?z) 48" by (simp add: strip_zeros_def)
  then show ?thesis ..
qed

lemma round_half_even_minus: "round_half_even (- x) = - round_half_even x"
proof (cases "x = of_int \<lfloor>x\<rfloor>")
  case True
  then show ?thesis using round_half_even_int [of "\<lfloor>x\<rfloor>"] round_half_even_int [of "- \<lfloor>x\<rfloor>"] by simp
next
  case False
  then have "of_int \<lfloor>x\<rfloor> < x" using of_int_floor_le [of x] by linarith
  then have "\<lfloor>- x\<rfloor> = - \<lfloor>x\<rfloor> - 1" by linarith
  then show ?thesis by (auto simp: round_half_even_def Let_def)
qed

lemma round_double_minus: "round_double x = Finite y \<Longrightarrow> round_double (- x) = Finite (- y)"
  by (auto simp: round_double_def quantum_exp_def Let_def round_half_even_minus split: if_splits)

lemma shortest_digits:
  assumes "0 < c"
  shows "list_all is_ascii_digit (strip_zeros (nat_str c))" and "strip_zeros (nat_str c) \<noteq> []"
proof -
  obtain k where k: "nat_str c = strip_zeros (nat_str c) @ replicate k 48" using strip_zeros_split by blast
  then show "list_all is_ascii_digit (strip_zeros (nat_str c))"
    using nat_str_digits [of c] by (metis list_all_append)
  have "c = digits_nat (strip_zeros (nat_str c) @ replicate k 48)"
    using k by (metis digits_nat_nat_str)
  then have "c = digits_nat (strip_zeros (nat_str c)) * 10 ^ k" by simp
  then show "strip_zeros (nat_str c) \<noteq> []" using assms by (auto simp: digits_nat_def)
qed

end
