(* ===== verification/Py_Value.thy ===== *)
theory Py_Value
  imports Py_Float
begin

text \<open>
  The Python values the SDK inspects with \<open>isinstance\<close>: context traits, JSON documents, default
  values. The scalars (\<open>str\<close>, \<open>int\<close>, \<open>float\<close>, \<open>bool\<close>) are a type of their own,
  because the sources test for exactly these four together. \<open>to_json_string\<close> renders one.
\<close>

datatype scalar = SStr pystr | SInt int | SFloat pyfloat | SBool bool

text \<open>
  \<open>PObj t s\<close> is an object of any other class: the name of its class, and what \<open>str()\<close>
  of it returns, if it does not raise.
\<close>

datatype pyval =
    PNone
  | PScalar scalar
  | PList "pyval list"
  | PTuple "pyval list"
  | PDict "(pyval \<times> pyval) list"
  | PObj pystr "pystr option"

abbreviation PStr :: "pystr \<Rightarrow> pyval" where "PStr s \<equiv> PScalar (SStr s)"
abbreviation PInt :: "int \<Rightarrow> pyval" where "PInt i \<equiv> PScalar (SInt i)"
abbreviation PFloat :: "pyfloat \<Rightarrow> pyval" where "PFloat f \<equiv> PScalar (SFloat f)"
abbreviation PBool :: "bool \<Rightarrow> pyval" where "PBool b \<equiv> PScalar (SBool b)"

definition bool_text :: "bool \<Rightarrow> pystr" where
  "bool_text b = (if b then py ''true'' else py ''false'')"

text \<open>
  \<open>to_json_string\<close> on a scalar. A whole float below \<open>10 ^ 21\<close> is written as an integer.
\<close>

definition float_json_string :: "pyfloat \<Rightarrow> pystr result" where
  "float_json_string f =
     (case f of
        NaN \<Rightarrow> Inr (py ''NaN'')
      | Infinite positive \<Rightarrow> Inr (if positive then py ''Infinity'' else py ''-Infinity'')
      | Finite x \<Rightarrow>
          if rat_is_integer x \<and> \<bar>x\<bar> < 10 ^ 21 then str_of_int \<lfloor>x\<rfloor> else Inr (float_repr f))"

definition to_json_string :: "scalar \<Rightarrow> pystr result" where
  "to_json_string v =
     (case v of
        SBool b \<Rightarrow> Inr (bool_text b)
      | SFloat f \<Rightarrow> float_json_string f
      | SInt i \<Rightarrow> str_of_int i
      | SStr s \<Rightarrow> Inr s)"

lemma to_json_string_simps [simp]:
  "to_json_string (SBool b) = Inr (bool_text b)"
  "to_json_string (SInt i) = str_of_int i"
  "to_json_string (SStr s) = Inr s"
  "to_json_string (SFloat f) = float_json_string f"
  by (simp_all add: to_json_string_def)

section \<open>Attribute-free access to JSON-like values\<close>

text \<open>\<open>d.get(k)\<close> for a string key, as an option.\<close>

definition pdict_get :: "(pyval \<times> pyval) list \<Rightarrow> pystr \<Rightarrow> pyval option" where
  "pdict_get d k = map_of d (PStr k)"

text \<open>\<open>bool(v)\<close>\<close>

fun truthy :: "pyval \<Rightarrow> bool" where
  "truthy PNone = False"
| "truthy (PStr s) = (s \<noteq> [])"
| "truthy (PInt i) = (i \<noteq> 0)"
| "truthy (PFloat f) = (f \<noteq> Finite 0)"
| "truthy (PBool b) = b"
| "truthy (PList vs) = (vs \<noteq> [])"
| "truthy (PTuple vs) = (vs \<noteq> [])"
| "truthy (PDict d) = (d \<noteq> [])"
| "truthy (PObj _ _) = True"

text \<open>\<open>type(v).__name__\<close>\<close>

fun type_name :: "pyval \<Rightarrow> pystr" where
  "type_name PNone = py ''NoneType''"
| "type_name (PStr _) = py ''str''"
| "type_name (PInt _) = py ''int''"
| "type_name (PFloat _) = py ''float''"
| "type_name (PBool _) = py ''bool''"
| "type_name (PList _) = py ''list''"
| "type_name (PTuple _) = py ''tuple''"
| "type_name (PDict _) = py ''dict''"
| "type_name (PObj t _) = t"

end
