(* ===== verification/Config_Types.thy ===== *)
theory Config_Types
  imports Py_Value
begin

text \<open>
  The data of the SDK: the public types of \<open>types.py\<close>, the evaluation types of
  \<open>_evaluation/types.py\<close>, and the validation helpers of \<open>_context_kind.py\<close> and
  \<open>_validation.py\<close>. A field that Python declares with a literal type but fills from JSON
  without a check (the type of a config) keeps the value it was given.
\<close>

section \<open>Public types\<close>

text \<open>
  A context as the application supplies it may carry any object as its kind; once its kind has
  been checked the kind is a string. The type parameter is the type of the kind.
\<close>

record 'k ctx =
  ctx_id :: "pystr option"
  ctx_name :: "pystr option"
  ctx_traits :: pyval
  ctx_anonymous :: bool
  ctx_kind :: "'k option"

type_synonym supplied_context = "pyval ctx"
type_synonym checked_context = "pystr ctx"

definition empty_context :: "'k ctx" where
  "empty_context = \<lparr>ctx_id = None, ctx_name = None, ctx_traits = PNone, ctx_anonymous = False,
     ctx_kind = None\<rparr>"

record metadata =
  app_name :: "pystr option"
  app_version :: "pystr option"

definition empty_metadata :: metadata where
  "empty_metadata = \<lparr>app_name = None, app_version = None\<rparr>"

record config_state =
  st_id :: pystr
  st_key :: pystr
  st_type :: pyval
  st_value :: "pystr option"
  st_value_id :: "pystr option"

datatype evaluation_reason =
    FoundMatch | ConfigStateMissing | ClientNotReady | TypeMismatch
  | ValueMissing | InvalidNumber | InvalidJson | InvalidBoolean

record config_evaluation =
  ev_key :: pystr
  ev_value :: pyval
  ev_is_default :: bool
  ev_reason :: evaluation_reason
  ev_value_id :: "pystr option"
  ev_context :: "checked_context option"

section \<open>Targeting rules\<close>

record attribute_condition =
  ac_id :: pystr
  ac_attribute :: pystr
  ac_operator :: pystr
  ac_target_type :: pystr
  ac_target_values :: "pystr list"
  ac_trait :: "pystr option"

record segment_condition =
  sc_id :: pystr
  sc_operator :: pystr
  sc_segment_id :: pystr

datatype condition = AttributeCondition attribute_condition | SegmentCondition segment_condition

record segment =
  seg_groups :: "attribute_condition list list"

type_synonym segments = "(pystr, segment) dict"

record percentage =
  pct_id :: pystr
  pct_percentage :: pyfloat
  pct_value :: "scalar option"
  pct_value_id :: "pystr option"

record conditional_rule =
  cr_id :: pystr
  cr_order :: "int option"
  cr_value :: "scalar option"
  cr_conditions :: "condition list"
  cr_percentages :: "percentage list"
  cr_target :: pystr
  cr_type :: pystr
  cr_value_id :: "pystr option"

record percentage_rule =
  pr_id :: pystr
  pr_order :: "int option"
  pr_percentages :: "percentage list"
  pr_target :: pystr
  pr_type :: pystr

datatype rule = ConditionalRule conditional_rule | PercentageRule percentage_rule

record targeting_rules =
  tr_default_value :: pystr
  tr_rules :: "rule list"
  tr_default_value_id :: "pystr option"

record variation =
  var_value :: scalar
  var_name :: "pystr option"

datatype type_constraints =
    NumericTypeConstraints pyval pyval
  | EnumTypeConstraints bool "pystr list" \<comment> \<open>whether the values are numbers\<close>

record config =
  cfg_id :: pystr
  cfg_key :: pystr
  cfg_type :: pyval
  cfg_target :: targeting_rules
  cfg_variations :: "variation list"
  cfg_type_constraints :: "type_constraints option"

record evaluation_context =
  ec_context :: "checked_context option"
  ec_metadata :: "metadata option"

section \<open>Context kinds\<close>

definition default_kind :: pystr where
  "default_kind = py ''user''"

definition effective_kind :: "checked_context option \<Rightarrow> pystr" where
  "effective_kind context =
     (case context of
        None \<Rightarrow> default_kind
      | Some c \<Rightarrow> (case ctx_kind c of None \<Rightarrow> default_kind | Some k \<Rightarrow> k))"

definition is_kind_character :: "nat \<Rightarrow> bool" where
  "is_kind_character c \<longleftrightarrow> (97 \<le> c \<and> c \<le> 122) \<or> is_ascii_digit c \<or> c = 45 \<or> c = 95"

definition is_valid_kind :: "pyval \<Rightarrow> bool" where
  "is_valid_kind kind =
     (case kind of
        PStr s \<Rightarrow> 0 < length s \<and> length s \<le> 64 \<and> list_all is_kind_character s
      | _ \<Rightarrow> False)"

text \<open>
  \<open>str(kind)\<close> for a value that is no \<open>str\<close>: the argument \<open>native_str\<close> is Python's
  \<open>str()\<close>, which may raise; then the name of the type stands in.
\<close>

definition kind_sample :: "(pyval \<Rightarrow> pystr result) \<Rightarrow> pyval \<Rightarrow> pystr" where
  "kind_sample native_str kind =
     take 128 (case kind of
        PStr s \<Rightarrow> s
      | _ \<Rightarrow> (case native_str kind of Inr t \<Rightarrow> t | Inl _ \<Rightarrow> type_name kind))"

section \<open>Validation\<close>

definition has_content :: "pyval \<Rightarrow> bool" where
  "has_content v = (case v of PStr s \<Rightarrow> str_strip s \<noteq> [] | _ \<Rightarrow> False)"

definition validate_config_key :: "pyval \<Rightarrow> unit result" where
  "validate_config_key key = (if has_content key then Inr () else Inl ConfigDirectorValidationError)"

definition validated_server_sdk_key :: "pyval \<Rightarrow> pystr result" where
  "validated_server_sdk_key key =
     (case key of
        PStr s \<Rightarrow> if has_content key then Inr s else Inl ConfigDirectorValidationError
      | _ \<Rightarrow> Inl ConfigDirectorValidationError)"

lemma is_valid_kind_str: "is_valid_kind k \<Longrightarrow> \<exists>s. k = PStr s"
  by (auto simp: is_valid_kind_def split: pyval.splits scalar.splits)

lemma has_content_str: "has_content k \<Longrightarrow> \<exists>s. k = PStr s \<and> \<not> list_all is_space s"
  by (auto simp: has_content_def str_strip_empty_iff split: pyval.splits scalar.splits)

lemma validate_config_key_Inr: "validate_config_key k = Inr u \<longleftrightarrow> has_content k"
  by (simp add: validate_config_key_def)

lemma length_kind_sample: "length (kind_sample f k) \<le> 128"
  by (simp add: kind_sample_def)

end
