(* ===== verification/Py_Json.thy ===== *)
theory Py_Json
  imports Py_Value
begin

text \<open>
  Python's \<open>json\<close> module as the SDK uses it: \<open>json.dumps\<close> with the options the sources
  pass and \<open>json.loads\<close> with its defaults. A document is a \<^typ>\<open>pyval\<close>. The limits on the
  depth of recursion are not modelled.
\<close>

section \<open>json.dumps\<close>

definition hex_digit :: "nat \<Rightarrow> nat" where
  "hex_digit n = (if n < 10 then 48 + n else 87 + n)"

definition hex4 :: "nat \<Rightarrow> pystr" where
  "hex4 n = map hex_digit [n div 4096 mod 16, n div 256 mod 16, n div 16 mod 16, n mod 16]"

definition unicode_escape :: "nat \<Rightarrow> pystr" where
  "unicode_escape c =
     (if c < 65536 then 92 # 117 # hex4 c
      else 92 # 117 # hex4 (55296 + (c - 65536) div 1024)
         @ 92 # 117 # hex4 (56320 + (c - 65536) mod 1024))"

definition json_escape_char :: "bool \<Rightarrow> nat \<Rightarrow> pystr" where
  "json_escape_char ascii c =
     (if c = 34 then [92, 34] else if c = 92 then [92, 92]
      else if c = 10 then [92, 110] else if c = 13 then [92, 114] else if c = 9 then [92, 116]
      else if c = 8 then [92, 98] else if c = 12 then [92, 102]
      else if c < 32 \<or> (ascii \<and> 126 < c) then unicode_escape c
      else [c])"

definition json_string :: "bool \<Rightarrow> pystr \<Rightarrow> pystr" where
  "json_string ascii s = 34 # concat (map (json_escape_char ascii) s) @ [34]"

text \<open>The options: \<open>ensure_ascii\<close>, \<open>allow_nan\<close> and the two separators.\<close>

record json_style =
  ensure_ascii :: bool
  allow_nan :: bool
  item_separator :: pystr
  key_separator :: pystr

definition json_float :: "json_style \<Rightarrow> pyfloat \<Rightarrow> pystr result" where
  "json_float st f =
     (case f of
        Finite _ \<Rightarrow> Inr (float_repr f)
      | _ \<Rightarrow> if \<not> allow_nan st then Inl ValueError
             else Inr (case f of NaN \<Rightarrow> py ''NaN''
                       | Infinite positive \<Rightarrow> if positive then py ''Infinity'' else py ''-Infinity''
                       | Finite _ \<Rightarrow> []))"

definition json_scalar :: "json_style \<Rightarrow> scalar \<Rightarrow> pystr result" where
  "json_scalar st v =
     (case v of
        SStr s \<Rightarrow> Inr (json_string (ensure_ascii st) s)
      | SInt i \<Rightarrow> str_of_int i
      | SFloat f \<Rightarrow> json_float st f
      | SBool b \<Rightarrow> Inr (bool_text b))"

text \<open>The text of a key: a number, a boolean or \<open>None\<close> becomes a string, other objects raise.\<close>

definition json_key :: "json_style \<Rightarrow> pyval \<Rightarrow> pystr result" where
  "json_key st k =
     (case k of
        PStr s \<Rightarrow> Inr s
      | PNone \<Rightarrow> Inr (py ''null'')
      | PScalar v \<Rightarrow> json_scalar st v
      | _ \<Rightarrow> Inl TypeError)"

fun json_dumps :: "json_style \<Rightarrow> pyval \<Rightarrow> pystr result" where
  "json_dumps st PNone = Inr (py ''null'')"
| "json_dumps st (PScalar v) = json_scalar st v"
| "json_dumps st (PList vs) =
     bindE (mapE (json_dumps st) vs) (\<lambda>ts. Inr (91 # str_join (item_separator st) ts @ [93]))"
| "json_dumps st (PTuple vs) =
     bindE (mapE (json_dumps st) vs) (\<lambda>ts. Inr (91 # str_join (item_separator st) ts @ [93]))"
| "json_dumps st (PDict d) =
     bindE (mapE (\<lambda>(k, v).
              bindE (json_key st k) (\<lambda>kt.
              bindE (json_dumps st v) (\<lambda>t.
                Inr (json_string (ensure_ascii st) kt @ key_separator st @ t)))) d)
       (\<lambda>ts. Inr (123 # str_join (item_separator st) ts @ [125]))"
| "json_dumps st (PObj t s) = Inl TypeError"

text \<open>The styles the sources use.\<close>

definition default_style :: json_style where
  "default_style = \<lparr>ensure_ascii = True, allow_nan = True,
     item_separator = py '', '', key_separator = py '': ''\<rparr>"

definition compact_style :: json_style where
  "compact_style = \<lparr>ensure_ascii = True, allow_nan = True,
     item_separator = py '','', key_separator = py '':''\<rparr>"

definition value_style :: json_style where
  "value_style = \<lparr>ensure_ascii = False, allow_nan = False,
     item_separator = py '','', key_separator = py '':''\<rparr>"

section \<open>json.loads\<close>

definition is_json_space :: "nat \<Rightarrow> bool" where
  "is_json_space c \<longleftrightarrow> c = 32 \<or> c = 9 \<or> c = 10 \<or> c = 13"

definition skip_space :: "pystr \<Rightarrow> pystr" where
  "skip_space s = dropWhile is_json_space s"

definition hex_value :: "nat \<Rightarrow> nat option" where
  "hex_value c =
     (if 48 \<le> c \<and> c \<le> 57 then Some (c - 48)
      else if 97 \<le> c \<and> c \<le> 102 then Some (c - 87)
      else if 65 \<le> c \<and> c \<le> 70 then Some (c - 55) else None)"

fun hex4_value :: "pystr \<Rightarrow> nat option" where
  "hex4_value [a, b, c, d] =
     (case (hex_value a, hex_value b, hex_value c, hex_value d) of
        (Some w, Some x, Some y, Some z) \<Rightarrow> Some (((w * 16 + x) * 16 + y) * 16 + z)
      | _ \<Rightarrow> None)"
| "hex4_value _ = None"

definition simple_escape :: "nat \<Rightarrow> nat option" where
  "simple_escape e =
     (if e = 34 \<or> e = 92 \<or> e = 47 then Some e else if e = 98 then Some 8 else if e = 102 then Some 12
      else if e = 110 then Some 10 else if e = 114 then Some 13 else if e = 116 then Some 9 else None)"

text \<open>
  After \<open>\u\<close>: the code point, and how many characters it takes. A high surrogate joins with a low
  surrogate that is escaped right after it.
\<close>

definition unicode_unescape :: "pystr \<Rightarrow> (nat \<times> nat) option" where
  "unicode_unescape t =
     (case hex4_value (take 4 t) of
        None \<Rightarrow> None
      | Some u \<Rightarrow>
          if 55296 \<le> u \<and> u \<le> 56319 \<and> take 2 (drop 4 t) = [92, 117] then
            (case hex4_value (take 4 (drop 6 t)) of
               None \<Rightarrow> None
             | Some w \<Rightarrow>
                 if 56320 \<le> w \<and> w \<le> 57343 then Some (65536 + (u - 55296) * 1024 + (w - 56320), 10)
                 else Some (u, 4))
          else Some (u, 4))"

text \<open>A string after its opening quote: its characters and the rest after the closing quote.\<close>

function scan_string :: "pystr \<Rightarrow> (pystr \<times> pystr) result" where
  "scan_string [] = Inl JSONDecodeError"
| "scan_string (c # s) =
     (if c = 34 then Inr ([], s)
      else if c < 32 then Inl JSONDecodeError
      else if c \<noteq> 92 then bindE (scan_string s) (\<lambda>(t, r). Inr (c # t, r))
      else
        case s of
          [] \<Rightarrow> Inl JSONDecodeError
        | e # s' \<Rightarrow>
            if e = 117 then
              (case unicode_unescape s' of
                 None \<Rightarrow> Inl JSONDecodeError
               | Some (u, n) \<Rightarrow> bindE (scan_string (drop n s')) (\<lambda>(t, r). Inr (u # t, r)))
            else
              (case simple_escape e of
                 None \<Rightarrow> Inl JSONDecodeError
               | Some u \<Rightarrow> bindE (scan_string s') (\<lambda>(t, r). Inr (u # t, r))))"
  by pat_completeness auto
termination
  by (relation "measure length") auto

text \<open>
  A number: \<open>-?(0|[1-9]\d*)(\.\d+)?([eE][-+]?\d+)?\<close>. Without fraction and exponent it is an
  \<open>int\<close>, which may be too long to convert.
\<close>

definition scan_integer_part :: "pystr \<Rightarrow> (pystr \<times> pystr) option" where
  "scan_integer_part s =
     (case s of
        [] \<Rightarrow> None
      | c # t \<Rightarrow>
          if c = 48 then Some ([c], t)
          else if is_ascii_digit c then Some (takeWhile is_ascii_digit s, dropWhile is_ascii_digit s)
          else None)"

definition scan_fraction :: "pystr \<Rightarrow> pystr \<times> pystr" where
  "scan_fraction s =
     (case s of
        [] \<Rightarrow> ([], s)
      | c # t \<Rightarrow>
          if c = 46 \<and> takeWhile is_ascii_digit t \<noteq> []
          then (c # takeWhile is_ascii_digit t, dropWhile is_ascii_digit t) else ([], s))"

definition scan_exponent :: "pystr \<Rightarrow> pystr \<times> pystr" where
  "scan_exponent s =
     (case s of
        [] \<Rightarrow> ([], s)
      | c # t \<Rightarrow>
          if c = 101 \<or> c = 69 then
            (let sign = (case t of d # _ \<Rightarrow> if d = 43 \<or> d = 45 then [d] else [] | [] \<Rightarrow> []);
                 u = drop (length sign) t
             in if takeWhile is_ascii_digit u \<noteq> []
                then (c # sign @ takeWhile is_ascii_digit u, dropWhile is_ascii_digit u) else ([], s))
          else ([], s))"

definition scan_number :: "pystr \<Rightarrow> (pyval \<times> pystr) result" where
  "scan_number s =
     (let sign = (case s of c # _ \<Rightarrow> if c = 45 then [c] else [] | [] \<Rightarrow> [])
      in case scan_integer_part (drop (length sign) s) of
           None \<Rightarrow> Inl JSONDecodeError
         | Some (ip, s1) \<Rightarrow>
             (case scan_fraction s1 of (fp, s2) \<Rightarrow>
             (case scan_exponent s2 of (ep, s3) \<Rightarrow>
                if fp = [] \<and> ep = []
                then bindE (int_of_str (sign @ ip)) (\<lambda>i. Inr (PInt i, s3))
                else bindE (float_of_str (sign @ ip @ fp @ ep)) (\<lambda>f. Inr (PFloat f, s3)))))"

text \<open>The constants, with \<open>NaN\<close> and the infinities, which Python's decoder accepts.\<close>

definition json_constants :: "(pystr \<times> pyval) list" where
  "json_constants =
     [(py ''null'', PNone), (py ''true'', PBool True), (py ''false'', PBool False),
      (py ''NaN'', PFloat NaN), (py ''Infinity'', PFloat (Infinite True)),
      (py ''-Infinity'', PFloat (Infinite False))]"

definition scan_atom :: "pystr \<Rightarrow> (pyval \<times> pystr) result" where
  "scan_atom s =
     (case List.find (\<lambda>(t, v). str_startswith s t) json_constants of
        Some (t, v) \<Rightarrow> Inr (v, drop (length t) s)
      | None \<Rightarrow> scan_number s)"

text \<open>
  Values, the items of an array after its first bracket and the members of an object after its
  first brace. The fuel bounds the recursion; \<open>None\<close> means that it ran out, which
  \<open>json_value_fuel\<close> below excludes for the fuel that \<open>json_loads\<close> gives.
\<close>

fun json_value :: "nat \<Rightarrow> pystr \<Rightarrow> (pyval \<times> pystr) result option"
  and json_items :: "nat \<Rightarrow> pystr \<Rightarrow> (pyval list \<times> pystr) result option"
  and json_members :: "nat \<Rightarrow> pystr \<Rightarrow> ((pyval \<times> pyval) list \<times> pystr) result option" where
  "json_value 0 s = None"
| "json_value (Suc n) s =
     (case s of
        [] \<Rightarrow> Some (Inl JSONDecodeError)
      | c # t \<Rightarrow>
          if c = 34 then Some (bindE (scan_string t) (\<lambda>(u, r). Inr (PStr u, r)))
          else if c = 91 then
            (case skip_space t of
               d # r \<Rightarrow>
                 if d = 93 then Some (Inr (PList [], r))
                 else map_option (\<lambda>q. bindE q (\<lambda>(vs, r). Inr (PList vs, r))) (json_items n (d # r))
             | [] \<Rightarrow> Some (Inl JSONDecodeError))
          else if c = 123 then
            (case skip_space t of
               d # r \<Rightarrow>
                 if d = 125 then Some (Inr (PDict [], r))
                 else map_option (\<lambda>q. bindE q (\<lambda>(ms, r). Inr (PDict (dict_update [] ms), r)))
                        (json_members n (d # r))
             | [] \<Rightarrow> Some (Inl JSONDecodeError))
          else Some (scan_atom s))"
| "json_items 0 s = None"
| "json_items (Suc n) s =
     (case json_value n s of
        None \<Rightarrow> None
      | Some (Inl e) \<Rightarrow> Some (Inl e)
      | Some (Inr (v, r)) \<Rightarrow>
          (case skip_space r of
             [] \<Rightarrow> Some (Inl JSONDecodeError)
           | c # t \<Rightarrow>
               if c = 93 then Some (Inr ([v], t))
               else if c = 44 then
                 map_option (\<lambda>q. bindE q (\<lambda>(vs, r). Inr (v # vs, r))) (json_items n (skip_space t))
               else Some (Inl JSONDecodeError)))"
| "json_members 0 s = None"
| "json_members (Suc n) s =
     (case s of
        [] \<Rightarrow> Some (Inl JSONDecodeError)
      | q # t \<Rightarrow>
          if q \<noteq> 34 then Some (Inl JSONDecodeError)
          else
            case scan_string t of
              Inl e \<Rightarrow> Some (Inl e)
            | Inr (k, r) \<Rightarrow>
                (case skip_space r of
                   [] \<Rightarrow> Some (Inl JSONDecodeError)
                 | c # u \<Rightarrow>
                     if c \<noteq> 58 then Some (Inl JSONDecodeError)
                     else
                       case json_value n (skip_space u) of
                         None \<Rightarrow> None
                       | Some (Inl e) \<Rightarrow> Some (Inl e)
                       | Some (Inr (v, r')) \<Rightarrow>
                           (case skip_space r' of
                              [] \<Rightarrow> Some (Inl JSONDecodeError)
                            | d # w \<Rightarrow>
                                if d = 125 then Some (Inr ([(PStr k, v)], w))
                                else if d = 44 then
                                  map_option (\<lambda>q. bindE q (\<lambda>(ms, r). Inr ((PStr k, v) # ms, r)))
                                    (json_members n (skip_space w))
                                else Some (Inl JSONDecodeError))))"

text \<open>A document that starts with a byte order mark, or is followed by anything but space, is refused.\<close>

definition json_loads :: "pystr \<Rightarrow> pyval result" where
  "json_loads s =
     (if take 1 s = [65279] then Inl JSONDecodeError
      else
        case json_value (2 * length s + 2) (skip_space s) of
          None \<Rightarrow> Inl JSONDecodeError
        | Some (Inl e) \<Rightarrow> Inl e
        | Some (Inr (v, r)) \<Rightarrow> if skip_space r = [] then Inr v else Inl JSONDecodeError)"

section \<open>Documents that are printed and read back\<close>

text \<open>Documents without floats, tuples and other objects, whose keys are distinct strings.\<close>

fun json_plain :: "pyval \<Rightarrow> bool" where
  "json_plain PNone = True"
| "json_plain (PStr s) = True"
| "json_plain (PInt i) = (length (nat_str (nat \<bar>i\<bar>)) \<le> int_max_str_digits)"
| "json_plain (PFloat f) = False"
| "json_plain (PBool b) = True"
| "json_plain (PList vs) = list_all json_plain vs"
| "json_plain (PTuple vs) = False"
| "json_plain (PDict d) = (dict_ok d \<and> list_all (\<lambda>(k, v). (\<exists>s. k = PStr s) \<and> json_plain v) d)"
| "json_plain (PObj t s) = False"

text \<open>What may follow a value: the end, a separator or a closing bracket.\<close>

definition ends_value :: "pystr \<Rightarrow> bool" where
  "ends_value r \<longleftrightarrow> r = [] \<or> hd r \<in> {44, 93, 125}"

definition reads_back :: "pyval \<Rightarrow> bool" where
  "reads_back v \<longleftrightarrow> (\<forall>t r. json_dumps value_style v = Inr t \<longrightarrow> ends_value r \<longrightarrow>
     (\<exists>n. json_value n (t @ r) = Some (Inr (v, r))))"

section \<open>Reading consumes its input, and the fuel suffices\<close>

lemma length_skip_space: "length (skip_space s) \<le> length s"
  by (simp add: skip_space_def length_dropWhile_le)

lemma scan_string_shorter: "scan_string s = Inr (t, r) \<Longrightarrow> length r < length s"
proof (induction s arbitrary: t rule: scan_string.induct)
  case (2 c s)
  then show ?case
    by (fastforce simp: bindE_Inr_iff split: if_splits list.splits option.splits prod.splits)
qed simp

lemma scan_integer_part_shorter: "scan_integer_part s = Some (t, r) \<Longrightarrow> length r < length s"
  by (auto simp: scan_integer_part_def length_dropWhile_le le_imp_less_Suc split: list.splits if_splits)

lemma scan_fraction_shorter: "scan_fraction s = (t, r) \<Longrightarrow> length r \<le> length s"
  by (auto simp: scan_fraction_def length_dropWhile_le le_SucI split: list.splits if_splits)

lemma scan_exponent_shorter: "scan_exponent s = (t, r) \<Longrightarrow> length r \<le> length s"
  by (auto simp: scan_exponent_def Let_def length_dropWhile_le le_SucI split: list.splits if_splits)

lemma scan_number_shorter: "scan_number s = Inr (v, r) \<Longrightarrow> length r < length s"
proof -
  assume "scan_number s = Inr (v, r)"
  then obtain sg ip s1 fp s2 ep where
    "scan_integer_part (drop sg s) = Some (ip, s1)" "scan_fraction s1 = (fp, s2)"
    "scan_exponent s2 = (ep, r)"
    by (fastforce simp: scan_number_def Let_def bindE_Inr_iff split: option.splits prod.splits if_splits)
  then show ?thesis
    using scan_integer_part_shorter scan_fraction_shorter scan_exponent_shorter by fastforce
qed

lemma json_constants_nonempty: "(t, v) \<in> set json_constants \<Longrightarrow> t \<noteq> []"
  by (auto simp: json_constants_def)

lemma scan_atom_shorter: "scan_atom s = Inr (v, r) \<Longrightarrow> length r < length s"
proof (cases "List.find (\<lambda>(t, v). str_startswith s t) json_constants")
  case None
  then show "scan_atom s = Inr (v, r) \<Longrightarrow> length r < length s"
    using scan_number_shorter by (simp add: scan_atom_def)
next
  case (Some tv)
  then obtain t w where tv: "tv = (t, w)" "(t, w) \<in> set json_constants" "prefix t s"
    using find_Some_iff [of "\<lambda>(t, v). str_startswith s t" json_constants tv] nth_mem
    by (cases tv) (fastforce simp: str_startswith_def)
  then have "0 < length t" "length t \<le> length s"
    using json_constants_nonempty [of t w] prefix_length_le [of t s] by auto
  then have "length (drop (length t) s) < length s" unfolding length_drop by linarith
  then show "scan_atom s = Inr (v, r) \<Longrightarrow> length r < length s"
    using Some tv(1) by (auto simp: scan_atom_def simp del: length_drop)
qed

lemma skip_space_ConsD: "skip_space s = c # t \<Longrightarrow> length t < length s"
  using length_skip_space [of s] by simp

lemma json_shorter:
  "json_value n s = Some (Inr (v, r)) \<Longrightarrow> length r < length s"
  "json_items n s = Some (Inr (vs, r)) \<Longrightarrow> length r < length s"
  "json_members n s = Some (Inr (ms, r)) \<Longrightarrow> length r < length s"
proof (induction n s and n s and n s arbitrary: v r and vs r and ms r
    rule: json_value_json_items_json_members.induct)
  case (2 n s)
  show ?case
  proof (cases s)
    case Nil
    then show ?thesis using 2 by simp
  next
    case (Cons c t)
    then consider "c = 34" | "c = 91" | "c = 123" | "c \<notin> {34, 91, 123}" by auto
    then show ?thesis
    proof cases
      case 1
      then show ?thesis using 2 Cons scan_string_shorter by (fastforce simp: bindE_Inr_iff)
    next
      case c: 2
      then show ?thesis using 2(1) [OF Cons] 2(3) Cons skip_space_ConsD
        by (fastforce simp: bindE_Inr_iff split: list.splits if_splits)
    next
      case 3
      then show ?thesis using 2(2) [OF Cons] 2(3) Cons skip_space_ConsD
        by (fastforce simp: bindE_Inr_iff split: list.splits if_splits)
    next
      case 4
      then show ?thesis using 2(3) Cons scan_atom_shorter [of s v r] by simp
    qed
  qed
next
  case (4 n s)
  then obtain v q c t where v: "json_value n s = Some (Inr (v, q))" and q: "skip_space q = c # t"
    and c: "c = 93 \<or> c = 44"
    by (fastforce split: option.splits sum.splits prod.splits list.splits if_splits)
  have "length t < length q" using q by (rule skip_space_ConsD)
  moreover have "length q < length s" using 4(1) v by simp
  ultimately have t: "length t < length s" by simp
  show ?case
  proof (cases "c = 93")
    case True
    then show ?thesis using 4(3) v q t by auto
  next
    case False
    then obtain vs' where "json_items n (skip_space t) = Some (Inr (vs', r))"
      using 4(3) v q c by (auto simp: bindE_Inr_iff)
    then have "length r < length (skip_space t)"
      using 4(2) [OF v _ _ q] False c by auto
    then show ?thesis using t length_skip_space [of t] by simp
  qed
next
  case (6 n s)
  then obtain t k q c u v q' d w where s: "s = 34 # t" and k: "scan_string t = Inr (k, q)"
    and q: "skip_space q = c # u" "c = 58"
    and v: "json_value n (skip_space u) = Some (Inr (v, q'))" and q': "skip_space q' = d # w"
    and d: "d = 125 \<or> d = 44"
    by (fastforce split: option.splits sum.splits prod.splits list.splits if_splits)
  have "length q' < length (skip_space u)"
    using 6(1) [OF s _ k _ q(1)] v q(2) by simp
  then have w: "length w < length s"
    using skip_space_ConsD [OF q(1)] skip_space_ConsD [OF q']
      scan_string_shorter [OF k] length_skip_space [of u] s by auto
  show ?case
  proof (cases "d = 125")
    case True
    then show ?thesis using 6(3) s k q v q' w by auto
  next
    case False
    then obtain ms' where "json_members n (skip_space w) = Some (Inr (ms', r))"
      using 6(3) s k q v q' d by (auto simp: bindE_Inr_iff)
    then have "length r < length (skip_space w)"
      using 6(2) [OF s _ k _ q(1) _ v _ _ q'] False d q(2) by auto
    then show ?thesis using w length_skip_space [of w] by simp
  qed
qed simp_all

lemma json_value_fuel:
  "2 * length s < n \<Longrightarrow> json_value n s \<noteq> None"
  "2 * length s + 1 < n \<Longrightarrow> json_items n s \<noteq> None"
  "2 * length s + 1 < n \<Longrightarrow> json_members n s \<noteq> None"
proof (induction n s and n s and n s rule: json_value_json_items_json_members.induct)
  case (2 n s)
  show ?case
  proof (cases s)
    case Nil
    then show ?thesis by simp
  next
    case (Cons c t)
    have "skip_space t = d # q \<Longrightarrow> 2 * length (d # q) + 1 < n" for d q
      using 2(3) Cons length_skip_space [of t] by simp
    then show ?thesis
      using 2(1,2) [OF Cons] Cons by (auto split: list.splits)
  qed
next
  case (4 n s)
  have v: "json_value n s \<noteq> None" using 4(1,3) by simp
  have "json_items n (skip_space t) \<noteq> None"
    if "json_value n s = Some (Inr (v, q))" and "skip_space q = c # t" and "c = 44" for v q c t
  proof -
    have "length t < length q" "length q < length s"
      using that skip_space_ConsD json_shorter(1) by blast+
    then show ?thesis
      using 4(2) [OF that(1) refl refl that(2)] 4(3) length_skip_space [of t] that(3) by simp
  qed
  then show ?case using v by (fastforce split: option.splits sum.splits list.splits)
next
  case (6 n s)
  have small: "length u < length s"
    if "s = q # t" and "scan_string t = Inr (k, r)" and "skip_space r = c # u" for q t k r c u
    using that scan_string_shorter [OF that(2)] skip_space_ConsD [OF that(3)] by simp
  have v: "json_value n (skip_space u) \<noteq> None"
    if "s = 34 # t" and "scan_string t = Inr (k, r)" and "skip_space r = 58 # u" for t k r u
    using 6(1) [OF that(1) _ that(2) refl that(3)] 6(3) small [OF that] length_skip_space [of u] by simp
  have m: "json_members n (skip_space w) \<noteq> None"
    if "s = 34 # t" and "scan_string t = Inr (k, r)" and "skip_space r = 58 # u"
      and "json_value n (skip_space u) = Some (Inr (v, r'))" and "skip_space r' = 44 # w"
    for t k r u v r' w
  proof -
    have "length w < length s"
      using small [OF that(1-3)] json_shorter(1) [OF that(4)] skip_space_ConsD [OF that(5)]
        length_skip_space [of u] by simp
    then show ?thesis
      using 6(2) [OF that(1) _ that(2) refl that(3) _ that(4) refl refl that(5)] 6(3)
        length_skip_space [of w] by simp
  qed
  show ?case
  proof (cases s)
    case Nil
    then show ?thesis by simp
  next
    case s: (Cons q t)
    show ?thesis
      using v m s by (fastforce split: option.splits sum.splits list.splits)
  qed
qed simp_all

lemma json_members_step:
  assumes "s = 34 # t" and "scan_string t = Inr (k, r)" and "skip_space r = 58 # u"
  shows "json_members (Suc n) s =
    (case json_value n (skip_space u) of
       None \<Rightarrow> None
     | Some (Inl e) \<Rightarrow> Some (Inl e)
     | Some (Inr (v, r')) \<Rightarrow>
         (case skip_space r' of
            [] \<Rightarrow> Some (Inl JSONDecodeError)
          | d # w \<Rightarrow>
              if d = 125 then Some (Inr ([(PStr k, v)], w))
              else if d = 44 then
                map_option (\<lambda>q. bindE q (\<lambda>(ms, r). Inr ((PStr k, v) # ms, r)))
                  (json_members n (skip_space w))
              else Some (Inl JSONDecodeError)))"
  using assms by simp

lemma json_value_mono:
  "json_value n s = Some x \<Longrightarrow> json_value (Suc n) s = Some x"
  "json_items n s = Some y \<Longrightarrow> json_items (Suc n) s = Some y"
  "json_members n s = Some z \<Longrightarrow> json_members (Suc n) s = Some z"
proof (induction n s and n s and n s arbitrary: x and y and z
    rule: json_value_json_items_json_members.induct)
  case (2 n s)
  then show ?case
    apply (simp only: json_value.simps(2) [of "Suc n"] json_value.simps(2) [of n])
    by (auto split: list.splits if_splits simp del: json_items.simps json_members.simps)
next
  case (4 n s)
  then show ?case
    apply (simp only: json_items.simps(2) [of "Suc n"] json_items.simps(2) [of n])
    by (fastforce split: list.splits if_splits option.splits sum.splits simp del: json_items.simps json_value.simps)
next
  case (6 n s)
  note eqs = json_members.simps(2) [of "Suc n"] json_members.simps(2) [of n]
  show ?case
  proof (cases "\<exists>t k r u. s = 34 # t \<and> scan_string t = Inr (k, r) \<and> skip_space r = 58 # u")
    case False
    then show ?thesis using 6(3) unfolding eqs
      by (auto split: list.splits if_splits sum.splits simp del: json_value.simps json_members.simps)
  next
    case True
    then obtain t k r u where s: "s = 34 # t" "scan_string t = Inr (k, r)" "skip_space r = 58 # u"
      by blast
    have v: "json_value n (skip_space u) = Some w \<Longrightarrow> json_value (Suc n) (skip_space u) = Some w" for w
      using 6(1) [OF s(1) _ s(2) refl s(3)] by blast
    have m: "json_value n (skip_space u) = Some (Inr (v, r')) \<Longrightarrow> skip_space r' = 44 # w \<Longrightarrow>
        json_members n (skip_space w) = Some zz \<Longrightarrow> json_members (Suc n) (skip_space w) = Some zz"
      for v r' w zz
      by (rule 6(2) [OF s(1) _ s(2) refl s(3) _ _ refl refl]) simp_all
    note at = json_members_step [OF s]
    obtain q where q: "json_value n (skip_space u) = Some q"
      using 6(3) unfolding at by (auto split: option.splits)
    show ?thesis
    proof (cases q)
      case (Inl e)
      then show ?thesis using 6(3) q v [OF q] unfolding at by simp
    next
      case (Inr vr)
      obtain v' r' where vr: "vr = (v', r')" by fastforce
      have q1: "json_value n (skip_space u) = Some (Inr (v', r'))" using q Inr vr by simp
      show ?thesis
        using 6(3) m [OF q1] unfolding at q1 v [OF q1]
        by (cases "skip_space r'") (auto simp del: json_members.simps)
    qed
  qed
qed simp_all

section \<open>Reading back what was printed\<close>

lemma hex_value_hex_digit [simp]: "n < 16 \<Longrightarrow> hex_value (hex_digit n) = Some n"
  by (auto simp: hex_value_def hex_digit_def)

lemma hex4_value_hex4 [simp]: "n < 65536 \<Longrightarrow> hex4_value (hex4 n) = Some n"
proof -
  assume n: "n < 65536"
  have "n div 256 = n div 16 div 16" "n div 4096 = n div 256 div 16"
    by (simp_all flip: div_mult2_eq)
  moreover have "n div 4096 < 16" using n by simp
  moreover have "x div 16 * 16 + x mod 16 = x" for x :: nat by simp
  ultimately show ?thesis by (simp add: hex4_def)
qed

lemma length_hex4 [simp]: "length (hex4 n) = 4"
  by (simp add: hex4_def)

lemma scan_string_json_string:
  "scan_string (concat (map (json_escape_char False) s) @ 34 # r) = Inr (s, r)"
proof (induction s)
  case (Cons c s)
  show ?case
  proof (cases "c < 32 \<and> c \<notin> {10, 13, 9, 8, 12}")
    case True
    then have "unicode_unescape (hex4 c @ t) = Some (c, 4)" for t
      by (simp add: unicode_unescape_def)
    then show ?thesis
      using True Cons by (simp add: json_escape_char_def unicode_escape_def)
  next
    case False
    then show ?thesis
      using Cons by (auto simp: json_escape_char_def simple_escape_def)
  qed
qed simp

lemma skip_space_Cons [simp]: "\<not> is_json_space c \<Longrightarrow> skip_space (c # s) = c # s"
  by (simp add: skip_space_def)

lemma json_value_le: "n \<le> m \<Longrightarrow> json_value n s = Some x \<Longrightarrow> json_value m s = Some x"
  by (induction m rule: dec_induct) (auto intro: json_value_mono(1) simp del: json_value.simps)

lemma json_items_le: "n \<le> m \<Longrightarrow> json_items n s = Some x \<Longrightarrow> json_items m s = Some x"
  by (induction m rule: dec_induct) (auto intro: json_value_mono(2) simp del: json_items.simps)

lemma json_members_le: "n \<le> m \<Longrightarrow> json_members n s = Some x \<Longrightarrow> json_members m s = Some x"
  by (induction m rule: dec_induct) (auto intro: json_value_mono(3) simp del: json_members.simps)


lemma nat_str_no_leading_zero: "0 < n \<Longrightarrow> \<exists>c t. nat_str n = c # t \<and> c \<noteq> 48 \<and> is_ascii_digit c"
proof (induction n rule: nat_str.induct)
  case (1 n)
  show ?case
  proof (cases "n < 10")
    case True
    then show ?thesis using 1(2) by (simp add: nat_str.simps [of n] is_ascii_digit_def)
  next
    case False
    then obtain c t where "nat_str (n div 10) = c # t" "c \<noteq> 48" "is_ascii_digit c"
      using 1(1) by fastforce
    then show ?thesis using False by (simp add: nat_str.simps [of n])
  qed
qed

lemma ends_value_not_digit: "ends_value r \<Longrightarrow> takeWhile is_ascii_digit r = [] \<and> dropWhile is_ascii_digit r = r"
  by (cases r) (auto simp: ends_value_def is_ascii_digit_def)

lemma scan_integer_part_nat_str:
  assumes "ends_value r"
  shows "scan_integer_part (nat_str n @ r) = Some (nat_str n, r)"
proof (cases "n = 0")
  case True
  then show ?thesis by (simp add: nat_str.simps [of 0] scan_integer_part_def)
next
  case False
  then obtain c t where ct: "nat_str n = c # t" "c \<noteq> 48" "is_ascii_digit c"
    using nat_str_no_leading_zero by blast
  have "takeWhile is_ascii_digit (nat_str n @ r) = nat_str n"
    "dropWhile is_ascii_digit (nat_str n @ r) = r"
    using nat_str_digits [of n] ends_value_not_digit [OF assms]
    by (simp_all add: list_all_iff takeWhile_append2 dropWhile_append2)
  then show ?thesis using ct by (simp add: scan_integer_part_def)
qed

lemma scan_number_int_str:
  assumes "length (nat_str (nat \<bar>i\<bar>)) \<le> int_max_str_digits" and "ends_value r"
  shows "scan_number (int_str i @ r) = Inr (PInt i, r)"
proof -
  have tail: "scan_fraction r = ([], r)" "scan_exponent r = ([], r)"
    using assms(2) by (cases r; auto simp: scan_fraction_def scan_exponent_def ends_value_def)+
  have i: "int_of_str (int_str i) = Inr i"
    using assms(1) int_of_str_str_of_int [of i "int_str i"] by (simp add: str_of_int_def)
  obtain c t where "nat_str (nat i) = c # t" "is_ascii_digit c" using nat_str_head by blast
  then have h: "\<not> i < 0 \<Longrightarrow> \<exists>c t. int_str i = c # t \<and> c \<noteq> 45"
    by (auto simp: int_str_def is_ascii_digit_def)
  show ?thesis
  proof (cases "i < 0")
    case True
    then show ?thesis
      using i tail scan_integer_part_nat_str [OF assms(2), of "nat (- i)"]
      by (simp add: scan_number_def int_str_def)
  next
    case False
    then obtain c t where "int_str i = c # t" "c \<noteq> 45" using h by blast
    moreover have "scan_integer_part (int_str i @ r) = Some (int_str i, r)"
      using False scan_integer_part_nat_str [OF assms(2), of "nat i"] by (simp add: int_str_def)
    ultimately show ?thesis using i tail by (simp add: scan_number_def)
  qed
qed

lemma json_value_atom:
  assumes "c \<notin> {34, 91, 123}"
  shows "json_value (Suc n) (c # s) = Some (scan_atom (c # s))"
  using assms by simp

lemma scan_atom_constants:
  "scan_atom (py ''null'' @ r) = Inr (PNone, r)"
  "scan_atom (bool_text b @ r) = Inr (PBool b, r)"
  by (simp_all add: scan_atom_def json_constants_def str_startswith_def bool_text_def)

lemma scan_atom_int_str:
  assumes "length (nat_str (nat \<bar>i\<bar>)) \<le> int_max_str_digits" and "ends_value r"
  shows "scan_atom (int_str i @ r) = Inr (PInt i, r)"
proof -
  obtain c t where ct: "nat_str (nat \<bar>i\<bar>) = c # t" "is_ascii_digit c" using nat_str_head by blast
  have "int_str i = (if i < 0 then [45] else []) @ nat_str (nat \<bar>i\<bar>)" by (simp add: int_str_def)
  with ct have "List.find (\<lambda>(t, v). str_startswith (int_str i @ r) t) json_constants = None"
    by (simp add: json_constants_def str_startswith_def is_ascii_digit_def)
  then show ?thesis using scan_number_int_str [OF assms] by (simp add: scan_atom_def)
qed

lemma int_str_head: "\<exists>c t. int_str i = c # t \<and> \<not> is_json_space c \<and> c \<notin> {34, 91, 93, 123, 125, 65279}"
  using nat_str_head [of "nat i"] by (auto simp: int_str_def is_json_space_def is_ascii_digit_def)

text \<open>The first character of a printed value.\<close>

lemma json_dumps_head:
  assumes "json_plain v" and "json_dumps value_style v = Inr t"
  shows "\<exists>c u. t = c # u \<and> \<not> is_json_space c \<and> c \<notin> {93, 125, 65279}"
proof (cases "\<exists>i. v = PInt i")
  case True
  then show ?thesis
    using assms int_str_head by (fastforce simp: json_scalar_def str_of_int_def split: if_splits)
next
  case False
  then show ?thesis
    using assms by (cases v rule: json_plain.cases)
      (auto simp: bindE_Inr_iff json_scalar_def json_string_def is_json_space_def bool_text_def)
qed

lemma reads_backD:
  "reads_back v \<Longrightarrow> json_dumps value_style v = Inr t \<Longrightarrow> ends_value r \<Longrightarrow>
   \<exists>n. json_value n (t @ r) = Some (Inr (v, r))"
  by (simp add: reads_back_def)

lemma ends_value_simps [simp]: "ends_value []" "ends_value (c # r) \<longleftrightarrow> c \<in> {44, 93, 125}"
  by (simp_all add: ends_value_def)

lemma reads_back_items:
  assumes "list_all json_plain vs" and "list_all reads_back vs" and "vs \<noteq> []"
    and "mapE (json_dumps value_style) vs = Inr ts"
  shows "\<exists>n. json_items n (str_join (py '','') ts @ 93 # r) = Some (Inr (vs, r))"
  using assms
proof (induction vs arbitrary: ts)
  case (Cons v vs)
  then obtain t ts' where t: "json_dumps value_style v = Inr t" and ts: "ts = t # ts'"
    "mapE (json_dumps value_style) vs = Inr ts'"
    by (auto simp: bindE_Inr_iff)
  show ?case
  proof (cases "vs = []")
    case True
    then obtain n where "json_value n (t @ 93 # r) = Some (Inr (v, 93 # r))"
      using Cons.prems(2) reads_backD [OF _ t, of "93 # r"] by auto
    then have "json_items (Suc n) (t @ 93 # r) = Some (Inr ([v], r))"
      by (simp add: is_json_space_def)
    then show ?thesis using True ts by (auto simp del: json_value.simps json_items.simps json_members.simps)
  next
    case False
    let ?rest = "str_join (py '','') ts' @ 93 # r"
    obtain v' vs' t' ts'' where vs: "vs = v' # vs'" and t': "json_dumps value_style v' = Inr t'"
      and ts': "ts' = t' # ts''"
      using False ts(2) by (cases vs) (auto simp: bindE_Inr_iff)
    obtain n where n: "json_items n ?rest = Some (Inr (vs, r))"
      using Cons.IH [OF _ _ False ts(2)] Cons.prems by auto
    obtain m where m: "json_value m (t @ 44 # ?rest) = Some (Inr (v, 44 # ?rest))"
      using Cons.prems(2) reads_backD [OF _ t, of "44 # ?rest"] by auto
    have "skip_space ?rest = ?rest"
      using json_dumps_head [OF _ t'] Cons.prems(1) vs ts' by (cases ts'') auto
    then have "json_items (Suc (max m n)) (t @ 44 # ?rest) = Some (Inr (v # vs, r))"
      using json_value_le [OF max.cobounded1 m, of n] json_items_le [OF max.cobounded2 n, of m]
      by (simp add: is_json_space_def del: json_value.simps)
    then show ?thesis using ts(1) ts' by (auto simp del: json_value.simps json_items.simps json_members.simps)
  qed
qed simp

lemma reads_back_members:
  assumes "list_all (\<lambda>(k, v). (\<exists>s. k = PStr s) \<and> json_plain v) d" and "list_all (\<lambda>(k, v). reads_back v) d"
    and "d \<noteq> []"
    and "mapE (\<lambda>(k, v). bindE (json_key value_style k) (\<lambda>kt. bindE (json_dumps value_style v) (\<lambda>t.
           Inr (json_string False kt @ py '':'' @ t)))) d = Inr ts"
  shows "\<exists>n. json_members n (str_join (py '','') ts @ 125 # r) = Some (Inr (d, r))"
  using assms
proof (induction d arbitrary: ts)
  case (Cons kv d)
  then obtain k v t ts' where kv: "kv = (PStr k, v)" and t: "json_dumps value_style v = Inr t"
    and ts: "ts = (json_string False k @ py '':'' @ t) # ts'"
    and ts': "mapE (\<lambda>(k, v). bindE (json_key value_style k) (\<lambda>kt. bindE (json_dumps value_style v) (\<lambda>t.
           Inr (json_string False kt @ py '':'' @ t)))) d = Inr ts'"
    by (auto simp: bindE_Inr_iff json_key_def)
  have sp: "skip_space (t @ q) = t @ q" for q
    using json_dumps_head [OF _ t] Cons.prems(1) kv by auto
  have member: "json_members (Suc n) (json_string False k @ py '':'' @ t @ q) =
      (case json_value n (t @ q) of
         None \<Rightarrow> None
       | Some (Inl e) \<Rightarrow> Some (Inl e)
       | Some (Inr (v, r')) \<Rightarrow>
           (case skip_space r' of
              [] \<Rightarrow> Some (Inl JSONDecodeError)
            | d # w \<Rightarrow>
                if d = 125 then Some (Inr ([(PStr k, v)], w))
                else if d = 44 then
                  map_option (\<lambda>q. bindE q (\<lambda>(ms, r). Inr ((PStr k, v) # ms, r)))
                    (json_members n (skip_space w))
                else Some (Inl JSONDecodeError)))" for n q
    by (simp add: json_string_def scan_string_json_string sp is_json_space_def
        del: json_value.simps)
  show ?case
  proof (cases "d = []")
    case True
    then obtain n where "json_value n (t @ 125 # r) = Some (Inr (v, 125 # r))"
      using Cons.prems(2) reads_backD [OF _ t, of "125 # r"] kv by auto
    then have "json_members (Suc n) (json_string False k @ py '':'' @ t @ 125 # r) = Some (Inr ([kv], r))"
      unfolding member by (simp add: is_json_space_def kv)
    then show ?thesis using True ts ts' by (auto simp del: json_value.simps json_items.simps json_members.simps)
  next
    case False
    let ?rest = "str_join (py '','') ts' @ 125 # r"
    obtain n where n: "json_members n ?rest = Some (Inr (d, r))"
      using Cons.IH [OF _ _ False ts'] Cons.prems by auto
    obtain m where m: "json_value m (t @ 44 # ?rest) = Some (Inr (v, 44 # ?rest))"
      using Cons.prems(2) reads_backD [OF _ t, of "44 # ?rest"] kv by auto
    obtain k' t' ts'' where ts'': "ts' = (json_string False k' @ t') # ts''"
      using False ts' by (cases d) (auto simp: bindE_Inr_iff)
    then have "skip_space ?rest = ?rest"
      by (cases ts'') (auto simp: json_string_def is_json_space_def)
    then have "json_members (Suc (max m n)) (json_string False k @ py '':'' @ t @ 44 # ?rest) =
        Some (Inr (kv # d, r))"
      unfolding member
      using json_value_le [OF max.cobounded1 m, of n] json_members_le [OF max.cobounded2 n, of m]
      by (simp add: is_json_space_def kv del: json_value.simps json_members.simps)
    then show ?thesis using ts ts'' by (auto simp del: json_value.simps json_items.simps json_members.simps)
  qed
qed simp

lemma json_value_list:
  assumes "json_items n (t @ 93 # r) = Some (Inr (vs, r))" and "t = c # u" and "\<not> is_json_space c" and "c \<noteq> 93"
  shows "json_value (Suc n) (91 # t @ 93 # r) = Some (Inr (PList vs, r))"
  using assms by (simp del: json_items.simps)

lemma json_value_dict:
  assumes "json_members n (t @ 125 # r) = Some (Inr (d, r))" and "t = 34 # u" and "dict_ok d"
  shows "json_value (Suc n) (123 # t @ 125 # r) = Some (Inr (PDict d, r))"
  using assms by (simp add: dict_update_empty is_json_space_def del: json_members.simps)

lemma reads_backI:
  "json_dumps value_style v = Inr t \<Longrightarrow>
   (\<And>r. ends_value r \<Longrightarrow> \<exists>n. json_value n (t @ r) = Some (Inr (v, r))) \<Longrightarrow> reads_back v"
  by (simp add: reads_back_def)

lemma reads_back_atom:
  assumes "json_dumps value_style v = Inr t" and "t = c # u" and "c \<notin> {34, 91, 123}"
    and "\<And>r. ends_value r \<Longrightarrow> scan_atom (t @ r) = Inr (v, r)"
  shows "reads_back v"
proof (rule reads_backI [OF assms(1)])
  fix r
  assume "ends_value r"
  then have "json_value (Suc 0) (t @ r) = Some (Inr (v, r))"
    using assms(2-4) json_value_atom [of c 0 "u @ r"] by (simp del: json_value.simps)
  then show "\<exists>n. json_value n (t @ r) = Some (Inr (v, r))" ..
qed

lemma value_style_simps [simp]:
  "ensure_ascii value_style = False" "item_separator value_style = py '',''"
  "key_separator value_style = py '':''"
  by (simp_all add: value_style_def)

lemma reads_back_plain: "json_plain v \<Longrightarrow> reads_back v"
proof (induction v rule: json_plain.induct)
  case 1
  show ?case by (rule reads_back_atom) (use scan_atom_constants(1) in auto)
next
  case (2 s)
  show ?case
  proof (rule reads_backI)
    show "json_dumps value_style (PStr s) = Inr (json_string False s)" by (simp add: json_scalar_def)
    have "json_value (Suc 0) (json_string False s @ r) = Some (Inr (PStr s, r))" for r
      by (simp add: json_string_def scan_string_json_string)
    then show "\<exists>n. json_value n (json_string False s @ r) = Some (Inr (PStr s, r))" for r ..
  qed
next
  case (3 i)
  obtain c t where "int_str i = c # t" "c \<notin> {34, 91, 93, 123, 125, 65279}" using int_str_head by blast
  then show ?case
    using 3 scan_atom_int_str [of i]
    by (intro reads_back_atom [of _ "int_str i"]) (auto simp: json_scalar_def str_of_int_def)
next
  case (5 b)
  show ?case
    using scan_atom_constants(2)
    by (intro reads_back_atom [of _ "bool_text b" "hd (bool_text b)" "tl (bool_text b)"])
      (auto simp: json_scalar_def bool_text_def)
next
  case (6 vs)
  have all: "list_all reads_back vs" using 6 by (simp add: list_all_iff)
  show ?case unfolding reads_back_def
  proof (intro allI impI)
    fix t r
    assume "json_dumps value_style (PList vs) = Inr t" and r: "ends_value r"
    then obtain ts where ts: "mapE (json_dumps value_style) vs = Inr ts"
      and t: "t = 91 # str_join (py '','') ts @ [93]"
      by (auto simp: bindE_Inr_iff)
    show "\<exists>n. json_value n (t @ r) = Some (Inr (PList vs, r))"
    proof (cases vs)
      case Nil
      then have "json_value (Suc 0) (t @ r) = Some (Inr (PList vs, r))"
        using ts t by (simp add: is_json_space_def)
      then show ?thesis ..
    next
      case (Cons v vs')
      obtain t' ts' where "ts = t' # ts'" "json_dumps value_style v = Inr t'"
        using ts Cons by (auto simp: bindE_Inr_iff)
      then obtain c u where c: "str_join (py '','') ts = c # u" "\<not> is_json_space c" "c \<noteq> 93"
        using json_dumps_head [of v t'] 6(2) Cons by (cases ts') auto
      obtain n where "json_items n (str_join (py '','') ts @ 93 # r) = Some (Inr (vs, r))"
        using reads_back_items [OF _ all _ ts] 6(2) Cons by auto
      from json_value_list [OF this c] show ?thesis unfolding t by (auto simp del: json_value.simps json_items.simps json_members.simps)
    qed
  qed
next
  case (8 d)
  have all: "list_all (\<lambda>(k, v). reads_back v) d" using 8 by (fastforce simp: list_all_iff)
  show ?case unfolding reads_back_def
  proof (intro allI impI)
    fix t r
    assume "json_dumps value_style (PDict d) = Inr t" and r: "ends_value r"
    then obtain ts where ts: "mapE (\<lambda>(k, v). bindE (json_key value_style k) (\<lambda>kt.
          bindE (json_dumps value_style v) (\<lambda>t. Inr (json_string False kt @ py '':'' @ t)))) d = Inr ts"
      and t: "t = 123 # str_join (py '','') ts @ [125]"
      by (auto simp: bindE_Inr_iff)
    show "\<exists>n. json_value n (t @ r) = Some (Inr (PDict d, r))"
    proof (cases d)
      case Nil
      then have "json_value (Suc 0) (t @ r) = Some (Inr (PDict d, r))"
        using ts t by (simp add: is_json_space_def)
      then show ?thesis ..
    next
      case (Cons kv d')
      obtain k t' ts' where "ts = (json_string False k @ t') # ts'"
        using ts Cons by (cases kv) (auto simp: bindE_Inr_iff)
      then obtain u where u: "str_join (py '','') ts = 34 # u"
        by (cases ts') (auto simp: json_string_def)
      obtain n where "json_members n (str_join (py '','') ts @ 125 # r) = Some (Inr (d, r))"
        using reads_back_members [OF _ all _ ts] 8(2) Cons by auto
      from json_value_dict [OF this u] show ?thesis using 8(2) unfolding t by (auto simp del: json_value.simps json_items.simps json_members.simps)
    qed
  qed
qed simp_all

lemma json_roundtrip:
  assumes "json_plain v" and "json_dumps value_style v = Inr t"
  shows "json_loads t = Inr v"
proof -
  obtain n where n: "json_value n t = Some (Inr (v, []))"
    using reads_backD [OF reads_back_plain [OF assms(1)] assms(2), of "[]"] by auto
  obtain c u where c: "t = c # u" "\<not> is_json_space c" "c \<noteq> 65279"
    using json_dumps_head [OF assms] by blast
  then have sp: "skip_space t = t" by simp
  have "json_value (2 * length t + 2) t \<noteq> None" by (rule json_value_fuel) simp
  then obtain x where x: "json_value (2 * length t + 2) t = Some x" by blast
  have "json_value (max n (2 * length t + 2)) t = Some x"
    "json_value (max n (2 * length t + 2)) t = Some (Inr (v, []))"
    using json_value_le [OF max.cobounded2 x] json_value_le [OF max.cobounded1 n] by blast+
  then have "x = Inr (v, [])" by simp
  then show ?thesis
    using x c(1,3) sp by (simp add: json_loads_def skip_space_def del: json_value.simps)
qed

end
