(* ===== verification/Py_Object.thy ===== *)
theory Py_Object
  imports Py_Json
begin

text \<open>
  The operations of Python objects that the readers of JSON documents use without checking the
  type first: subscripts, \<open>.get\<close>, iteration, \<open>str()\<close>, \<open>float()\<close> and \<open>int()\<close>,
  with the exception each raises on a value of the wrong type.
\<close>

section \<open>Subscripts, attributes, iteration\<close>

definition get_item :: "pyval \<Rightarrow> pystr \<Rightarrow> pyval result" where
  "get_item v k =
     (case v of
        PDict d \<Rightarrow> (case pdict_get d k of Some x \<Rightarrow> Inr x | None \<Rightarrow> Inl KeyError)
      | _ \<Rightarrow> Inl TypeError)"

definition get_attr_default :: "pyval \<Rightarrow> pystr \<Rightarrow> pyval \<Rightarrow> pyval result" where
  "get_attr_default v k d0 =
     (case v of
        PDict d \<Rightarrow> Inr (case pdict_get d k of Some x \<Rightarrow> x | None \<Rightarrow> d0)
      | _ \<Rightarrow> Inl AttributeError)"

abbreviation get_attr :: "pyval \<Rightarrow> pystr \<Rightarrow> pyval result" where
  "get_attr v k \<equiv> get_attr_default v k PNone"

text \<open>\<open>for x in v\<close>: a dict gives its keys, a string its characters.\<close>

definition py_iter :: "pyval \<Rightarrow> pyval list result" where
  "py_iter v =
     (case v of
        PList vs \<Rightarrow> Inr vs
      | PTuple vs \<Rightarrow> Inr vs
      | PDict d \<Rightarrow> Inr (map fst d)
      | PStr s \<Rightarrow> Inr (map (\<lambda>c. PStr [c]) s)
      | _ \<Rightarrow> Inl TypeError)"

text \<open>\<open>v or w\<close>\<close>

definition py_or :: "pyval \<Rightarrow> pyval \<Rightarrow> pyval" where
  "py_or v w = (if truthy v then v else w)"

section \<open>str()\<close>

text \<open>
  \<open>repr\<close> of a string escapes the characters that are not printable. Which characters beyond
  ASCII are printable is a table of the Unicode database, a parameter here.
\<close>

type_synonym printable = "nat \<Rightarrow> bool"

definition repr_char :: "printable \<Rightarrow> nat \<Rightarrow> nat \<Rightarrow> pystr" where
  "repr_char printable quote c =
     (if c = quote \<or> c = 92 then [92, c]
      else if c = 9 then [92, 116] else if c = 10 then [92, 110] else if c = 13 then [92, 114]
      else if c < 32 \<or> c = 127 then [92, 120, hex_digit (c div 16), hex_digit (c mod 16)]
      else if c < 127 \<or> printable c then [c]
      else if c \<le> 255 then [92, 120, hex_digit (c div 16), hex_digit (c mod 16)]
      else if c < 65536 then 92 # 117 # hex4 c
      else 92 # 85 # hex4 (c div 65536) @ hex4 (c mod 65536))"

definition repr_str :: "printable \<Rightarrow> pystr \<Rightarrow> pystr" where
  "repr_str printable s =
     (let quote = (if 39 \<in> set s \<and> 34 \<notin> set s then 34 else 39)
      in quote # concat (map (repr_char printable quote) s) @ [quote])"

definition str_of_bool :: "bool \<Rightarrow> pystr" where
  "str_of_bool b = (if b then py ''True'' else py ''False'')"

text \<open>An object of another class that cannot be shown raises; here always \<open>TypeError\<close>.\<close>

fun py_repr :: "printable \<Rightarrow> pyval \<Rightarrow> pystr result" where
  "py_repr pr PNone = Inr (py ''None'')"
| "py_repr pr (PStr s) = Inr (repr_str pr s)"
| "py_repr pr (PInt i) = str_of_int i"
| "py_repr pr (PFloat f) = Inr (float_repr f)"
| "py_repr pr (PBool b) = Inr (str_of_bool b)"
| "py_repr pr (PList vs) =
     bindE (mapE (py_repr pr) vs) (\<lambda>ts. Inr (91 # str_join (py '', '') ts @ [93]))"
| "py_repr pr (PTuple vs) =
     bindE (mapE (py_repr pr) vs) (\<lambda>ts.
       Inr (40 # str_join (py '', '') ts @ (if length ts = 1 then py '',)'' else py '')'')))"
| "py_repr pr (PDict d) =
     bindE (mapE (\<lambda>(k, v). bindE (py_repr pr k) (\<lambda>kt. bindE (py_repr pr v) (\<lambda>t.
              Inr (kt @ py '': '' @ t)))) d)
       (\<lambda>ts. Inr (123 # str_join (py '', '') ts @ [125]))"
| "py_repr pr (PObj t s) = (case s of Some x \<Rightarrow> Inr x | None \<Rightarrow> Inl TypeError)"

definition py_str :: "printable \<Rightarrow> pyval \<Rightarrow> pystr result" where
  "py_str pr v = (case v of PStr s \<Rightarrow> Inr s | _ \<Rightarrow> py_repr pr v)"

section \<open>float() and int()\<close>

text \<open>
  \<open>float(s)\<close> of any string: decimal digits and spaces of other scripts count, surrounding
  space is dropped, underscores may stand between digits, and infinities and NaN have names.
\<close>

definition ascii_char :: "nat \<Rightarrow> nat" where
  "ascii_char c =
     (if c < 127 then c else if is_space c then 32
      else (case digit_value c of Some d \<Rightarrow> 48 + d | None \<Rightarrow> 63))"

definition is_ascii_space :: "nat \<Rightarrow> bool" where
  "is_ascii_space c \<longleftrightarrow> c = 32 \<or> (9 \<le> c \<and> c \<le> 13)"

fun drop_underscores :: "nat \<Rightarrow> pystr \<Rightarrow> pystr option" where
  "drop_underscores prev [] = (if prev = 95 then None else Some [])"
| "drop_underscores prev (c # s) =
     (if c = 95 then (if is_ascii_digit prev then drop_underscores c s else None)
      else if prev = 95 \<and> \<not> is_ascii_digit c then None
      else map_option (\<lambda>t. c # t) (drop_underscores c s))"

definition named_float :: "pystr \<Rightarrow> pyfloat option" where
  "named_float s =
     (let (neg, t) = split_sign s; w = str_lower t
      in if w = py ''inf'' \<or> w = py ''infinity'' then Some (Infinite (\<not> neg))
         else if w = py ''nan'' then Some NaN else None)"

definition float_of_text :: "pystr \<Rightarrow> pyfloat result" where
  "float_of_text s =
     (let t = dropWhile is_ascii_space (rev (dropWhile is_ascii_space (rev (map ascii_char s))))
      in case drop_underscores 0 t of
           None \<Rightarrow> Inl ValueError
         | Some u \<Rightarrow> (case named_float u of Some f \<Rightarrow> Inr f | None \<Rightarrow> float_of_str u))"

definition py_float :: "pyval \<Rightarrow> pyfloat result" where
  "py_float v =
     (case v of
        PStr s \<Rightarrow> float_of_text s
      | PInt i \<Rightarrow> float_of_int i
      | PFloat f \<Rightarrow> Inr f
      | PBool b \<Rightarrow> Inr (Finite (if b then 1 else 0))
      | _ \<Rightarrow> Inl TypeError)"

text \<open>What \<open>json.loads\<close> returns: only strings are keys, and there are no tuples or other objects.\<close>

fun json_doc :: "pyval \<Rightarrow> bool" where
  "json_doc (PList vs) = list_all json_doc vs"
| "json_doc (PDict d) = list_all (\<lambda>(k, v). (\<exists>s. k = PStr s) \<and> json_doc v) d"
| "json_doc (PTuple vs) = False"
| "json_doc (PObj t s) = False"
| "json_doc PNone = True"
| "json_doc (PScalar v) = True"

section \<open>Which exceptions a computation raises\<close>

definition raises_only :: "exn set \<Rightarrow> 'a result \<Rightarrow> bool" where
  "raises_only E r \<longleftrightarrow> (\<forall>e. r = Inl e \<longrightarrow> e \<in> E)"

named_theorems raises

lemma raises_Inr [simp, raises]: "raises_only E (Inr a)"
  by (simp add: raises_only_def)

lemma raises_Inl [simp]: "raises_only E (Inl e) \<longleftrightarrow> e \<in> E"
  by (simp add: raises_only_def)

lemma raises_bindE [raises]:
  "raises_only E r \<Longrightarrow> (\<And>a. r = Inr a \<Longrightarrow> raises_only E (f a)) \<Longrightarrow> raises_only E (bindE r f)"
  by (cases r) (auto simp: raises_only_def)

lemma raises_mapE [raises]:
  "(\<And>x. x \<in> set xs \<Longrightarrow> raises_only E (f x)) \<Longrightarrow> raises_only E (mapE f xs)"
  by (induction xs) (auto intro!: raises_bindE)

lemma raises_mono: "raises_only E r \<Longrightarrow> E \<subseteq> F \<Longrightarrow> raises_only F r"
  by (auto simp: raises_only_def)

text \<open>The exceptions the readers catch, and the one they do not.\<close>

definition reader_errors :: "exn set" where
  "reader_errors = {AttributeError, KeyError, TypeError, ValueError}"

lemma raises_get_item [raises]: "reader_errors \<subseteq> E \<Longrightarrow> raises_only E (get_item v k)"
  by (auto simp: get_item_def reader_errors_def split: pyval.splits option.splits)

lemma raises_get_attr [raises]: "reader_errors \<subseteq> E \<Longrightarrow> raises_only E (get_attr_default v k d)"
  by (auto simp: get_attr_default_def reader_errors_def split: pyval.splits)

lemma raises_py_iter [raises]: "reader_errors \<subseteq> E \<Longrightarrow> raises_only E (py_iter v)"
  by (auto simp: py_iter_def reader_errors_def split: pyval.splits scalar.splits)

lemma raises_str_of_int [raises]: "reader_errors \<subseteq> E \<Longrightarrow> raises_only E (str_of_int i)"
  by (auto simp: str_of_int_def reader_errors_def)

lemma raises_to_json_string [raises]: "reader_errors \<subseteq> E \<Longrightarrow> raises_only E (to_json_string v)"
  by (cases v) (auto simp: float_json_string_def raises_str_of_int split: pyfloat.splits)

lemma raises_json_scalar [raises]: "reader_errors \<subseteq> E \<Longrightarrow> raises_only E (json_scalar st v)"
  by (cases v) (auto simp: json_scalar_def json_float_def reader_errors_def str_of_int_def
      split: pyfloat.splits)

lemma raises_json_key [raises]: "reader_errors \<subseteq> E \<Longrightarrow> raises_only E (json_key st k)"
  by (auto simp: json_key_def raises_json_scalar reader_errors_def split: pyval.splits scalar.splits)

lemma raises_json_dumps [raises]:
  assumes "reader_errors \<subseteq> E"
  shows "raises_only E (json_dumps st v)"
proof (induction st v rule: json_dumps.induct)
  case (5 st d)
  then show ?case using assms by (auto intro!: raises)
qed (use assms in \<open>auto intro!: raises simp: reader_errors_def\<close>)

lemma raises_py_repr [raises]:
  assumes "reader_errors \<subseteq> E"
  shows "raises_only E (py_repr pr v)"
proof (induction pr v rule: py_repr.induct)
  case (8 pr d)
  then show ?case using assms by (auto intro!: raises)
next
  case (9 pr t s)
  then show ?case using assms by (auto simp: reader_errors_def split: option.splits)
qed (use assms in \<open>auto intro!: raises\<close>)

lemma raises_py_str [raises]: "reader_errors \<subseteq> E \<Longrightarrow> raises_only E (py_str pr v)"
  by (auto simp: py_str_def raises_py_repr simp del: py_repr.simps split: pyval.splits scalar.splits)

lemma raises_py_float [raises]:
  "reader_errors \<subseteq> E \<Longrightarrow> OverflowError \<in> E \<Longrightarrow> raises_only E (py_float v)"
  by (auto simp: py_float_def float_of_text_def float_of_str_def float_of_int_def reader_errors_def Let_def
      split: pyval.splits scalar.splits option.splits pyfloat.splits)

text \<open>Reading JSON raises nothing but a \<open>ValueError\<close>.\<close>

lemma raises_scan_string [raises]: "raises_only {JSONDecodeError, ValueError} (scan_string s)"
proof (induction s rule: scan_string.induct)
  case (2 c s)
  then show ?case unfolding scan_string.simps(2)
    by (auto intro!: raises simp del: scan_string.simps split: list.splits option.splits prod.splits)
qed simp

lemma raises_scan_atom [raises]: "raises_only {JSONDecodeError, ValueError} (scan_atom s)"
proof -
  have "raises_only {JSONDecodeError, ValueError} (int_of_str t)" for t
    by (auto simp: int_of_str_def nat_of_digits_def split: list.splits intro!: raises)
  moreover have "raises_only {JSONDecodeError, ValueError} (float_of_str t)" for t
    by (auto simp: float_of_str_def split: option.splits)
  ultimately show ?thesis
    by (auto simp: scan_atom_def scan_number_def Let_def intro!: raises split: option.splits prod.splits)
qed

lemma json_value_raises:
  "json_value n s = Some x \<Longrightarrow> raises_only {JSONDecodeError, ValueError} x"
  "json_items n s = Some y \<Longrightarrow> raises_only {JSONDecodeError, ValueError} y"
  "json_members n s = Some z \<Longrightarrow> raises_only {JSONDecodeError, ValueError} z"
proof (induction n s and n s and n s arbitrary: x and y and z
    rule: json_value_json_items_json_members.induct)
  case (2 n s)
  then show ?case
    by (fastforce intro!: raises split: list.splits if_splits)
next
  case (4 n s)
  then show ?case
    by (fastforce intro!: raises split: list.splits if_splits option.splits sum.splits)
next
  case (6 n s)
  show ?case
  proof (cases "\<exists>t k r u. s = 34 # t \<and> scan_string t = Inr (k, r) \<and> skip_space r = 58 # u")
    case False
    have "raises_only {JSONDecodeError, ValueError} (scan_string t)" for t by (rule raises)
    then show ?thesis using False 6(3) unfolding json_members.simps(2) raises_only_def
      by (auto split: list.splits if_splits sum.splits simp del: json_value.simps json_members.simps)
  next
    case True
    then obtain t k r u where s: "s = 34 # t" "scan_string t = Inr (k, r)" "skip_space r = 58 # u"
      by blast
    note v = 6(1) [OF s(1) _ s(2) refl s(3)]
    note m = 6(2) [OF s(1) _ s(2) refl s(3) _ _ refl refl]
    obtain q where q: "json_value n (skip_space u) = Some q"
      using 6(3) unfolding json_members_step [OF s] by (auto split: option.splits)
    have "raises_only {JSONDecodeError, ValueError} q" using v q by simp
    then show ?thesis
      using 6(3) q m unfolding json_members_step [OF s]
      by (auto intro!: raises split: sum.splits list.splits if_splits
          simp del: json_value.simps json_members.simps)
  qed
qed simp_all

lemma json_doc_update: "json_doc (PDict ms) \<Longrightarrow> json_doc (PDict (dict_update [] ms))"
proof -
  have "json_doc (PDict ms) \<Longrightarrow> json_doc (PDict d) \<Longrightarrow> json_doc (PDict (dict_update d ms))" for d
  proof (induction ms arbitrary: d)
    case (Cons kv ms)
    obtain k v where kv: "kv = (k, v)" by fastforce
    have "json_doc (PDict (dict_set k v d))"
      using Cons.prems kv unfolding json_doc.simps by (intro list_all_dict_set) auto
    then show ?case
      using Cons.IH [of "dict_set k v d"] Cons.prems kv by (simp add: dict_update_def)
  qed (simp add: dict_update_def)
  then show "json_doc (PDict ms) \<Longrightarrow> json_doc (PDict (dict_update [] ms))" by simp
qed

lemma scan_atom_scalar: "scan_atom s = Inr (v, r) \<Longrightarrow> json_doc v"
proof -
  have "scan_number s = Inr (v, r) \<Longrightarrow> json_doc v"
    by (auto simp: scan_number_def Let_def bindE_Inr_iff split: option.splits prod.splits if_splits)
  moreover have "List.find P json_constants = Some (t, w) \<Longrightarrow> json_doc w" for P t w
    by (auto simp: json_constants_def split: if_splits)
  ultimately show "scan_atom s = Inr (v, r) \<Longrightarrow> json_doc v"
    by (auto simp: scan_atom_def split: option.splits)
qed

lemma json_value_doc:
  "json_value n s = Some (Inr (v, r)) \<Longrightarrow> json_doc v"
  "json_items n s = Some (Inr (vs, r)) \<Longrightarrow> list_all json_doc vs"
  "json_members n s = Some (Inr (ms, r)) \<Longrightarrow> json_doc (PDict ms)"
proof (induction n s and n s and n s arbitrary: v r and vs r and ms r
    rule: json_value_json_items_json_members.induct)
  case (2 n s)
  show ?case
  proof (cases s)
    case Nil
    then show ?thesis using 2 by simp
  next
    case (Cons c t)
    then consider "c = 34" | "c = 91" | "c = 123" | "c \<notin> {34, 91, 123}" by auto
    then show ?thesis
    proof cases
      case 1
      then show ?thesis using 2 Cons by (auto simp: bindE_Inr_iff)
    next
      case c: 2
      then show ?thesis using 2(1) [OF Cons] 2(3) Cons
        by (auto simp: bindE_Inr_iff split: list.splits if_splits)
    next
      case 3
      then show ?thesis using 2(2) [OF Cons] 2(3) Cons json_doc_update
        by (auto simp: bindE_Inr_iff json_doc.simps(2) [of "[]"] simp del: json_doc.simps
            split: list.splits if_splits)
    next
      case 4
      then show ?thesis using 2(3) Cons scan_atom_scalar [of s v r] by simp
    qed
  qed
next
  case (4 n s)
  then show ?case
    by (fastforce simp: bindE_Inr_iff split: option.splits sum.splits list.splits if_splits)
next
  case (6 n s)
  then obtain t k q u where s: "s = 34 # t" "scan_string t = Inr (k, q)" "skip_space q = 58 # u"
    by (fastforce split: option.splits sum.splits prod.splits list.splits if_splits)
  note IH = 6(1) [OF s(1) _ s(2) refl s(3)] 6(2) [OF s(1) _ s(2) refl s(3) _ _ refl refl]
  show ?case
    using 6(3) IH unfolding json_members_step [OF s]
    by (fastforce simp: bindE_Inr_iff split: option.splits sum.splits list.splits if_splits
        simp del: json_value.simps json_members.simps)
qed simp_all

lemma json_loads_doc: "json_loads s = Inr v \<Longrightarrow> json_doc v"
  using json_value_doc(1)
  by (fastforce simp: json_loads_def split: if_splits option.splits sum.splits simp del: json_value.simps)

lemma raises_json_loads: "raises_only {JSONDecodeError, ValueError} (json_loads s)"
  using json_value_raises(1)
  by (fastforce simp: json_loads_def raises_only_def split: option.splits sum.splits
      simp del: json_value.simps)

end
