(* ===== verification/Rapidhash.thy ===== *)
theory Rapidhash
  imports Py_Str "HOL-Library.Word"
begin

unbundle bit_operations_syntax

text \<open>
  The hash behind percentage rollouts, \<open>_evaluation/_rapidhash.py\<close>. Python's integers are
  unbounded, so the port masks products by hand; the model keeps them as natural numbers with the
  masks and shifts of the source. The second half is the same computation in 64-bit registers, with
  a 128-bit product, and the proof that the two agree on every input.
\<close>

section \<open>The port, on unbounded integers\<close>

definition mask64 :: nat where
  "mask64 = 0xFFFFFFFFFFFFFFFF"

definition secret :: "nat list" where
  "secret = [0x2D358DCCAA6C78A5, 0x8BB84B93962EACC9, 0x4B33A62ED433D4A3, 0x4D5A2DA51DE1AA47,
     0xA0761D6478BD642F, 0xE7037ED1A0B428DB, 0x90ED1765281C388C, 0xAAAAAAAAAAAAAAAA]"

definition mix :: "nat \<Rightarrow> nat \<Rightarrow> nat" where
  "mix a b = (let m = a * b in (m AND mask64) XOR drop_bit 64 m)"

text \<open>\<open>int.from_bytes(bs, "little")\<close>\<close>

definition from_bytes_little :: "nat list \<Rightarrow> nat" where
  "from_bytes_little bs = foldr (\<lambda>b n. b + 256 * n) bs 0"

definition read64 :: "nat list \<Rightarrow> nat \<Rightarrow> nat" where
  "read64 data offset = from_bytes_little (take 8 (drop offset data))"

definition read32 :: "nat list \<Rightarrow> nat \<Rightarrow> nat" where
  "read32 data offset = from_bytes_little (take 4 (drop offset data))"

definition read_small :: "nat list \<Rightarrow> nat \<Rightarrow> nat" where
  "read_small data len =
     (let v = data ! 0
      in data ! (len - 1) OR push_bit 40 (push_bit 5 v AND 0xFF) OR push_bit 48 (drop_bit 3 v))"

definition epilogue :: "nat \<Rightarrow> nat \<Rightarrow> nat \<Rightarrow> nat" where
  "epilogue a b i =
     (let m0 = a * b;
          m1 = ((m0 AND mask64) XOR secret ! 7)
               * ((drop_bit 64 m0 XOR secret ! 1 XOR i) AND mask64)
      in (m1 AND mask64) XOR drop_bit 64 m1)"

text \<open>The seven lanes of the block loop, and one round of it at position \<open>p\<close>.\<close>

record lanes =
  seed :: nat
  see1 :: nat
  see2 :: nat
  see3 :: nat
  see4 :: nat
  see5 :: nat
  see6 :: nat

definition block_round :: "nat list \<Rightarrow> nat \<Rightarrow> lanes \<Rightarrow> lanes" where
  "block_round data p s =
     \<lparr>seed = mix (read64 data p XOR secret ! 0) (read64 data (p + 8) XOR seed s),
      see1 = mix (read64 data (p + 16) XOR secret ! 1) (read64 data (p + 24) XOR see1 s),
      see2 = mix (read64 data (p + 32) XOR secret ! 2) (read64 data (p + 40) XOR see2 s),
      see3 = mix (read64 data (p + 48) XOR secret ! 3) (read64 data (p + 56) XOR see3 s),
      see4 = mix (read64 data (p + 64) XOR secret ! 4) (read64 data (p + 72) XOR see4 s),
      see5 = mix (read64 data (p + 80) XOR secret ! 5) (read64 data (p + 88) XOR see5 s),
      see6 = mix (read64 data (p + 96) XOR secret ! 6) (read64 data (p + 104) XOR see6 s)\<rparr>"

text \<open>
  The loop is entered only with more than 112 bytes left and ends when at most 112 are left, so a
  loop that tests first runs the same rounds.
\<close>

function block_loop :: "nat list \<Rightarrow> nat \<Rightarrow> nat \<Rightarrow> lanes \<Rightarrow> nat \<times> nat \<times> lanes" where
  "block_loop data p i s =
     (if i \<le> 112 then (p, i, s) else block_loop data (p + 112) (i - 112) (block_round data p s))"
  by pat_completeness auto
termination
  by (relation "measure (\<lambda>(data, p, i, s). i)") auto

declare block_loop.simps [simp del]

definition merge_lanes :: "lanes \<Rightarrow> nat" where
  "merge_lanes s =
     (let s1 = seed s XOR see1 s;
          a = see2 s XOR see3 s;
          b = see4 s XOR see5 s;
          s2 = s1 XOR see6 s;
          c = a XOR b
      in s2 XOR c)"

text \<open>The ladder of conditional rounds over the last 17 to 112 bytes.\<close>

definition ladder_step :: "nat list \<Rightarrow> nat \<Rightarrow> nat \<Rightarrow> nat \<Rightarrow> nat" where
  "ladder_step data offset k s = mix (read64 data offset XOR secret ! k) (read64 data (offset + 8) XOR s)"

definition ladder :: "nat list \<Rightarrow> nat \<Rightarrow> nat \<Rightarrow> nat \<Rightarrow> nat" where
  "ladder data p i s0 =
     (if i > 16 then
        let s1 = ladder_step data p 2 s0 in
        if i > 32 then
          let s2 = ladder_step data (p + 16) 2 s1 in
          if i > 48 then
            let s3 = ladder_step data (p + 32) 1 s2 in
            if i > 64 then
              let s4 = ladder_step data (p + 48) 1 s3 in
              if i > 80 then
                let s5 = ladder_step data (p + 64) 2 s4 in
                if i > 96 then ladder_step data (p + 80) 1 s5 else s5
              else s4
            else s3
          else s2
        else s1
      else s0)"

definition rapidhash_short :: "nat list \<Rightarrow> nat \<Rightarrow> nat \<times> nat \<times> nat" where
  "rapidhash_short data s =
     (let len = length data
      in if len \<ge> 4 then
           (if len \<ge> 8 then (read64 data 0, read64 data (len - 8), s XOR len)
            else (read32 data 0, read32 data (len - 4), s XOR len))
         else if len > 0 then (read_small data len, data ! (len div 2), s)
         else (0, 0, s))"

definition rapidhash_long :: "nat list \<Rightarrow> nat \<Rightarrow> nat \<times> nat \<times> nat \<times> nat" where
  "rapidhash_long data s =
     (let (p, i, s') =
            (if length data > 112
             then (case block_loop data 0 (length data) \<lparr>seed = s, see1 = s, see2 = s, see3 = s,
                                           see4 = s, see5 = s, see6 = s\<rparr> of
                     (p, i, l) \<Rightarrow> (p, i, merge_lanes l))
             else (0, length data, s));
          s'' = ladder data p i s'
      in (read64 data (p + i - 16) XOR i, read64 data (p + i - 8), s'', i))"

definition rapidhash :: "nat list \<Rightarrow> nat \<Rightarrow> nat" where
  "rapidhash data s0 =
     (let s = s0 XOR mix (s0 XOR secret ! 2) (secret ! 1)
      in if length data \<le> 16
         then (case rapidhash_short data s of (a, b, s') \<Rightarrow>
                 epilogue (a XOR secret ! 1) (b XOR s') (length data))
         else (case rapidhash_long data s of (a, b, s', bi) \<Rightarrow>
                 epilogue (a XOR secret ! 1) (b XOR s') bi))"

lemmas rapidhash_eval =
  rapidhash_def rapidhash_short_def rapidhash_long_def mix_def mask64_def secret_def epilogue_def
  read_small_def read64_def read32_def from_bytes_little_def Let_def drop_bit_eq_div
  push_bit_eq_mult numeral_3_eq_3 [symmetric]

section \<open>The same hash in machine registers\<close>

text \<open>
  The reference works on bytes and 64-bit words, where sums and products wrap around and a product
  of two words is a 128-bit word. It consumes the input block by block, keeps the seven lanes as a
  list, and treats the ladder as a fold; short inputs up to 112 bytes need no case of their own,
  because the exclusive or of seven equal lanes is the lane.
\<close>

definition secret_w :: "nat \<Rightarrow> 64 word" where
  "secret_w k = word_of_nat (secret ! k)"

definition mul_w :: "64 word \<Rightarrow> 64 word \<Rightarrow> 128 word" where
  "mul_w a b = ucast a * ucast b"

definition mix_w :: "64 word \<Rightarrow> 64 word \<Rightarrow> 64 word" where
  "mix_w a b = ucast (mul_w a b) XOR ucast (drop_bit 64 (mul_w a b))"

definition load_le :: "8 word list \<Rightarrow> 64 word" where
  "load_le bs = foldr (\<lambda>b n. ucast b + 256 * n) bs 0"

definition lane_w :: "8 word list \<Rightarrow> nat \<Rightarrow> nat \<Rightarrow> 64 word \<Rightarrow> 64 word" where
  "lane_w d offset k s =
     mix_w (load_le (take 8 (drop offset d)) XOR secret_w k) (load_le (take 8 (drop (offset + 8) d)) XOR s)"

definition round_w :: "8 word list \<Rightarrow> 64 word list \<Rightarrow> 64 word list" where
  "round_w d ls = map (\<lambda>k. lane_w d (16 * k) k (ls ! k)) [0..<7]"

function blocks_w :: "8 word list \<Rightarrow> 64 word list \<Rightarrow> 8 word list \<times> 64 word list" where
  "blocks_w d ls = (if length d \<le> 112 then (d, ls) else blocks_w (drop 112 d) (round_w d ls))"
  by pat_completeness auto
termination
  by (relation "measure (\<lambda>(d, ls). length d)") auto

declare blocks_w.simps [simp del]

definition tail_w :: "8 word list \<Rightarrow> 64 word \<Rightarrow> 64 word" where
  "tail_w r s = fold (\<lambda>(offset, k) t. if offset + 16 < length r then lane_w r offset k t else t)
     [(0, 2), (16, 2), (32, 1), (48, 1), (64, 2), (80, 1)] s"

definition final_w :: "64 word \<Rightarrow> 64 word \<Rightarrow> 64 word \<Rightarrow> 64 word" where
  "final_w a b i =
     mix_w (ucast (mul_w a b) XOR secret_w 7) (ucast (drop_bit 64 (mul_w a b)) XOR secret_w 1 XOR i)"

definition small_w :: "8 word list \<Rightarrow> 64 word" where
  "small_w d = ucast (last d) OR push_bit 40 (ucast (push_bit 5 (hd d)))
     OR push_bit 48 (ucast (drop_bit 3 (hd d)))"

definition rapidhash_ref :: "8 word list \<Rightarrow> 64 word \<Rightarrow> 64 word" where
  "rapidhash_ref d s0 =
     (let n = length d; s = s0 XOR mix_w (s0 XOR secret_w 2) (secret_w 1)
      in if n \<le> 16 then
           (let (a, b, t) =
              (if n \<ge> 8 then (load_le (take 8 d), load_le (drop (n - 8) d), s XOR word_of_nat n)
               else if n \<ge> 4 then (load_le (take 4 d), load_le (drop (n - 4) d), s XOR word_of_nat n)
               else if n > 0 then (small_w d, ucast (d ! (n div 2)), s) else (0, 0, s))
            in final_w (a XOR secret_w 1) (b XOR t) (word_of_nat n))
         else
           (let (r, ls) = blocks_w d (replicate 7 s);
                t = tail_w r (fold (XOR) ls 0);
                i = word_of_nat (length r)
            in final_w (load_le (take 8 (drop (n - 16) d)) XOR i XOR secret_w 1)
                 (load_le (drop (n - 8) d) XOR t) i))"

section \<open>Agreement\<close>

lemma mask64_take_bit: "n AND mask64 = take_bit 64 n"
proof -
  have "mask64 = mask 64" by (simp add: mask64_def mask_eq_exp_minus_1)
  then show ?thesis by (simp add: take_bit_eq_mask)
qed

lemma unat_bound: "unat (w :: 'a :: len word) < 2 ^ LENGTH('a)"
  by (rule unsigned_less)

lemma take_bit_128 [simp]: "take_bit 128 (unat (w :: 64 word)) = unat w"
  by (rule take_bit_nat_eq_self) (rule less_trans [OF unat_bound], simp)

lemma unat_mul_w: "unat (mul_w a b) = unat a * unat b"
proof -
  have "unat a * unat b < 2 ^ 64 * 2 ^ 64"
    using unat_bound [of a] unat_bound [of b] by (intro mult_strict_mono) auto
  then have b: "unat a * unat b < 2 ^ 128" by simp
  have "unat (ucast a * ucast b :: 128 word) = (unat (ucast a :: 128 word) * unat (ucast b :: 128 word)) mod 2 ^ 128"
    by (simp add: unat_word_ariths)
  then show ?thesis using b by (simp add: mul_w_def unsigned_ucast_eq)
qed

lemma unat_low: "unat (ucast (m :: 128 word) :: 64 word) = unat m AND mask64"
  by (simp add: mask64_take_bit unsigned_ucast_eq)

lemma unat_high: "unat (ucast (drop_bit 64 m) :: 64 word) = drop_bit 64 (unat (m :: 128 word))"
proof -
  have "unat m < 2 ^ 128" using unat_bound [of m] by simp
  then have "take_bit 128 (unat m) = unat m" and "drop_bit 64 (unat m) < 2 ^ 64"
    by (simp_all add: drop_bit_eq_div less_mult_imp_div_less take_bit_nat_eq_self)
  then show ?thesis
    by (simp add: unsigned_ucast_eq unsigned_drop_bit_eq take_bit_nat_eq_self)
qed

lemma unat_mix_w: "unat (mix_w a b) = mix (unat a) (unat b)"
  by (simp only: mix_w_def mix_def Let_def unsigned_xor_eq unat_high) (simp only: unat_low unat_mul_w)

lemma unat_secret_w [simp]: "k < 8 \<Longrightarrow> unat (secret_w k) = secret ! k"
proof -
  assume "k < 8"
  then have "k \<in> set [0..<8]" by simp
  then show ?thesis
    by (auto simp: secret_w_def secret_def upt_rec unat_of_nat)
qed

lemma from_bytes_little_bound:
  "from_bytes_little (map unat (bs :: 8 word list)) < 256 ^ length bs"
proof (induction bs)
  case Nil
  then show ?case by (simp add: from_bytes_little_def)
next
  case (Cons b bs)
  have "unat b < 256" using unat_bound [of b] by simp
  with Cons show ?case by (simp add: from_bytes_little_def)
qed

lemma unat_load_le:
  "length bs \<le> 8 \<Longrightarrow> unat (load_le bs) = from_bytes_little (map unat bs)"
proof (induction bs)
  case Nil
  then show ?case by (simp add: from_bytes_little_def load_le_def)
next
  case (Cons b bs)
  have IH: "unat (load_le bs) = from_bytes_little (map unat bs)" using Cons by simp
  have len: "length bs \<le> 7" using Cons.prems by simp
  have fb: "from_bytes_little (map unat bs) < 256 ^ 7"
    using from_bytes_little_bound [of bs] power_increasing [OF len, of "256 :: nat"] by simp
  have b: "unat b < 256" using unat_bound [of b] by simp
  have "unat (load_le (b # bs)) = (unat b + 256 * unat (load_le bs)) mod 2 ^ 64"
    by (simp add: load_le_def unat_word_ariths unsigned_ucast_eq take_bit_nat_eq_self mod_simps
        less_trans [OF b])
  also have "\<dots> = unat b + 256 * from_bytes_little (map unat bs)"
    using fb b IH by simp
  finally show ?case by (simp add: from_bytes_little_def)
qed

lemma read64_load_le: "read64 (map unat d) offset = unat (load_le (take 8 (drop offset d)))"
  by (simp add: read64_def unat_load_le take_map drop_map)

lemma read32_load_le: "read32 (map unat d) offset = unat (load_le (take 4 (drop offset d)))"
  by (simp add: read32_def unat_load_le take_map drop_map)

lemma ladder_step_lane_w:
  "k < 8 \<Longrightarrow> ladder_step (map unat d) offset k (unat s) = unat (lane_w d offset k s)"
  by (simp add: ladder_step_def lane_w_def unat_mix_w unsigned_xor_eq read64_load_le)

text \<open>One round, the block loop, the merge of the lanes and the ladder.\<close>

definition lanes_of :: "64 word list \<Rightarrow> lanes" where
  "lanes_of ls = \<lparr>seed = unat (ls ! 0), see1 = unat (ls ! 1), see2 = unat (ls ! 2),
     see3 = unat (ls ! 3), see4 = unat (ls ! 4), see5 = unat (ls ! 5), see6 = unat (ls ! 6)\<rparr>"

lemma mix_lane_w:
  "k < 8 \<Longrightarrow> mix (read64 (map unat d) p XOR secret ! k) (read64 (map unat d) (p + 8) XOR unat s) =
     unat (lane_w d p k s)"
  using ladder_step_lane_w by (simp add: ladder_step_def)

lemma lane_w_drop: "lane_w (drop p d) offset k s = lane_w d (p + offset) k s"
  by (simp add: lane_w_def ac_simps)

lemma round_w_nth: "k < 7 \<Longrightarrow> round_w d ls ! k = lane_w d (16 * k) k (ls ! k)"
  by (simp add: round_w_def)

lemma length_round_w [simp]: "length (round_w d ls) = 7"
  by (simp add: round_w_def)

lemma block_round_w:
  "block_round (map unat d) p (lanes_of ls) = lanes_of (round_w (drop p d) ls)"
proof -
  have "mix (read64 (map unat d) (p + 16 * k) XOR secret ! k)
      (read64 (map unat d) (p + 16 * k + 8) XOR unat (ls ! k)) = unat (round_w (drop p d) ls ! k)"
    if "k < 7" for k
    using that mix_lane_w [of k d "p + 16 * k" "ls ! k"] by (simp add: round_w_nth lane_w_drop)
  from this [of 0] this [of 1] this [of 2] this [of 3] this [of 4] this [of 5] this [of 6]
  show ?thesis by (simp add: block_round_def lanes_of_def add.assoc)
qed

lemma block_loop_w:
  assumes "p + i = length d"
  shows "block_loop (map unat d) p i (lanes_of ls) =
    (case blocks_w (drop p d) ls of (r, ls') \<Rightarrow> (length d - length r, length r, lanes_of ls'))"
  using assms
proof (induction i arbitrary: p ls rule: less_induct)
  case (less i)
  have len: "length (drop p d) = i" using less.prems by simp
  show ?case
  proof (cases "i \<le> 112")
    case True
    with less.prems len show ?thesis
      by (simp add: block_loop.simps [of _ p i] blocks_w.simps [of "drop p d"])
  next
    case False
    then have "block_loop (map unat d) (p + 112) (i - 112) (lanes_of (round_w (drop p d) ls)) =
        (case blocks_w (drop (p + 112) d) (round_w (drop p d) ls) of
           (r, ls') \<Rightarrow> (length d - length r, length r, lanes_of ls'))"
      using less.prems by (intro less.IH) auto
    with False len show ?thesis
      by (simp add: block_loop.simps [of _ p i] blocks_w.simps [of "drop p d"] block_round_w
          add.commute)
  qed
qed

lemma blocks_w_length: "length ls = 7 \<Longrightarrow> blocks_w d ls = (r, ls') \<Longrightarrow> length ls' = 7"
proof (induction d ls rule: blocks_w.induct)
  case (1 d ls)
  then show ?case by (auto simp: blocks_w.simps [of d] split: if_splits)
qed

lemma blocks_w_suffix:
  "blocks_w d ls = (r, ls') \<Longrightarrow> r = drop (length d - length r) d \<and> length r \<le> 112 \<and> length r \<le> length d"
proof (induction d ls rule: blocks_w.induct)
  case (1 d ls)
  show ?case
  proof (cases "length d \<le> 112")
    case True
    with "1.prems" show ?thesis by (auto simp: blocks_w.simps [of d])
  next
    case False
    with "1.prems" have "blocks_w (drop 112 d) (round_w d ls) = (r, ls')"
      by (simp add: blocks_w.simps [of d])
    with "1.IH" [OF False] have
      r: "r = drop (length (drop 112 d) - length r) (drop 112 d)" "length r \<le> 112"
         "length r \<le> length (drop 112 d)"
      by blast+
    have "length (drop 112 d) - length r + 112 = length d - length r"
      using r(3) False by simp
    with r show ?thesis by (metis diff_le_self drop_drop le_trans length_drop)
  qed
qed

lemma fold_xor_7:
  "length ls = 7 \<Longrightarrow> fold (XOR) ls 0 =
     ls ! 0 XOR ls ! 1 XOR ls ! 2 XOR ls ! 3 XOR ls ! 4 XOR ls ! 5 XOR (ls ! 6 :: 64 word)"
  by (auto simp: numeral_eq_Suc length_Suc_conv ac_simps)

lemma merge_lanes_w: "length ls = 7 \<Longrightarrow> merge_lanes (lanes_of ls) = unat (fold (XOR) ls 0)"
  by (simp add: merge_lanes_def lanes_of_def fold_xor_7 Let_def unsigned_xor_eq ac_simps)

lemma fold_xor_replicate_7: "fold (XOR) (replicate 7 s) 0 = (s :: 64 word)"
  by (simp add: numeral_eq_Suc flip: xor.assoc)

lemma ladder_w:
  "ladder (map unat d) p (length (drop p d)) (unat s) = unat (tail_w (drop p d) s)"
  by (simp add: ladder_def tail_w_def ladder_step_lane_w lane_w_drop Let_def)

lemma unat_final_w:
  "i < 2 ^ 64 \<Longrightarrow> unat (final_w a b (word_of_nat i)) = epilogue (unat a) (unat b) i"
proof -
  assume i: "i < 2 ^ 64"
  have low: "unat (ucast (mul_w a b) XOR secret_w 7 :: 64 word) = (unat a * unat b AND mask64) XOR secret ! 7"
    by (simp only: unsigned_xor_eq unat_low unat_mul_w) simp
  have high: "unat (ucast (drop_bit 64 (mul_w a b)) XOR secret_w 1 XOR word_of_nat i :: 64 word) =
      drop_bit 64 (unat a * unat b) XOR secret ! 1 XOR i"
    using i by (simp only: unsigned_xor_eq unat_high unat_mul_w) (simp add: unat_of_nat)
  have "drop_bit 64 (unat a * unat b) XOR secret ! 1 XOR i < 2 ^ 64"
    using unat_bound [of "ucast (drop_bit 64 (mul_w a b)) XOR secret_w 1 XOR word_of_nat i :: 64 word"]
    unfolding high by simp
  then have masked: "(drop_bit 64 (unat a * unat b) XOR secret ! 1 XOR i) AND mask64 =
      drop_bit 64 (unat a * unat b) XOR secret ! 1 XOR i"
    unfolding mask64_take_bit by (rule take_bit_nat_eq_self)
  show ?thesis
    unfolding final_w_def unat_mix_w low high epilogue_def mix_def Let_def masked ..
qed

lemma unat_push_ucast:
  assumes "k \<le> 56"
  shows "unat (push_bit k (ucast (b :: 8 word)) :: 64 word) = push_bit k (unat b)"
proof -
  have b: "unat b < 2 ^ 8" using unat_bound [of b] by simp
  then have "take_bit 64 (unat b) = unat b" by (intro take_bit_nat_eq_self) simp
  moreover have "take_bit 64 (push_bit k (unat b)) = push_bit k (unat b)"
  proof (rule take_bit_nat_eq_self)
    have "unat b * 2 ^ k < 2 ^ 8 * 2 ^ k" using b by simp
    also have "(2 :: nat) ^ 8 * 2 ^ k = 2 ^ (8 + k)" by (simp only: power_add)
    also have "(2 :: nat) ^ (8 + k) \<le> 2 ^ 64" using assms by (intro power_increasing) auto
    finally show "push_bit k (unat b) < 2 ^ 64" by (simp add: push_bit_eq_mult)
  qed
  ultimately show ?thesis by (simp add: unsigned_push_bit_eq unsigned_ucast_eq)
qed

lemma read_small_w:
  assumes "d \<noteq> []"
  shows "read_small (map unat d) (length d) = unat (small_w d)"
proof -
  have l: "map unat d ! (length d - 1) = unat (last d)" and h: "map unat d ! 0 = unat (hd d)"
    using assms by (simp_all add: last_conv_nth hd_conv_nth)
  have l64: "unat (ucast (last d) :: 64 word) = unat (last d)"
    using unat_push_ucast [of 0 "last d"] by simp
  have p5: "push_bit 5 (unat (hd d)) AND 0xFF = unat (push_bit 5 (hd d) :: 8 word)"
  proof -
    have "push_bit 5 (unat (hd d)) AND 0xFF = take_bit 8 (push_bit 5 (unat (hd d)))"
      by (simp add: take_bit_eq_mask mask_eq_exp_minus_1)
    then show ?thesis by (simp add: unsigned_push_bit_eq)
  qed
  have d3: "drop_bit 3 (unat (hd d)) = unat (drop_bit 3 (hd d) :: 8 word)"
  proof -
    have "take_bit 8 (unat (hd d)) = unat (hd d)"
      using unat_bound [of "hd d"] by (intro take_bit_nat_eq_self) simp
    then show ?thesis by (simp add: unsigned_drop_bit_eq)
  qed
  show ?thesis
    unfolding read_small_def small_w_def Let_def l h p5 d3
    by (simp only: unsigned_or_eq unat_push_ucast l64)
qed

lemma lanes_of_replicate: "lanes_of (replicate 7 s) = \<lparr>seed = unat s, see1 = unat s, see2 = unat s,
    see3 = unat s, see4 = unat s, see5 = unat s, see6 = unat s\<rparr>"
  by (simp add: lanes_of_def)

lemma rapidhash_long_w:
  assumes "blocks_w d (replicate 7 s) = (r, ls)" and "16 < length d"
  shows "rapidhash_long (map unat d) (unat s) =
    (unat (load_le (take 8 (drop (length d - 16) d))) XOR length r,
     unat (load_le (drop (length d - 8) d)),
     unat (tail_w r (fold (XOR) ls 0)), length r)"
proof -
  have len: "length ls = 7" using blocks_w_length [OF _ assms(1)] by simp
  have r: "drop (length d - length r) d = r" "length r \<le> length d"
    using blocks_w_suffix [OF assms(1)] by auto
  have loop: "block_loop (map unat d) 0 (length d) (lanes_of (replicate 7 s)) =
      (length d - length r, length r, lanes_of ls)"
    using block_loop_w [of 0 "length d" d "replicate 7 s"] assms(1) by simp
  have lad: "ladder (map unat d) (length d - length r) (length r) (unat t) = unat (tail_w r t)" for t
    using ladder_w [of d "length d - length r" t] r by simp
  have rd: "read64 (map unat d) (length d - 8) = unat (load_le (drop (length d - 8) d))"
    using read64_load_le [of d "length d - 8"] by simp
  show ?thesis
  proof (cases "112 < length d")
    case True
    with loop lad rd r show ?thesis
      by (simp add: rapidhash_long_def lanes_of_replicate [symmetric] merge_lanes_w len
          read64_load_le)
  next
    case False
    with assms(1) have "r = d" "ls = replicate 7 s"
      by (simp_all add: blocks_w.simps [of d])
    then have "fold (XOR) ls 0 = s" by (simp only: fold_xor_replicate_7)
    with False lad rd \<open>r = d\<close> show ?thesis
      by (simp add: rapidhash_long_def read64_load_le)
  qed
qed

lemma rapidhash_w:
  "rapidhash (map unat d) (unat s0) = unat (rapidhash_ref d s0)"
proof -
  define s where "s = s0 XOR mix_w (s0 XOR secret_w 2) (secret_w 1)"
  have us: "unat s0 XOR mix (unat s0 XOR secret ! 2) (secret ! 1) = unat s"
    by (simp add: s_def unsigned_xor_eq unat_mix_w)
  show ?thesis
  proof (cases "length d \<le> 16")
    case True
    have byte: "take_bit 64 (unat (b :: 8 word)) = unat b" for b
      by (rule take_bit_nat_eq_self) (rule less_trans [OF unat_bound], simp)
    show ?thesis
      using True read_small_w [of d] read64_load_le [of d 0] read32_load_le [of d 0]
        read64_load_le [of d "length d - 8"] read32_load_le [of d "length d - 4"]
        unat_final_w [of 0 "secret_w 1" s, simplified]
      by (auto simp: rapidhash_def rapidhash_ref_def us rapidhash_short_def unat_final_w byte
          unsigned_xor_eq unat_of_nat unsigned_ucast_eq Let_def unat_mix_w s_def)
  next
    case False
    obtain r ls where b: "blocks_w d (replicate 7 s) = (r, ls)" by fastforce
    have "length r < 2 ^ 64" using blocks_w_suffix [OF b] by auto
    then have "rapidhash (map unat d) (unat s0) =
        unat (final_w (load_le (take 8 (drop (length d - 16) d)) XOR word_of_nat (length r) XOR secret_w 1)
          (load_le (drop (length d - 8) d) XOR tail_w r (fold (XOR) ls 0)) (word_of_nat (length r)))"
      using False rapidhash_long_w [OF b]
      by (simp add: rapidhash_def us unat_final_w unsigned_xor_eq unat_of_nat Let_def xor.assoc
          del: One_nat_def)
    with False b show ?thesis
      by (simp add: rapidhash_ref_def Let_def s_def del: One_nat_def)
  qed
qed

text \<open>Hence the hash of any bytes with a 64-bit seed is a 64-bit number.\<close>

lemma rapidhash_bound:
  assumes "\<forall>b \<in> set data. b < 256" and "s < 2 ^ 64"
  shows "rapidhash data s < 2 ^ 64"
proof -
  define d :: "8 word list" where "d = map word_of_nat data"
  have "map unat d = data"
    using assms(1) by (auto simp: d_def unat_of_nat intro!: map_idI)
  moreover have "unat (word_of_nat s :: 64 word) = s"
    using assms(2) by (simp add: unat_of_nat)
  ultimately have "rapidhash data s = unat (rapidhash_ref d (word_of_nat s))"
    using rapidhash_w [of d "word_of_nat s"] by simp
  then show ?thesis using unat_bound [of "rapidhash_ref d (word_of_nat s)"] by simp
qed

section \<open>Properties\<close>

text \<open>
  C9 (rapidhash_registers). For every byte string and every 64-bit seed, the port on unbounded
  integers computes exactly what the algorithm computes in 64-bit registers with 128-bit products:
  every mask and shift of the port does what the register would.
\<close>

theorem rapidhash_registers:
  "rapidhash (map unat d) (unat s) = unat (rapidhash_ref d s)"
  by (rule rapidhash_w)

end
