(* ===== verification/Percentages.thy ===== *)
theory Percentages
  imports Config_Types Rapidhash
begin

text \<open>
  Percentage rollouts: \<open>percent_hashing.py\<close> and the loop over the buckets of
  \<open>_evaluate_percentage\<close> in \<open>config_evaluator.py\<close>. The lemmas say which bucket a
  percentile falls into, what share of the percentiles a bucket gets, and that a bucket that grows
  keeps those it had.
\<close>

section \<open>Percentiles\<close>

definition hash_seed :: nat where
  "hash_seed = 0x397832987"

definition percentage_without_identifier :: pyfloat where
  "percentage_without_identifier = Finite 0"

definition hash_input :: "pystr \<Rightarrow> pystr \<Rightarrow> pystr \<Rightarrow> pystr" where
  "hash_input config_id context_identifier context_kind =
     (let user_kind_input = context_identifier @ py ''-'' @ config_id
      in if context_kind = default_kind then user_kind_input
         else user_kind_input @ py '':'' @ context_kind)"

definition assign_percentage :: "pystr \<Rightarrow> pystr \<Rightarrow> pystr \<Rightarrow> pyfloat result" where
  "assign_percentage config_id context_identifier context_kind =
     bindE (utf8_encode (hash_input config_id context_identifier context_kind))
       (\<lambda>bytes. Inr (fl_div_finite (of_nat (rapidhash bytes hash_seed mod 1000)) 10))"

section \<open>Buckets\<close>

text \<open>The loop over the buckets; \<open>before\<close> is the \<open>total\<close> of the source, the sum of the percentages before.\<close>

fun pick_bucket :: "pyfloat \<Rightarrow> pyfloat \<Rightarrow> percentage list \<Rightarrow> percentage option" where
  "pick_bucket assigned before [] = None"
| "pick_bucket assigned before (p # ps) =
     (if fl_less assigned (fl_add (pct_percentage p) before) then Some p
      else pick_bucket assigned (fl_add before (pct_percentage p)) ps)"

text \<open>The percentiles: \<open>k / 10\<close> for \<open>k < 1000\<close>, rounded.\<close>

definition percentile :: "nat \<Rightarrow> pyfloat" where
  "percentile k = fl_div_finite (of_nat k) 10"

section \<open>Which bucket a percentile falls into\<close>

text \<open>
  The loop invariant: the percentile is not below the sum of the buckets passed. A bucket of zero
  percent leaves that sum unchanged, so it is never chosen.
\<close>

lemma pick_bucket_nonzero:
  assumes "fl_ok before" and "\<not> fl_less a before"
    and "pick_bucket a before ps = Some b"
  shows "pct_percentage b \<noteq> Finite 0"
  using assms
proof (induction ps arbitrary: before)
  case Nil
  then show ?case by simp
next
  case (Cons p ps)
  show ?case
  proof (cases "fl_less a (fl_add (pct_percentage p) before)")
    case True
    moreover have "pct_percentage p \<noteq> Finite 0"
    proof
      assume "pct_percentage p = Finite 0"
      then have "fl_add (pct_percentage p) before = before"
        using Cons.prems(1) fl_add_zero fl_add_commute by metis
      with True Cons.prems(2) show False by simp
    qed
    ultimately show ?thesis using Cons.prems(3) by simp
  next
    case False
    with Cons show ?thesis by (metis fl_add_commute fl_ok_add option.inject pick_bucket.simps(2))
  qed
qed

lemma percentile_finite: "k < 1000 \<Longrightarrow> \<exists>y. percentile k = Finite y"
proof -
  assume "k < 1000"
  then have "(of_nat k :: rat) < 1000" by (metis of_nat_less_iff of_nat_numeral)
  then have "\<bar>of_nat k / 10 :: rat\<bar> < 2 ^ 1023"
    using less_trans [of _ "100 :: rat" "2 ^ 1023"] by simp
  then show ?thesis
    unfolding percentile_def fl_div_finite_def by (rule round_double_finite)
qed

lemma percentile_less_iff:
  assumes "k < 1000" and "n \<le> 100"
  shows "fl_less (percentile k) (Finite (of_nat n)) \<longleftrightarrow> k < 10 * n"
proof (cases "k = 0")
  case True
  then show ?thesis by (auto simp: percentile_def fl_div_finite_def round_double_def)
next
  case False
  let ?x = "of_nat k / 10 :: rat"
  obtain y where y: "percentile k = Finite y" using percentile_finite assms by blast
  then have r: "round_double ?x = Finite y" by (simp add: percentile_def fl_div_finite_def)
  have x: "0 < ?x" "?x < 100" "?x \<noteq> 0"
    using False assms(1) by simp_all
  show ?thesis
  proof
    assume "k < 10 * n"
    then have "k + 1 \<le> 10 * n" by simp
    then have "(of_nat (k + 1) :: rat) \<le> of_nat (10 * n)" by (simp only: of_nat_le_iff)
    then have gap: "?x + 1 / 10 \<le> of_nat n" by simp
    have "?x < 2 powi 7" using x(2) by simp
    then have "ilog2 \<bar>?x\<bar> < 7" using x by (intro ilog2_le) auto
    then have "quantum_exp ?x \<le> - 46" by (simp add: quantum_exp_def)
    then have "(2 :: rat) powi quantum_exp ?x \<le> 2 powi (- 46)" by (intro power_int_increasing) auto
    moreover have "(2 :: rat) powi (- 46) < 1 / 10" by simp
    moreover have "\<bar>y - ?x\<bar> \<le> 2 powi quantum_exp ?x / 2" by (rule round_double_error [OF r])
    ultimately have "y < ?x + 1 / 10" by linarith
    with gap y show "fl_less (percentile k) (Finite (of_nat n))" by simp
  next
    assume l: "fl_less (percentile k) (Finite (of_nat n))"
    show "k < 10 * n"
    proof (rule ccontr)
      assume "\<not> k < 10 * n"
      then have "(of_nat (10 * n) :: rat) \<le> of_nat k" by (simp only: of_nat_le_iff not_less)
      then have "of_int (int n) \<le> ?x" by simp
      moreover have "\<bar>?x\<bar> < 2 ^ 53" using x by simp
      ultimately have "of_int (int n) \<le> y" using round_double_ge_int [OF r] x by blast
      with l y show False by simp
    qed
  qed
qed

lemma percentile_not_negative: "\<not> fl_less (percentile k) (Finite 0)"
proof (cases "percentile k")
  case (Finite y)
  moreover have "0 \<le> y"
    using Finite round_double_ge_0 [of "of_nat k / 10"] by (simp add: percentile_def fl_div_finite_def)
  ultimately show ?thesis by simp
next
  case (Infinite s)
  then have "s" by (auto simp: percentile_def fl_div_finite_def round_double_def Let_def split: if_splits)
  with Infinite show ?thesis by simp
qed (simp)

lemma pick_bucket_in: "pick_bucket a t ps = Some b \<Longrightarrow> b \<in> set ps"
  by (induction ps arbitrary: t) (auto split: if_splits)

text \<open>With whole percentages every sum is exact, and bucket \<open>i\<close> gets exactly its interval.\<close>

lemma pick_bucket_interval:
  assumes "map pct_percentage ps = map (\<lambda>n. Finite (of_nat n)) ns" and "s + sum_list ns \<le> 100"
    and "k < 1000" and "10 * s \<le> k" and "i < length ps" and "distinct ps"
  shows "pick_bucket (percentile k) (Finite (of_nat s)) ps = Some (ps ! i) \<longleftrightarrow>
    10 * (s + sum_list (take i ns)) \<le> k \<and> k < 10 * (s + sum_list (take (Suc i) ns))"
  using assms
proof (induction ps arbitrary: s ns i)
  case Nil
  then show ?case by simp
next
  case (Cons p ps)
  obtain n ns' where ns: "ns = n # ns'" using Cons.prems(1) by (cases ns) auto
  have p: "pct_percentage p = Finite (of_nat n)"
    and ps: "map pct_percentage ps = map (\<lambda>n. Finite (of_nat n)) ns'"
    using Cons.prems(1) ns by auto
  have sum: "s + n + sum_list ns' \<le> 100" using Cons.prems(2) ns by simp
  have add: "fl_add (pct_percentage p) (Finite (of_nat s)) = Finite (of_nat (s + n))"
    "fl_add (Finite (of_nat s)) (pct_percentage p) = Finite (of_nat (s + n))"
    using sum p fl_add_nat [of n s] fl_add_nat [of s n] by (simp_all add: add.commute)
  have less: "fl_less (percentile k) (Finite (of_nat (s + n))) \<longleftrightarrow> k < 10 * (s + n)"
    using percentile_less_iff [OF Cons.prems(3), of "s + n"] sum by simp
  have step: "pick_bucket (percentile k) (Finite (of_nat s)) (p # ps) =
      (if k < 10 * (s + n) then Some p else pick_bucket (percentile k) (Finite (of_nat (s + n))) ps)"
    by (simp only: pick_bucket.simps add less)
  show ?case
  proof (cases "k < 10 * (s + n)")
    case True
    then have "pick_bucket (percentile k) (Finite (of_nat s)) (p # ps) = Some p"
      by (simp only: step if_True)
    then show ?thesis
      using True Cons.prems(4-6) ns by (cases i) (auto simp: nth_eq_iff_index_eq)
  next
    case False
    then have st: "pick_bucket (percentile k) (Finite (of_nat s)) (p # ps) =
        pick_bucket (percentile k) (Finite (of_nat (s + n))) ps" by (simp only: step if_False)
    show ?thesis
    proof (cases i)
      case 0
      have "pick_bucket (percentile k) (Finite (of_nat (s + n))) ps \<noteq> Some p"
        using Cons.prems(6) pick_bucket_in by fastforce
      then show ?thesis using st False ns 0 by simp
    next
      case (Suc j)
      have "pick_bucket (percentile k) (Finite (of_nat (s + n))) ps = Some (ps ! j) \<longleftrightarrow>
          10 * (s + n + sum_list (take j ns')) \<le> k \<and> k < 10 * (s + n + sum_list (take (Suc j) ns'))"
        using Cons.prems False Suc by (intro Cons.IH [OF ps sum]) auto
      then show ?thesis using st ns Suc by (simp add: add.assoc)
    qed
  qed
qed

lemma pick_bucket_total:
  assumes "map pct_percentage ps = map (\<lambda>n. Finite (of_nat n)) ns" and "s + sum_list ns \<le> 100"
    and "k < 1000" and "k < 10 * (s + sum_list ns)" and "10 * s \<le> k"
  shows "\<exists>b. pick_bucket (percentile k) (Finite (of_nat s)) ps = Some b"
  using assms
proof (induction ps arbitrary: s ns)
  case Nil
  then show ?case by simp
next
  case (Cons p ps)
  obtain n ns' where ns: "ns = n # ns'" using Cons.prems(1) by (cases ns) auto
  have p: "pct_percentage p = Finite (of_nat n)"
    and ps: "map pct_percentage ps = map (\<lambda>n. Finite (of_nat n)) ns'"
    using Cons.prems(1) ns by auto
  have sum: "(s + n) + sum_list ns' \<le> 100" using Cons.prems(2) ns by simp
  have add: "fl_add (pct_percentage p) (Finite (of_nat s)) = Finite (of_nat (s + n))"
    "fl_add (Finite (of_nat s)) (pct_percentage p) = Finite (of_nat (s + n))"
    using sum p fl_add_nat [of n s] fl_add_nat [of s n] by (simp_all add: add.commute)
  show ?case
  proof (cases "k < 10 * (s + n)")
    case True
    then show ?thesis
      using percentile_less_iff [OF Cons.prems(3), of "s + n"] sum
      by (simp only: pick_bucket.simps add) simp
  next
    case False
    then have "\<exists>b. pick_bucket (percentile k) (Finite (of_nat (s + n))) ps = Some b"
      using Cons.prems ns by (intro Cons.IH [OF ps sum]) auto
    then show ?thesis by (simp only: pick_bucket.simps add) auto
  qed
qed

lemma assign_percentage_eq:
  "assign_percentage config_id identifier kind =
     (let i = hash_input config_id identifier kind
      in if list_ex is_surrogate i then Inl UnicodeEncodeError
         else Inr (percentile (rapidhash (concat (map utf8_char i)) hash_seed mod 1000)))"
  by (simp add: assign_percentage_def utf8_encode_def percentile_def Let_def)

text \<open>The floats of 0.1, 0.2 and 0.3, and the sum of the first two: a tie, rounded up to even.\<close>

lemma double_0_1: "round_double (1 / 10) = Finite (3602879701896397 / 2 ^ 55)"
  using round_doubleI [of "- 4" "1 / 10" 7205759403792794] by simp

lemma double_0_2: "round_double (2 / 10) = Finite (3602879701896397 / 2 ^ 54)"
  using round_doubleI [of "- 3" "2 / 10" 7205759403792794] by simp

lemma double_0_3: "round_double (3 / 10) = Finite (5404319552844595 / 2 ^ 54)"
  using round_doubleI [of "- 2" "3 / 10" 5404319552844595] by simp

lemma double_0_4: "round_double (4 / 10) = Finite (7205759403792794 / 2 ^ 54)"
  using round_doubleI [of "- 2" "4 / 10" 7205759403792794] by simp

lemma double_0_1_plus_0_2:
  "round_double (3602879701896397 / 2 ^ 54 + 3602879701896397 / 2 ^ 55) = Finite (5404319552844596 / 2 ^ 54)"
  (is "round_double ?x = _")
proof -
  have "ilog2 \<bar>?x\<bar> = - 2" by (rule ilog2_unique) simp_all
  then have q: "quantum_exp ?x = - 54" by (simp add: quantum_exp_def)
  have "round_half_even (?x / 2 powi (- 54)) = 5404319552844596"
    by (rule round_half_even_tie) (simp_all add: field_simps)
  then show ?thesis unfolding round_double_def q Let_def by simp
qed

text \<open>Buckets with given percentages, for the concrete statements.\<close>

definition sample_bucket :: "nat \<Rightarrow> pyfloat \<Rightarrow> percentage" where
  "sample_bucket n p = \<lparr>pct_id = nat_str n, pct_percentage = p, pct_value = Some (SInt (int n)),
     pct_value_id = None\<rparr>"

lemma pct_percentage_bucket [simp]: "pct_percentage (sample_bucket n p) = p"
  by (simp add: sample_bucket_def)

lemma bucket_eq_iff [simp]: "sample_bucket m p = sample_bucket n q \<longleftrightarrow> m = n \<and> p = q"
  by (auto simp: sample_bucket_def)

section \<open>Properties\<close>

text \<open>
  C4 (rollout_shares). With whole percentages that sum to at most 100, a bucket of \<open>n\<close> percent
  gets exactly \<open>10 * n\<close> of the 1000 percentiles: its share is exact, on either boundary.
\<close>

theorem rollout_shares:
  assumes "map pct_percentage ps = map (\<lambda>n. Finite (of_nat n)) ns" and "sum_list ns \<le> 100"
    and "i < length ps" and "distinct ps"
  shows "card {k. k < 1000 \<and> pick_bucket (percentile k) (Finite 0) ps = Some (ps ! i)} = 10 * ns ! i"
proof -
  have len: "length ns = length ps" using assms(1) by (metis length_map)
  have tk: "sum_list (take (Suc i) ns) = sum_list (take i ns) + ns ! i"
    using assms(3) len by (simp add: take_Suc_conv_app_nth)
  have "sum_list (take (Suc i) ns) \<le> sum_list ns"
    using sum_list_append [of "take (Suc i) ns" "drop (Suc i) ns"] by simp
  then have le: "10 * sum_list (take (Suc i) ns) \<le> 1000" using assms(2) by simp
  have "{k. k < 1000 \<and> pick_bucket (percentile k) (Finite 0) ps = Some (ps ! i)} =
      {10 * sum_list (take i ns)..<10 * sum_list (take (Suc i) ns)}"
    using pick_bucket_interval [OF assms(1), of 0] assms le by auto
  then show ?thesis by (simp add: tk)
qed

theorem rollout_shares_witness:
  "card {k. k < 1000 \<and> pick_bucket (percentile k) (Finite 0)
       [sample_bucket 0 (Finite 25), sample_bucket 1 (Finite 75)] = Some (sample_bucket 1 (Finite 75))} = 750"
  using rollout_shares [of "[sample_bucket 0 (Finite 25), sample_bucket 1 (Finite 75)]" "[25, 75]" 1] by simp

text \<open>
  When whole percentages sum to 100, every percentile falls into a bucket: no
  context drops out of the rollout.
\<close>

theorem rollout_covers:
  assumes "map pct_percentage ps = map (\<lambda>n. Finite (of_nat n)) ns" and "sum_list ns = 100"
    and "k < 1000"
  shows "\<exists>b. b \<in> set ps \<and> pick_bucket (percentile k) (Finite 0) ps = Some b"
  using pick_bucket_total [of ps ns 0 k] assms pick_bucket_in by fastforce

theorem rollout_covers_witness:
  "\<exists>b. b \<in> set [sample_bucket 0 (Finite 25), sample_bucket 1 (Finite 75)] \<and>
     pick_bucket (percentile 999) (Finite 0) [sample_bucket 0 (Finite 25), sample_bucket 1 (Finite 75)] = Some b"
  using rollout_covers [of "[sample_bucket 0 (Finite 25), sample_bucket 1 (Finite 75)]" "[25, 75]" 999] by simp

text \<open>
  A bucket of zero percent is never chosen, whatever the percentages
  around it and whatever the percentile, also when the sums are rounded.
\<close>

theorem zero_bucket_unreachable:
  assumes "pick_bucket (percentile k) (Finite 0) ps = Some b"
  shows "pct_percentage b \<noteq> Finite 0"
  using pick_bucket_nonzero [OF _ percentile_not_negative assms] by (simp add: fl_ok_def)

theorem zero_bucket_unreachable_witness:
  "pct_percentage (sample_bucket 1 (Finite 5)) \<noteq> Finite 0"
proof -
  have "pick_bucket (percentile 0) (Finite 0) [sample_bucket 0 (Finite 0), sample_bucket 1 (Finite 5)] =
      Some (sample_bucket 1 (Finite 5))"
    using is_double_int [of 5] by (simp add: percentile_def fl_div_finite_def)
  then show ?thesis by (rule zero_bucket_unreachable)
qed

text \<open>
  When the first bucket grows and the others make room, every percentile
  that was in the first bucket stays in it: a gradual rollout never takes a value away.
\<close>

theorem growing_rollout:
  assumes "m \<le> n" and "n \<le> 100" and "k < 1000"
    and "pick_bucket (percentile k) (Finite 0) (sample_bucket i (Finite (of_nat m)) # others) =
      Some (sample_bucket i (Finite (of_nat m)))"
    and "sample_bucket i (Finite (of_nat m)) \<notin> set others"
  shows "pick_bucket (percentile k) (Finite 0) (sample_bucket i (Finite (of_nat n)) # others') =
      Some (sample_bucket i (Finite (of_nat n)))"
proof -
  have first: "fl_add (Finite (of_nat j)) (Finite 0) = Finite (of_nat j)" if "j \<le> 100" for j
    using fl_add_nat [of j 0] that by simp
  have "fl_less (percentile k) (Finite (of_nat m))"
    using assms(1,2,4,5) first [of m] pick_bucket_in by (fastforce split: if_splits)
  then have "k < 10 * n" using percentile_less_iff [of k m] assms(1-3) by simp
  then show ?thesis using percentile_less_iff [of k n] assms(2,3) first [of n] by simp
qed

theorem growing_rollout_witness:
  "pick_bucket (percentile 99) (Finite 0) [sample_bucket 0 (Finite 20), sample_bucket 1 (Finite 80)] =
     Some (sample_bucket 0 (Finite 20))"
proof -
  have "fl_less (percentile 99) (Finite (of_nat 10))" using percentile_less_iff [of 99 10] by simp
  then have "pick_bucket (percentile 99) (Finite 0)
      (sample_bucket 0 (Finite (of_nat 10)) # [sample_bucket 1 (Finite 90)]) = Some (sample_bucket 0 (Finite (of_nat 10)))"
    using fl_add_nat [of 10 0] by simp
  from growing_rollout [OF _ _ _ this, of 20 "[sample_bucket 1 (Finite 80)]"] show ?thesis by simp
qed

text \<open>
  With fractional percentages the sums are rounded and a share need not be
  exact: in a rollout of 0.1 and 0.2 percent the percentile 0.3 still falls into the second bucket,
  which so gets three percentiles of 1000.
\<close>

theorem fractional_shares:
  "map (\<lambda>k. pick_bucket (percentile k) (Finite 0)
     [sample_bucket 0 (round_double (1 / 10)), sample_bucket 1 (round_double (2 / 10))]) [0, 1, 2, 3, 4] =
   [Some (sample_bucket 0 (round_double (1 / 10))), Some (sample_bucket 1 (round_double (2 / 10))),
    Some (sample_bucket 1 (round_double (2 / 10))), Some (sample_bucket 1 (round_double (2 / 10))), None]"
  using double_0_1 double_0_2 double_0_3 double_0_4 double_0_1_plus_0_2
    round_double_is_double [OF double_0_1]
  by (simp add: percentile_def fl_div_finite_def add.commute)

end
