(* ===== verification/Py_Regex.thy ===== *)
theory Py_Regex
  imports Py_Str
begin

text \<open>
  The backtracking semantics of Python's \<open>re\<close> for the constructs the SDK's patterns use:
  character classes, sequences, alternatives, optional parts, bounded repetition of a class,
  named groups and the two anchors. A match position is the flag "at the start of the string" with
  the rest of the string; matching returns every way to match in the order backtracking tries them,
  so the first element is the match Python reports.
\<close>

type_synonym captures = "string \<rightharpoonup> pystr"
type_synonym rx_state = "bool \<times> pystr \<times> captures"

datatype rx =
    Cls "nat \<Rightarrow> bool"
  | Many "nat \<Rightarrow> bool" nat "nat option"
  | Seq rx rx
  | Alt rx rx
  | Opt rx
  | Grp string rx
  | Bol
  | Eol

text \<open>
  \<open>Many P lo hi\<close> is greedy: the longest run first, then shorter ones down to \<open>lo\<close>.
  \<open>Eol\<close> is \<open>$\<close>: the end of the string, or just before a newline that ends it.
\<close>

fun rx_match :: "rx \<Rightarrow> rx_state \<Rightarrow> rx_state list" where
  "rx_match (Cls P) (b, s, g) =
     (case s of [] \<Rightarrow> [] | c # t \<Rightarrow> if P c then [(False, t, g)] else [])"
| "rx_match (Many P lo hi) (b, s, g) =
     (let run = length (takeWhile P s);
          n = (case hi of None \<Rightarrow> run | Some h \<Rightarrow> min run h)
      in map (\<lambda>k. (if k = 0 then b else False, drop k s, g)) (rev [lo..<Suc n]))"
| "rx_match (Seq r q) st = concat (map (rx_match q) (rx_match r st))"
| "rx_match (Alt r q) st = rx_match r st @ rx_match q st"
| "rx_match (Opt r) st = rx_match r st @ [st]"
| "rx_match (Grp n r) (b, s, g) =
     map (\<lambda>(b', t, g'). (b', t, g'(n \<mapsto> take (length s - length t) s))) (rx_match r (b, s, g))"
| "rx_match Bol (b, s, g) = (if b then [(b, s, g)] else [])"
| "rx_match Eol (b, s, g) = (if s = [] \<or> s = [10] then [(b, s, g)] else [])"

definition first_match :: "rx_state list \<Rightarrow> captures option" where
  "first_match ms = (case ms of [] \<Rightarrow> None | (_, _, g) # _ \<Rightarrow> Some g)"

text \<open>\<open>pattern.match(s)\<close>: at the start of the string.\<close>

definition re_match :: "rx \<Rightarrow> pystr \<Rightarrow> captures option" where
  "re_match r s = first_match (rx_match r (True, s, Map.empty))"

text \<open>\<open>pattern.search(s)\<close>: at the first position with a match.\<close>

fun re_search_from :: "rx \<Rightarrow> bool \<Rightarrow> pystr \<Rightarrow> captures option" where
  "re_search_from r b [] = first_match (rx_match r (b, [], Map.empty))"
| "re_search_from r b (c # s) =
     (case first_match (rx_match r (b, c # s, Map.empty)) of
        Some g \<Rightarrow> Some g
      | None \<Rightarrow> re_search_from r False s)"

definition re_search :: "rx \<Rightarrow> pystr \<Rightarrow> captures option" where
  "re_search r s = re_search_from r True s"

text \<open>A sequence of parts, and exactly \<open>n\<close> characters of a class.\<close>

fun rx_seq :: "rx list \<Rightarrow> rx" where
  "rx_seq [r] = r"
| "rx_seq (r # rs) = Seq r (rx_seq rs)"
| "rx_seq [] = Many (\<lambda>_. False) 0 None"

definition rx_times :: "(nat \<Rightarrow> bool) \<Rightarrow> nat \<Rightarrow> rx" where
  "rx_times P n = Many P n (Some n)"

definition rx_char :: "char \<Rightarrow> rx" where
  "rx_char c = Cls (\<lambda>x. x = of_char c)"

lemma first_match_simps [simp]:
  "first_match [] = None"
  "first_match ((b, t, g) # ms) = Some g"
  by (simp_all add: first_match_def)

end
