(* ===== verification/Comparisons.thy ===== *)
theory Comparisons
  imports Py_Value Py_Regex "HOL-Library.Product_Lexorder"
begin

text \<open>
  The five comparisons a targeting condition can make: \<open>text_comparison.py\<close>,
  \<open>array_comparison.py\<close>, \<open>numeric_comparison.py\<close>, \<open>semver_comparison.py\<close> and
  \<open>date_comparison.py\<close>. Each takes the resolved attribute, the operator and the target values.
\<close>

section \<open>Text\<close>

definition compare_text :: "pystr \<Rightarrow> pystr \<Rightarrow> pystr list \<Rightarrow> bool" where
  "compare_text value operator targets =
     (let op = str_lower operator
      in if op = py ''='' \<or> op = py ''equals'' then
           (case targets of [] \<Rightarrow> False | t # _ \<Rightarrow> value = t)
         else if op = py ''!='' \<or> op = py ''does not equal'' then
           (case targets of [] \<Rightarrow> False | t # _ \<Rightarrow> value \<noteq> t)
         else if op = py ''is one of'' then value \<in> set targets
         else if op = py ''is not one of'' then value \<notin> set targets
         else if op = py ''starts with any of'' then list_ex (str_startswith value) targets
         else if op = py ''does not start with any of'' then \<not> list_ex (str_startswith value) targets
         else if op = py ''ends with any of'' then list_ex (str_endswith value) targets
         else if op = py ''does not end with any of'' then \<not> list_ex (str_endswith value) targets
         else False)"

section \<open>Arrays\<close>

text \<open>The elements with a text form: nested arrays, objects and nulls are dropped.\<close>

fun text_elements :: "pyval list \<Rightarrow> pystr list result" where
  "text_elements [] = Inr []"
| "text_elements (v # vs) =
     (case v of
        PScalar sc \<Rightarrow> bindE (to_json_string sc) (\<lambda>t. bindE (text_elements vs) (\<lambda>ts. Inr (t # ts)))
      | _ \<Rightarrow> text_elements vs)"

definition compare_array :: "pyval \<Rightarrow> pystr \<Rightarrow> pystr list \<Rightarrow> bool result" where
  "compare_array value operator targets =
     (let op = str_lower operator
      in case value of
           PList vs \<Rightarrow>
             bindE (text_elements vs)
               (\<lambda>elements. Inr (
                  if op = py ''contains any of'' then list_ex (\<lambda>e. e \<in> set targets) elements
                  else if op = py ''does not contain any of'' then
                    \<not> list_ex (\<lambda>e. e \<in> set targets) elements
                  else False))
         | _ \<Rightarrow> Inr (op = py ''does not contain any of''))"

section \<open>Numbers\<close>

definition is_decimal_character :: "nat \<Rightarrow> bool" where
  "is_decimal_character c \<longleftrightarrow> is_ascii_digit c \<or> c = 43 \<or> c = 45 \<or> c = 46 \<or> c = 101 \<or> c = 69"

text \<open>
  \<open>_parse_finite\<close>: \<open>None\<close> where the value is no finite number. \<open>math.isfinite\<close> of an
  integer too large for a float raises \<open>OverflowError\<close>, before any comparison.
\<close>

definition finite_only :: "pyfloat \<Rightarrow> rat option" where
  "finite_only f = (case f of Finite x \<Rightarrow> Some x | _ \<Rightarrow> None)"

definition parse_finite :: "pyval \<Rightarrow> rat option result" where
  "parse_finite v =
     (case v of
        PBool _ \<Rightarrow> Inr None
      | PNone \<Rightarrow> Inr None
      | PInt i \<Rightarrow> bindE (float_of_int i) (\<lambda>f. Inr (finite_only f))
      | PFloat f \<Rightarrow> Inr (finite_only f)
      | PStr s \<Rightarrow>
          if s = [] \<or> \<not> list_all is_decimal_character s then Inr None
          else (case float_of_str s of
                  Inl e \<Rightarrow> if is_value_error e then Inr None else Inl e
                | Inr f \<Rightarrow> Inr (finite_only f))
      | _ \<Rightarrow> Inr None)"

definition compare_rat :: "pystr \<Rightarrow> rat \<Rightarrow> rat \<Rightarrow> bool" where
  "compare_rat op a b =
     (if op = py ''='' \<or> op = py ''equals'' then a = b
      else if op = py ''!='' \<or> op = py ''does not equal'' then a \<noteq> b
      else if op = py ''<'' then a < b
      else if op = py ''<='' then a \<le> b
      else if op = py ''>'' then a > b
      else if op = py ''>='' then a \<ge> b
      else False)"

definition compare_numeric :: "pyval \<Rightarrow> pystr \<Rightarrow> pystr list \<Rightarrow> bool result" where
  "compare_numeric value operator targets =
     (let op = str_lower operator
      in bindE (parse_finite value)
           (\<lambda>parsed. case parsed of
              None \<Rightarrow> Inr (op = py ''!='' \<or> op = py ''does not equal'')
            | Some a \<Rightarrow>
                (case targets of
                   [] \<Rightarrow> Inr False
                 | t # _ \<Rightarrow>
                     bindE (parse_finite (PStr t))
                       (\<lambda>target. case target of None \<Rightarrow> Inr False | Some b \<Rightarrow> Inr (compare_rat op a b)))))"

section \<open>Versions\<close>

text \<open>The coercion pattern, part by part.\<close>

definition coerce_rx :: rx where
  "coerce_rx = rx_seq
     [Alt Bol (Cls (\<lambda>c. \<not> is_decimal c)),
      Grp ''2'' (Many is_decimal 1 (Some 16)),
      Opt (Seq (rx_char (CHR ''.'')) (Grp ''3'' (Many is_decimal 1 (Some 16)))),
      Opt (Seq (rx_char (CHR ''.'')) (Grp ''4'' (Many is_decimal 1 (Some 16)))),
      Alt Eol (Cls (\<lambda>c. \<not> is_decimal c))]"

type_synonym version = "int \<times> int \<times> int"

text \<open>\<open>int(match.group(n) or 0)\<close>\<close>

definition group_int :: "captures \<Rightarrow> string \<Rightarrow> int \<Rightarrow> int result" where
  "group_int g n d =
     (case g n of None \<Rightarrow> Inr d | Some s \<Rightarrow> if s = [] then Inr d else int_of_str s)"

definition coerce :: "pystr \<Rightarrow> version option result" where
  "coerce value =
     (case re_search coerce_rx value of
        None \<Rightarrow> Inr None
      | Some g \<Rightarrow>
          bindE (group_int g ''2'' 0) (\<lambda>major.
          bindE (group_int g ''3'' 0) (\<lambda>minor.
          bindE (group_int g ''4'' 0) (\<lambda>patch. Inr (Some (major, minor, patch))))))"

definition versions_equal :: "version option \<Rightarrow> version option \<Rightarrow> bool" where
  "versions_equal v t = (case (v, t) of (Some a, Some b) \<Rightarrow> a = b | _ \<Rightarrow> False)"

definition versions_ordered ::
  "version option \<Rightarrow> version option \<Rightarrow> (version \<Rightarrow> version \<Rightarrow> bool) \<Rightarrow> bool" where
  "versions_ordered v t cmp = (case (v, t) of (Some a, Some b) \<Rightarrow> cmp a b | _ \<Rightarrow> False)"

definition compare_semver :: "pystr \<Rightarrow> pystr \<Rightarrow> pystr list \<Rightarrow> bool result" where
  "compare_semver value operator target_values =
     (let op = str_lower operator
      in if str_strip value = [] then Inr (op = py ''is not one of'')
         else bindE (coerce value) (\<lambda>parsed.
              bindE (mapE coerce target_values) (\<lambda>targets.
                let first = (case targets of [] \<Rightarrow> None | t # _ \<Rightarrow> t)
                in Inr (
                  if op = py ''='' then versions_equal parsed first
                  else if op = py ''<'' then versions_ordered parsed first (\<lambda>a b. a < b)
                  else if op = py ''<='' then versions_ordered parsed first (\<lambda>a b. a \<le> b)
                  else if op = py ''>'' then versions_ordered parsed first (\<lambda>a b. a > b)
                  else if op = py ''>='' then versions_ordered parsed first (\<lambda>a b. a \<ge> b)
                  else if op = py ''is one of'' then list_ex (versions_equal parsed) targets
                  else if op = py ''is not one of'' then \<not> list_ex (versions_equal parsed) targets
                  else False))))"

section \<open>Dates\<close>

definition sign_rx :: rx where
  "sign_rx = Cls (\<lambda>c. c = 43 \<or> c = 45)"

definition iso_rx :: rx where
  "iso_rx = rx_seq
     [Bol,
      Grp ''year'' (Alt (Seq sign_rx (rx_times is_decimal 6)) (rx_times is_decimal 4)),
      Opt (rx_seq [rx_char (CHR ''-''), Grp ''month'' (rx_times is_decimal 2),
        Opt (Seq (rx_char (CHR ''-'')) (Grp ''day'' (rx_times is_decimal 2)))]),
      Opt (rx_seq [rx_char (CHR ''T''), Grp ''hour'' (rx_times is_decimal 2), rx_char (CHR '':''),
        Grp ''minute'' (rx_times is_decimal 2),
        Opt (rx_seq [rx_char (CHR '':''), Grp ''second'' (rx_times is_decimal 2),
          Opt (Seq (rx_char (CHR ''.'')) (Grp ''fraction'' (Many is_decimal 1 None)))]),
        Opt (Grp ''offset'' (Alt (Cls (\<lambda>c. c = 90 \<or> c = 122))
          (rx_seq [sign_rx, rx_times is_decimal 2, rx_char (CHR '':''), rx_times is_decimal 2])))]),
      Eol]"

text \<open>
  An aware \<open>datetime\<close> compares by its instant, here in milliseconds since 0001-01-01 UTC. The
  constructor raises \<open>ValueError\<close> on a component out of range; \<open>timezone\<close> raises it on
  an offset of a day or more.
\<close>

definition is_leap :: "int \<Rightarrow> bool" where
  "is_leap y \<longleftrightarrow> y mod 4 = 0 \<and> (y mod 100 \<noteq> 0 \<or> y mod 400 = 0)"

definition days_in_month :: "int \<Rightarrow> int \<Rightarrow> int" where
  "days_in_month y m =
     (if m = 2 then (if is_leap y then 29 else 28) else if m \<in> {4, 6, 9, 11} then 30 else 31)"

definition days_before_year :: "int \<Rightarrow> int" where
  "days_before_year y = (let p = y - 1 in p * 365 + p div 4 - p div 100 + p div 400)"

definition days_before_month :: "int \<Rightarrow> int \<Rightarrow> int" where
  "days_before_month y m = sum_list (map (\<lambda>k. days_in_month y (int k)) [1..<nat m])"

definition datetime_millis ::
  "int \<Rightarrow> int \<Rightarrow> int \<Rightarrow> int \<Rightarrow> int \<Rightarrow> int \<Rightarrow> int \<Rightarrow> int \<Rightarrow> int result" where
  "datetime_millis year month day hour minute second milli offset_minutes =
     (if 1 \<le> year \<and> year \<le> 9999 \<and> 1 \<le> month \<and> month \<le> 12
         \<and> 1 \<le> day \<and> day \<le> days_in_month year month
         \<and> 0 \<le> hour \<and> hour \<le> 23 \<and> 0 \<le> minute \<and> minute \<le> 59 \<and> 0 \<le> second \<and> second \<le> 59
      then Inr ((((days_before_year year + days_before_month year month + day - 1) * 24 + hour) * 60
                 + minute - offset_minutes) * 60000 + second * 1000 + milli)
      else Inl ValueError)"

definition timezone_minutes :: "int \<Rightarrow> int result" where
  "timezone_minutes m = (if - 1440 < m \<and> m < 1440 then Inr m else Inl ValueError)"

text \<open>\<open>offset[1:3]\<close> and \<open>offset[4:6]\<close> of a matched offset such as \<open>+05:30\<close>.\<close>

definition offset_minutes_of :: "captures \<Rightarrow> int result" where
  "offset_minutes_of g =
     (case g ''offset'' of
        None \<Rightarrow> Inr 0
      | Some off \<Rightarrow>
          if off = [] \<or> off = py ''Z'' \<or> off = py ''z'' then Inr 0
          else bindE (int_of_str (take 2 (drop 1 off))) (\<lambda>hours.
               bindE (int_of_str (take 2 (drop 4 off))) (\<lambda>minutes.
                 timezone_minutes ((if hd off = 45 then - 1 else 1) * (hours * 60 + minutes)))))"

text \<open>\<open>fraction[:3].ljust(3, "0")\<close>, read as milliseconds.\<close>

definition fraction_millis :: "captures \<Rightarrow> int result" where
  "fraction_millis g =
     (case g ''fraction'' of
        None \<Rightarrow> Inr 0
      | Some f \<Rightarrow> if f = [] then Inr 0
          else int_of_str (take 3 f @ replicate (3 - length (take 3 f)) 48))"

text \<open>
  \<open>_parse_date\<close>. The time zone is built before the \<open>try\<close>, so its \<open>ValueError\<close>
  leaves the function; an error of the components is caught and means "not a date".
\<close>

definition parse_date :: "pystr \<Rightarrow> int option result" where
  "parse_date value =
     (case re_match iso_rx value of
        None \<Rightarrow> Inr None
      | Some g \<Rightarrow>
          bindE (offset_minutes_of g) (\<lambda>tz.
            case (bindE (group_int g ''year'' 0) (\<lambda>y.
                  bindE (group_int g ''month'' 1) (\<lambda>mo.
                  bindE (group_int g ''day'' 1) (\<lambda>d.
                  bindE (group_int g ''hour'' 0) (\<lambda>h.
                  bindE (group_int g ''minute'' 0) (\<lambda>mi.
                  bindE (group_int g ''second'' 0) (\<lambda>s.
                  bindE (fraction_millis g) (\<lambda>ms. datetime_millis y mo d h mi s ms tz)))))))) of
              Inl e \<Rightarrow> if is_value_error e then Inr None else Inl e
            | Inr t \<Rightarrow> Inr (Some t)))"

definition compare_date :: "pystr \<Rightarrow> pystr \<Rightarrow> pystr list \<Rightarrow> bool result" where
  "compare_date value operator targets =
     (case targets of
        [] \<Rightarrow> Inr False
      | t # _ \<Rightarrow>
          bindE (parse_date value) (\<lambda>pv.
          bindE (parse_date t) (\<lambda>pt.
            case (pv, pt) of
              (Some a, Some b) \<Rightarrow>
                Inr (if operator = py ''is after'' then a > b
                     else if operator = py ''is before'' then a < b else False)
            | _ \<Rightarrow> Inr False)))"

section \<open>Operators and their negations\<close>

text \<open>
  The interface the conditions rely on: a comparison with an operator and the operator that
  negates it.
\<close>

locale negated_operator =
  fixes cmp :: "'v \<Rightarrow> pystr \<Rightarrow> pystr list \<Rightarrow> bool result" and pos neg :: pystr
  assumes negates: "cmp v neg ts = notE (cmp v pos ts)"
begin

lemma never_both: "\<not> (cmp v pos ts = Inr True \<and> cmp v neg ts = Inr True)"
  by (auto simp: negates)

lemma one_of_both: "cmp v pos ts = Inr b \<Longrightarrow> cmp v pos ts = Inr True \<or> cmp v neg ts = Inr True"
  by (cases b) (auto simp: negates)

lemma raises_together: "cmp v pos ts = Inl e \<longleftrightarrow> cmp v neg ts = Inl e"
  by (cases "cmp v pos ts") (auto simp: negates)

lemma negates_pos: "cmp v pos ts = notE (cmp v neg ts)"
  by (simp add: negates)

end

interpretation text_one_of: negated_operator "\<lambda>v op ts. Inr (compare_text v op ts)"
  "py ''is one of''" "py ''is not one of''"
  by unfold_locales (simp add: compare_text_def str_lower_def lower_char_def Let_def)

interpretation text_starts: negated_operator "\<lambda>v op ts. Inr (compare_text v op ts)"
  "py ''starts with any of''" "py ''does not start with any of''"
  by unfold_locales (simp add: compare_text_def str_lower_def lower_char_def Let_def)

interpretation text_ends: negated_operator "\<lambda>v op ts. Inr (compare_text v op ts)"
  "py ''ends with any of''" "py ''does not end with any of''"
  by unfold_locales (simp add: compare_text_def str_lower_def lower_char_def Let_def)

interpretation array_contains: negated_operator compare_array
  "py ''contains any of''" "py ''does not contain any of''"
  by unfold_locales
    (auto simp: compare_array_def str_lower_def lower_char_def Let_def notE_bindE split: pyval.splits scalar.splits)

interpretation semver_one_of: negated_operator compare_semver "py ''is one of''" "py ''is not one of''"
  by unfold_locales (simp add: compare_semver_def str_lower_def lower_char_def Let_def notE_bindE)

section \<open>Orders\<close>

lemma compare_numeric_finite:
  assumes "parse_finite v = Inr (Some a)" and "parse_finite (PStr t) = Inr (Some b)"
  shows "compare_numeric v op (t # ts) = Inr (compare_rat (str_lower op) a b)"
  using assms by (simp add: compare_numeric_def)

lemma compare_numeric_missing:
  assumes "parse_finite v = Inr None"
  shows "compare_numeric v op ts = Inr (str_lower op = py ''!='' \<or> str_lower op = py ''does not equal'')"
  using assms by (simp add: compare_numeric_def Let_def)

lemma compare_semver_versions:
  assumes "coerce v = Inr (Some a)" and "str_strip v \<noteq> []"
    and "mapE coerce (t # ts) = Inr (Some b # bs)"
  shows "compare_semver v (py ''='') (t # ts) = Inr (a = b)"
    and "compare_semver v (py ''<'') (t # ts) = Inr (a < b)"
    and "compare_semver v (py ''<='') (t # ts) = Inr (a \<le> b)"
    and "compare_semver v (py ''>'') (t # ts) = Inr (a > b)"
    and "compare_semver v (py ''>='') (t # ts) = Inr (a \<ge> b)"
  using assms by (simp_all add: compare_semver_def versions_equal_def versions_ordered_def Let_def
      str_lower_def lower_char_def)

lemma int_str_decimal_characters: "int_str i \<noteq> [] \<and> list_all is_decimal_character (int_str i)"
  using nat_str_digits [of "nat (- i)"] nat_str_digits [of "nat i"]
  by (auto simp: int_str_def is_decimal_character_def list_all_iff)

lemma parse_finite_int:
  assumes "\<bar>i\<bar> < 2 ^ 53"
  shows "parse_finite (PInt i) = Inr (Some (of_int i))"
    and "parse_finite (PStr (int_str i)) = Inr (Some (of_int i))"
  using assms int_str_decimal_characters [of i]
  by (simp_all add: parse_finite_def float_of_int_def finite_only_def float_of_str_int_str)

lemmas date_eval = parse_date_def re_match_def iso_rx_def sign_rx_def rx_times_def rx_char_def
  is_decimal_def digit_value_def digit_zeros_def Let_def offset_minutes_of_def int_of_str_def
  nat_of_digits_def int_max_str_digits_def digits_nat_def timezone_minutes_def is_value_error_def upt_rec

lemmas semver_eval = date_eval coerce_def coerce_rx_def re_search_def group_int_def

section \<open>Properties\<close>

text \<open>
  Integers below \<open>2 ^ 53\<close> in absolute value compare exactly with a
  target that is the decimal text of such an integer, whether the value is a number or the text of
  one: no rounding is visible.
\<close>

theorem numeric_integers:
  assumes "\<bar>i\<bar> < 2 ^ 53" and "\<bar>j\<bar> < 2 ^ 53" and "v = PInt i \<or> v = PStr (int_str i)"
  shows "compare_numeric v (py ''='') [int_str j] = Inr (i = j) \<and>
    compare_numeric v (py ''!='') [int_str j] = Inr (i \<noteq> j) \<and>
    compare_numeric v (py ''<'') [int_str j] = Inr (i < j) \<and>
    compare_numeric v (py ''<='') [int_str j] = Inr (i \<le> j) \<and>
    compare_numeric v (py ''>'') [int_str j] = Inr (i > j) \<and>
    compare_numeric v (py ''>='') [int_str j] = Inr (i \<ge> j)"
proof -
  have "compare_numeric v op [int_str j] = Inr (compare_rat (str_lower op) (of_int i) (of_int j))" for op
    using parse_finite_int [OF assms(1)] parse_finite_int [OF assms(2)] assms(3)
    by (auto intro: compare_numeric_finite)
  then show ?thesis by (simp add: compare_rat_def str_lower_def lower_char_def)
qed

theorem numeric_integers_witness:
  "compare_numeric (PStr (int_str 9007199254740990)) (py ''<'') [int_str 9007199254740991] = Inr True"
  using numeric_integers [of 9007199254740990 9007199254740991 "PStr (int_str 9007199254740990)"]
  by simp

text \<open>
  A value that is no finite number (absent, a boolean, a list, text that is
  not a decimal literal, an infinity) satisfies no numeric operator but the two spellings of
  inequality, and those always, even with no target.
\<close>

theorem numeric_missing:
  assumes "parse_finite v = Inr None"
  shows "compare_numeric v op ts = Inr (str_lower op \<in> {py ''!='', py ''does not equal''})"
  using compare_numeric_missing [OF assms] by simp

theorem numeric_missing_witness:
  "compare_numeric (PBool True) (py ''>='') [py ''0''] = Inr False \<and>
   compare_numeric (PStr (py ''1_0'')) (py ''Does Not Equal'') [] = Inr True"
proof -
  have "parse_finite (PBool True) = Inr None" by (simp add: parse_finite_def)
  moreover have "parse_finite (PStr (py ''1_0'')) = Inr None"
    by (simp add: parse_finite_def is_decimal_character_def is_ascii_digit_def)
  ultimately show ?thesis
    using numeric_missing [of "PBool True"] numeric_missing [of "PStr (py ''1_0'')"]
    by (simp add: str_lower_def lower_char_def)
qed

text \<open>
  An offset of a day or more is within the accepted pattern, but the time
  zone is built before the error handling of the parser: the \<open>ValueError\<close> leaves the comparison
  instead of making the date unparseable.
\<close>

theorem date_offset_raises:
  "parse_date (py ''2024-01-01T00:00+25:00'') = Inl ValueError \<and>
   compare_date (py ''2024-01-01T00:00+25:00'') (py ''is after'') [py ''2023''] = Inl ValueError"
proof -
  have "parse_date (py ''2024-01-01T00:00+25:00'') = Inl ValueError" by (simp add: date_eval)
  then show ?thesis by (simp add: compare_date_def)
qed

text \<open>
  Two version strings that coerce compare by the three numbers, most significant
  first, so exactly one of the three relations holds and the other operators agree with them.
\<close>

theorem semver_order:
  assumes "coerce v = Inr (Some a)" and "str_strip v \<noteq> []" and "coerce t = Inr (Some b)"
  shows "compare_semver v (py ''='') [t] = Inr (a = b) \<and>
    compare_semver v (py ''<'') [t] = Inr (a < b) \<and>
    compare_semver v (py ''<='') [t] = Inr (a < b \<or> a = b) \<and>
    compare_semver v (py ''>'') [t] = Inr (b < a) \<and>
    compare_semver v (py ''>='') [t] = Inr (b < a \<or> a = b)"
  using compare_semver_versions [OF assms(1,2), of t "[]" b "[]"] assms(3)
  by (auto simp: le_less)

theorem semver_order_witness:
  "compare_semver (py ''v1.10'') (py ''>'') [py ''1.9.9-beta''] = Inr True"
proof -
  have "coerce (py ''v1.10'') = Inr (Some (1, 10, 0))" by (simp add: semver_eval)
  moreover have "coerce (py ''1.9.9-beta'') = Inr (Some (1, 9, 9))" by (simp add: semver_eval)
  moreover have "str_strip (py ''v1.10'') \<noteq> []" by (simp add: str_strip_def is_space_def)
  ultimately show ?thesis
    using semver_order [of "py ''v1.10''" "(1, 10, 0)" "py ''1.9.9-beta''" "(1, 9, 9)"]
    by (simp del: py_simps)
qed

end
