(* ===== verification/Json_Pointer.thy ===== *)
theory Json_Pointer
  imports Py_Value
begin

text \<open>
  \<open>_evaluation/_json_pointer.py\<close>: reading a nested context trait by an RFC 6901 pointer. The
  specification is the lookup of a path of reference tokens; the pointer syntax is a \<open>/\<close> before
  every token, in which \<open>~\<close> is written \<open>~0\<close> and \<open>/\<close> is written \<open>~1\<close>.
\<close>

text \<open>The pattern \<open>0|[1-9][0-9]*\<close>, matched against the whole token.\<close>

definition is_array_index :: "pystr \<Rightarrow> bool" where
  "is_array_index t \<longleftrightarrow>
     t = [48] \<or> (case t of [] \<Rightarrow> False | c # ds \<Rightarrow> 49 \<le> c \<and> c \<le> 57 \<and> list_all is_ascii_digit ds)"

text \<open>The pattern \<open>~(?![01])\<close>, searched for in the token.\<close>

fun has_invalid_escape :: "pystr \<Rightarrow> bool" where
  "has_invalid_escape [] = False"
| "has_invalid_escape (c # s) =
     ((c = 126 \<and> (case s of [] \<Rightarrow> True | d # _ \<Rightarrow> d \<noteq> 48 \<and> d \<noteq> 49)) \<or> has_invalid_escape s)"

definition unescape_token :: "pystr \<Rightarrow> pystr" where
  "unescape_token raw = str_replace2 126 48 [126] (str_replace2 126 49 [47] raw)"

text \<open>
  One step: \<open>None\<close> stands for the sentinel \<open>_MISSING\<close>. \<open>int(token)\<close> raises on a token
  with more digits than Python converts.
\<close>

definition step :: "pyval \<Rightarrow> pystr \<Rightarrow> pyval option result" where
  "step current token =
     (case current of
        PDict d \<Rightarrow> Inr (pdict_get d token)
      | PList vs \<Rightarrow>
          if \<not> is_array_index token then Inr None
          else bindE (nat_of_digits token)
                 (\<lambda>index. Inr (if index \<ge> length vs then None else Some (vs ! index)))
      | _ \<Rightarrow> Inr None)"

fun walk :: "pyval \<Rightarrow> pystr list \<Rightarrow> pyval result" where
  "walk current [] = Inr current"
| "walk current (raw # raws) =
     (if has_invalid_escape raw then Inr PNone
      else bindE (step current (unescape_token raw))
             (\<lambda>r. case r of None \<Rightarrow> Inr PNone | Some v \<Rightarrow> walk v raws))"

definition find_by_pointer :: "pystr \<Rightarrow> pyval \<Rightarrow> pyval result" where
  "find_by_pointer pointer document =
     (case pointer of
        [] \<Rightarrow> Inr PNone
      | c # rest \<Rightarrow> if c \<noteq> 47 then Inr PNone else walk document (str_split 47 rest))"

section \<open>Pointers as paths\<close>

text \<open>What a path of tokens denotes, and how a path is written as a pointer.\<close>

fun lookup_path :: "pyval \<Rightarrow> pystr list \<Rightarrow> pyval result" where
  "lookup_path v [] = Inr v"
| "lookup_path v (t # ts) =
     bindE (step v t) (\<lambda>r. case r of None \<Rightarrow> Inr PNone | Some w \<Rightarrow> lookup_path w ts)"

definition escape_token :: "pystr \<Rightarrow> pystr" where
  "escape_token t = concat (map (\<lambda>c. if c = 126 then [126, 48] else if c = 47 then [126, 49] else [c]) t)"

definition pointer_of :: "pystr list \<Rightarrow> pystr" where
  "pointer_of ts = 47 # str_join [47] (map escape_token ts)"

lemma escape_token_simps [simp]:
  "escape_token [] = []"
  "escape_token (c # t) =
     (if c = 126 then [126, 48] else if c = 47 then [126, 49] else [c]) @ escape_token t"
  by (simp_all add: escape_token_def)

lemma escape_token_no_slash: "47 \<notin> set (escape_token t)"
  by (induction t) auto

lemma escape_token_valid: "\<not> has_invalid_escape (escape_token t)"
  by (induction t) auto

text \<open>After the first replacement only the tildes are still escaped.\<close>

definition escape_tilde :: "pystr \<Rightarrow> pystr" where
  "escape_tilde t = concat (map (\<lambda>c. if c = 126 then [126, 48] else [c]) t)"

lemma escape_tilde_simps [simp]:
  "escape_tilde [] = []"
  "escape_tilde (c # t) = (if c = 126 then [126, 48] else [c]) @ escape_tilde t"
  by (simp_all add: escape_tilde_def)

lemma replace2_cons_other:
  "c \<noteq> a \<Longrightarrow> str_replace2 a b r (c # s) = c # str_replace2 a b r s"
  by (cases s) simp_all

lemma replace_slash: "str_replace2 126 49 [47] (escape_token t) = escape_tilde t"
  by (induction t) (auto simp: replace2_cons_other)

lemma replace_tilde: "str_replace2 126 48 [126] (escape_tilde t) = t"
  by (induction t) (auto simp: replace2_cons_other)

lemma unescape_escape: "unescape_token (escape_token t) = t"
  by (simp add: unescape_token_def replace_slash replace_tilde)

lemma walk_escaped: "walk v (map escape_token ts) = lookup_path v ts"
  by (induction ts arbitrary: v)
    (auto simp: escape_token_valid unescape_escape intro!: arg_cong2 [where f = bindE]
      split: option.splits)

text \<open>Following a written path is following the path.\<close>

lemma find_by_pointer_path:
  assumes "ts \<noteq> []"
  shows "find_by_pointer (pointer_of ts) doc = lookup_path doc ts"
proof -
  have "str_split 47 (str_join [47] (map escape_token ts)) = map escape_token ts"
    using assms by (intro str_split_join) (auto simp: escape_token_no_slash)
  then show ?thesis by (simp add: find_by_pointer_def pointer_of_def walk_escaped)
qed

text \<open>The two ways to address a member.\<close>

lemma step_dict [simp]: "step (PDict d) t = Inr (pdict_get d t)"
  by (simp add: step_def)

lemma is_array_index_nat_str: "is_array_index (nat_str n)"
proof (induction n rule: nat_str.induct)
  case (1 n)
  show ?case
  proof (cases "n < 10")
    case True
    then show ?thesis by (auto simp: nat_str.simps [of n] is_array_index_def)
  next
    case False
    with 1 have "is_array_index (nat_str (n div 10))" by simp
    moreover have "nat_str (n div 10) \<noteq> [48]"
    proof
      assume zero: "nat_str (n div 10) = [48]"
      have "digits_nat [48] = 0" by (simp add: digits_nat_def digit_value_def digit_zeros_def)
      with zero have "n div 10 = 0" using digits_nat_nat_str [of "n div 10"] by simp
      with False show False by simp
    qed
    ultimately show ?thesis
      using False by (auto simp: nat_str.simps [of n] is_array_index_def is_ascii_digit_def
          split: list.splits)
  qed
qed

lemma step_list:
  assumes "length (nat_str n) \<le> int_max_str_digits"
  shows "step (PList vs) (nat_str n) = Inr (if n < length vs then Some (vs ! n) else None)"
  using assms by (simp add: step_def is_array_index_nat_str nat_of_digits_nat_str)

section \<open>Properties\<close>

text \<open>
  A path of member names and indices, written as a JSON pointer with its
  tildes and slashes escaped, leads to the value the path leads to, and to nothing where the path
  breaks off.
\<close>

theorem pointer_follows_path:
  assumes "ts \<noteq> []"
  shows "find_by_pointer (pointer_of ts) doc = lookup_path doc ts"
  by (rule find_by_pointer_path [OF assms])

theorem pointer_follows_path_witness:
  "find_by_pointer (pointer_of [py ''a/b~'', py ''1''])
     (PDict [(PStr (py ''a/b~''), PList [PNone, PInt 7])]) = Inr (PInt 7)"
proof -
  let ?doc = "PDict [(PStr (py ''a/b~''), PList [PNone, PInt 7])]"
  have one: "nat_str 1 = py ''1''" by (simp add: nat_str.simps)
  then have "step (PList [PNone, PInt 7]) (py ''1'') = Inr (Some (PInt 7))"
    using step_list [of 1 "[PNone, PInt 7]"] by (simp add: int_max_str_digits_def)
  then have "lookup_path ?doc [py ''a/b~'', py ''1''] = Inr (PInt 7)"
    by (simp add: pdict_get_def del: py_simps)
  then show ?thesis by (subst pointer_follows_path) simp_all
qed

end
