(* ===== verification/Evaluator.thy ===== *)
theory Evaluator
  imports Percentages Comparisons Json_Pointer "HOL-Library.Multiset"
begin

text \<open>
  Targeting: \<open>condition_evaluator.py\<close>,
  \<open>segment_evaluator.py\<close> and \<open>config_evaluator.py\<close>. Everything that can raise returns a
  result; \<open>evaluate_rule\<close> is where the source catches, and the evaluation of a config is total.
  The log messages of the evaluator are not part of the model.
\<close>

section \<open>Conditions\<close>

text \<open>The two sentinels of the source, and an ordinary value.\<close>

datatype resolved = UnknownAttribute | Absent | Present pyval

definition or_absent :: "pyval \<Rightarrow> resolved" where
  "or_absent v = (if v = PNone then Absent else Present v)"

definition opt_value :: "pystr option \<Rightarrow> pyval" where
  "opt_value v = (case v of None \<Rightarrow> PNone | Some s \<Rightarrow> PStr s)"

definition context_of :: "evaluation_context option \<Rightarrow> checked_context" where
  "context_of ec =
     (case ec of None \<Rightarrow> empty_context
      | Some e \<Rightarrow> (case ec_context e of None \<Rightarrow> empty_context | Some c \<Rightarrow> c))"

definition metadata_of :: "evaluation_context option \<Rightarrow> metadata" where
  "metadata_of ec =
     (case ec of None \<Rightarrow> empty_metadata
      | Some e \<Rightarrow> (case ec_metadata e of None \<Rightarrow> empty_metadata | Some m \<Rightarrow> m))"

definition resolve :: "attribute_condition \<Rightarrow> evaluation_context option \<Rightarrow> resolved result" where
  "resolve condition ec =
     (let a = ac_attribute condition
      in if a = py ''identifier'' then Inr (or_absent (opt_value (ctx_id (context_of ec))))
         else if a = py ''name'' then Inr (or_absent (opt_value (ctx_name (context_of ec))))
         else if a = py ''kind'' then Inr (Present (PStr (effective_kind (Some (context_of ec)))))
         else if a = py ''appName'' then Inr (or_absent (opt_value (app_name (metadata_of ec))))
         else if a = py ''appVersion'' then Inr (or_absent (opt_value (app_version (metadata_of ec))))
         else if a = py ''traits'' then
           (case ac_trait condition of
              None \<Rightarrow> Inr Absent
            | Some trait \<Rightarrow>
                if trait = [] then Inr Absent
                else bindE (find_by_pointer trait (ctx_traits (context_of ec))) (\<lambda>v. Inr (or_absent v)))
         else Inr UnknownAttribute)"

definition unwrap :: "resolved \<Rightarrow> pyval" where
  "unwrap r = (case r of Present v \<Rightarrow> v | _ \<Rightarrow> PNone)"

definition render :: "resolved \<Rightarrow> pystr result" where
  "render r = (case r of Present (PScalar sc) \<Rightarrow> to_json_string sc | _ \<Rightarrow> Inr [])"

definition evaluate_condition :: "attribute_condition \<Rightarrow> evaluation_context option \<Rightarrow> bool result" where
  "evaluate_condition condition ec =
     bindE (resolve condition ec) (\<lambda>value.
       if value = UnknownAttribute then Inr False
       else
         let targets = ac_target_values condition;
             operator = ac_operator condition;
             t = ac_target_type condition
         in if t = py ''text'' then
              bindE (render value) (\<lambda>text. Inr (compare_text text operator targets))
            else if t = py ''number'' then compare_numeric (unwrap value) operator targets
            else if t = py ''datetime'' then
              bindE (render value) (\<lambda>text. compare_date text operator targets)
            else if t = py ''semver'' then
              bindE (render value) (\<lambda>text. compare_semver text operator targets)
            else if t = py ''array'' then compare_array (unwrap value) operator targets
            else Inr False)"

section \<open>Segments\<close>

definition in_segment :: "segment \<Rightarrow> evaluation_context option \<Rightarrow> bool result" where
  "in_segment seg ec = anyE (allE (\<lambda>c. evaluate_condition c ec)) (seg_groups seg)"

definition evaluate_segment_condition ::
  "segment_condition \<Rightarrow> segments option \<Rightarrow> evaluation_context option \<Rightarrow> bool result" where
  "evaluate_segment_condition condition segs ec =
     (case dict_get (case segs of None \<Rightarrow> [] | Some d \<Rightarrow> d) (sc_segment_id condition) of
        None \<Rightarrow> Inr False
      | Some seg \<Rightarrow>
          bindE (in_segment seg ec) (\<lambda>member.
            let op = str_lower (sc_operator condition)
            in if op = py ''in'' then Inr member
               else if op = py ''not in'' then Inr (\<not> member) else Inr False))"

definition condition_holds ::
  "condition \<Rightarrow> evaluation_context option \<Rightarrow> segments option \<Rightarrow> bool result" where
  "condition_holds c ec segs =
     (case c of
        SegmentCondition sc \<Rightarrow> evaluate_segment_condition sc segs ec
      | AttributeCondition ac \<Rightarrow> evaluate_condition ac ec)"

section \<open>Rules\<close>

text \<open>A rule result: \<open>None\<close> is \<open>_NO_MATCH\<close>, otherwise the value and its ID.\<close>

type_synonym rule_result = "(pystr \<times> pystr option) option"

definition assigned_percentile :: "config \<Rightarrow> evaluation_context option \<Rightarrow> pyfloat result" where
  "assigned_percentile cfg ec =
     (let supplied = (case ec of None \<Rightarrow> None | Some e \<Rightarrow> ec_context e)
      in case (case supplied of None \<Rightarrow> None | Some c \<Rightarrow> ctx_id c) of
           None \<Rightarrow> Inr percentage_without_identifier
         | Some identifier \<Rightarrow> assign_percentage (cfg_id cfg) identifier (effective_kind supplied))"

definition evaluate_percentage ::
  "percentage list \<Rightarrow> config \<Rightarrow> evaluation_context option \<Rightarrow> rule_result result" where
  "evaluate_percentage ps cfg ec =
     bindE (assigned_percentile cfg ec) (\<lambda>assigned.
       case pick_bucket assigned (Finite 0) ps of
         None \<Rightarrow> Inr None
       | Some bucket \<Rightarrow>
           (case pct_value bucket of
              None \<Rightarrow> Inr None
            | Some v \<Rightarrow> bindE (to_json_string v) (\<lambda>s. Inr (Some (s, pct_value_id bucket)))))"

definition evaluate_conditional_rule ::
  "conditional_rule \<Rightarrow> config \<Rightarrow> evaluation_context option \<Rightarrow> segments option \<Rightarrow> rule_result result"
where
  "evaluate_conditional_rule r cfg ec segs =
     bindE (allE (\<lambda>c. condition_holds c ec segs) (cr_conditions r)) (\<lambda>ok.
       if \<not> ok then Inr None
       else
         case (if cr_target r = py ''value'' then cr_value r else None) of
           Some v \<Rightarrow> bindE (to_json_string v) (\<lambda>s. Inr (Some (s, cr_value_id r)))
         | None \<Rightarrow>
             if cr_target r = py ''percentage'' then evaluate_percentage (cr_percentages r) cfg ec
             else Inr None)"

text \<open>What the body of the \<open>try\<close> computes, and the rule with its \<open>except Exception\<close>.\<close>

definition try_rule ::
  "rule \<Rightarrow> config \<Rightarrow> evaluation_context option \<Rightarrow> segments option \<Rightarrow> rule_result result" where
  "try_rule r cfg ec segs =
     (case r of
        PercentageRule p \<Rightarrow>
          if pr_type p = py ''percentage'' then evaluate_percentage (pr_percentages p) cfg ec
          else Inr None
      | ConditionalRule c \<Rightarrow>
          if cr_type c = py ''conditional'' then evaluate_conditional_rule c cfg ec segs
          else Inr None)"

definition evaluate_rule ::
  "rule \<Rightarrow> config \<Rightarrow> evaluation_context option \<Rightarrow> segments option \<Rightarrow> rule_result" where
  "evaluate_rule r cfg ec segs = (case try_rule r cfg ec segs of Inl _ \<Rightarrow> None | Inr res \<Rightarrow> res)"

section \<open>Configs\<close>

definition rule_order :: "rule \<Rightarrow> int option" where
  "rule_order r = (case r of ConditionalRule c \<Rightarrow> cr_order c | PercentageRule p \<Rightarrow> pr_order p)"

text \<open>The sort key: rules without an order come last. Python's \<open>sorted\<close> is stable.\<close>

definition order_key :: "rule \<Rightarrow> nat \<times> int" where
  "order_key r = (case rule_order r of None \<Rightarrow> (1, 0) | Some n \<Rightarrow> (0, n))"

fun first_rule_match ::
  "rule list \<Rightarrow> config \<Rightarrow> evaluation_context option \<Rightarrow> segments option \<Rightarrow> rule_result" where
  "first_rule_match [] cfg ec segs = None"
| "first_rule_match (r # rs) cfg ec segs =
     (case evaluate_rule r cfg ec segs of
        Some res \<Rightarrow> Some res
      | None \<Rightarrow> first_rule_match rs cfg ec segs)"

definition get_config_value ::
  "config \<Rightarrow> evaluation_context option \<Rightarrow> segments option \<Rightarrow> pystr option \<times> pystr option" where
  "get_config_value cfg ec segs =
     (case first_rule_match (sort_key order_key (tr_rules (cfg_target cfg))) cfg ec segs of
        Some (v, i) \<Rightarrow> (Some v, i)
      | None \<Rightarrow> (Some (tr_default_value (cfg_target cfg)), tr_default_value_id (cfg_target cfg)))"

definition evaluate ::
  "config \<Rightarrow> evaluation_context option \<Rightarrow> segments option \<Rightarrow> config_state" where
  "evaluate cfg ec segs =
     (case get_config_value cfg ec segs of (v, i) \<Rightarrow>
        \<lparr>st_id = cfg_id cfg, st_key = cfg_key cfg, st_type = cfg_type cfg, st_value = v,
         st_value_id = i\<rparr>)"

section \<open>Concrete configs for the statements below\<close>

definition value_rule :: "int option \<Rightarrow> pystr \<Rightarrow> rule" where
  "value_rule n v = ConditionalRule \<lparr>cr_id = v, cr_order = n, cr_value = Some (SStr v),
     cr_conditions = [], cr_percentages = [], cr_target = py ''value'', cr_type = py ''conditional'',
     cr_value_id = None\<rparr>"

definition split_rule :: "percentage list \<Rightarrow> rule" where
  "split_rule ps = PercentageRule \<lparr>pr_id = py ''split'', pr_order = None, pr_percentages = ps,
     pr_target = py ''percentage'', pr_type = py ''percentage''\<rparr>"

definition sample_config :: "rule list \<Rightarrow> config" where
  "sample_config rs = \<lparr>cfg_id = py ''c1'', cfg_key = py ''key'', cfg_type = PStr (py ''string''),
     cfg_target = \<lparr>tr_default_value = py ''off'', tr_rules = rs, tr_default_value_id = None\<rparr>,
     cfg_variations = [], cfg_type_constraints = None\<rparr>"

definition context_named :: "pystr \<Rightarrow> evaluation_context" where
  "context_named i =
     \<lparr>ec_context = Some (empty_context\<lparr>ctx_id := Some i\<rparr>), ec_metadata = None\<rparr>"

definition rule_matches ::
  "config \<Rightarrow> evaluation_context option \<Rightarrow> segments option \<Rightarrow> rule \<Rightarrow> bool" where
  "rule_matches cfg ec segs r \<longleftrightarrow> evaluate_rule r cfg ec segs \<noteq> None"

definition with_rules :: "rule list \<Rightarrow> config \<Rightarrow> config" where
  "with_rules rs cfg = cfg\<lparr>cfg_target := cfg_target cfg\<lparr>tr_rules := rs\<rparr>\<rparr>"

text \<open>The operators that come with a negation, by the type of the target.\<close>

definition negations :: "(pystr \<times> pystr \<times> pystr) list" where
  "negations =
     [(py ''text'', py ''is one of'', py ''is not one of''),
      (py ''text'', py ''starts with any of'', py ''does not start with any of''),
      (py ''text'', py ''ends with any of'', py ''does not end with any of''),
      (py ''array'', py ''contains any of'', py ''does not contain any of''),
      (py ''semver'', py ''is one of'', py ''is not one of'')]"

definition sample_condition :: "pystr \<Rightarrow> pystr \<Rightarrow> pystr \<Rightarrow> pystr list \<Rightarrow> attribute_condition" where
  "sample_condition attr op t targets = \<lparr>ac_id = [], ac_attribute = attr, ac_operator = op,
     ac_target_type = t, ac_target_values = targets, ac_trait = None\<rparr>"

section \<open>The first rule that matches\<close>

lemma insort_key_least: "(\<And>y. y \<in> set ys \<Longrightarrow> k x \<le> k y) \<Longrightarrow> insort_key k x ys = x # ys"
  by (cases ys) auto

lemma hd_sort_key_least:
  assumes "\<And>x. x \<in> set xs \<Longrightarrow> k r < k x" and "\<And>y. y \<in> set ys \<Longrightarrow> k r \<le> k y"
  shows "\<exists>rest. sort_key k (xs @ r # ys) = r # rest"
  using assms(1)
proof (induction xs)
  case Nil
  have "insort_key k r (sort_key k ys) = r # sort_key k ys"
    by (rule insort_key_least) (use assms(2) in simp)
  then show ?case by simp
next
  case (Cons x xs)
  then obtain rest where "sort_key k (xs @ r # ys) = r # rest" by auto
  moreover have "\<not> k x \<le> k r" using Cons.prems by (simp add: not_le)
  ultimately show ?case by simp
qed

lemma first_rule_match_filter:
  "first_rule_match rs cfg ec segs =
     (case filter (rule_matches cfg ec segs) rs of
        [] \<Rightarrow> None | r # _ \<Rightarrow> evaluate_rule r cfg ec segs)"
  by (induction rs) (auto simp: rule_matches_def split: option.splits list.splits)

lemma first_match_filter:
  "first_rule_match (sort_key f rs) cfg ec segs =
   first_rule_match (sort_key f (filter (rule_matches cfg ec segs) rs)) cfg ec segs"
  by (simp add: first_rule_match_filter filter_sort)

lemma evaluate_rule_id:
  assumes "cfg_id cfg = cfg_id cfg'"
  shows "evaluate_rule r cfg ec segs = evaluate_rule r cfg' ec segs"
proof -
  have "assigned_percentile cfg ec = assigned_percentile cfg' ec"
    unfolding assigned_percentile_def assms ..
  then have p: "evaluate_percentage ps cfg ec = evaluate_percentage ps cfg' ec" for ps
    unfolding evaluate_percentage_def by simp
  show ?thesis
    unfolding evaluate_rule_def try_rule_def evaluate_conditional_rule_def p ..
qed

lemma first_rule_match_id:
  "cfg_id cfg = cfg_id cfg' \<Longrightarrow> first_rule_match rs cfg ec segs = first_rule_match rs cfg' ec segs"
  by (induction rs) (auto simp: evaluate_rule_id [of cfg cfg'] split: option.splits)

lemma with_rules_simps [simp]:
  "cfg_id (with_rules rs cfg) = cfg_id cfg" "cfg_key (with_rules rs cfg) = cfg_key cfg"
  "cfg_type (with_rules rs cfg) = cfg_type cfg"
  "tr_rules (cfg_target (with_rules rs cfg)) = rs"
  "tr_default_value (cfg_target (with_rules rs cfg)) = tr_default_value (cfg_target cfg)"
  "tr_default_value_id (cfg_target (with_rules rs cfg)) = tr_default_value_id (cfg_target cfg)"
  by (simp_all add: with_rules_def)

lemma evaluate_with_rules:
  assumes "first_rule_match (sort_key order_key rs) cfg ec segs =
           first_rule_match (sort_key order_key rs') cfg ec segs"
  shows "evaluate (with_rules rs cfg) ec segs = evaluate (with_rules rs' cfg) ec segs"
  using assms first_rule_match_id [of "with_rules rs cfg" cfg] first_rule_match_id [of "with_rules rs' cfg" cfg]
  by (simp add: evaluate_def get_config_value_def split: option.splits)

lemma value_rule_matches: "evaluate_rule (value_rule n v) cfg ec segs = Some (v, None)"
  by (simp add: evaluate_rule_def try_rule_def value_rule_def evaluate_conditional_rule_def)

lemma order_key_value_rule:
  "order_key (value_rule n v) = (case n of None \<Rightarrow> (1, 0) | Some k \<Rightarrow> (0, k))"
  by (simp add: order_key_def rule_order_def value_rule_def)

lemma sample_config_rules [simp]: "tr_rules (cfg_target (sample_config rs)) = rs"
  by (simp add: sample_config_def)

lemma split_rule_surrogate:
  "try_rule (split_rule ps) cfg (Some (context_named [55296])) segs = Inl UnicodeEncodeError"
  by (simp add: try_rule_def split_rule_def evaluate_percentage_def assigned_percentile_def
      context_named_def empty_context_def assign_percentage_eq hash_input_def is_surrogate_def
      effective_kind_def)

section \<open>Conditions and segments\<close>

lemma resolve_operator [simp]: "resolve (c\<lparr>ac_operator := op\<rparr>) ec = resolve c ec"
  by (simp add: resolve_def Let_def)

lemma bindE_resolved:
  "(\<And>v. v \<noteq> UnknownAttribute \<Longrightarrow> f v = g v) \<Longrightarrow> r \<noteq> Inr UnknownAttribute \<Longrightarrow>
   bindE r f = bindE r g"
  by (cases r) auto

lemma evaluate_condition_known:
  "resolve c ec \<noteq> Inr UnknownAttribute \<Longrightarrow> evaluate_condition c ec =
     bindE (resolve c ec) (\<lambda>value.
       let targets = ac_target_values c; operator = ac_operator c; t = ac_target_type c
       in if t = py ''text'' then
            bindE (render value) (\<lambda>text. Inr (compare_text text operator targets))
          else if t = py ''number'' then compare_numeric (unwrap value) operator targets
          else if t = py ''datetime'' then
            bindE (render value) (\<lambda>text. compare_date text operator targets)
          else if t = py ''semver'' then
            bindE (render value) (\<lambda>text. compare_semver text operator targets)
          else if t = py ''array'' then compare_array (unwrap value) operator targets
          else Inr False)"
  unfolding evaluate_condition_def by (rule bindE_resolved) auto

lemma known_attribute:
  "ac_attribute c \<in> {py ''identifier'', py ''name'', py ''kind'', py ''appName'', py ''appVersion'',
     py ''traits''} \<longleftrightarrow> resolve c ec \<noteq> Inr UnknownAttribute"
  by (auto simp: resolve_def or_absent_def bindE_Inr_iff Let_def simp del: py_simps
      split: option.splits if_splits)

lemmas negates_simps = text_one_of.negates text_starts.negates text_ends.negates
  array_contains.negates semver_one_of.negates

section \<open>Properties\<close>

text \<open>
  C3 (evaluate_first_match). The value and the value ID of a config are those of the first rule that
  matches, where first is by order, then by position, rules without an order last. The rules before
  it by that order do not match.
\<close>

theorem evaluate_first_match:
  assumes rules: "tr_rules (cfg_target cfg) = before @ r # after"
    and "evaluate_rule r cfg ec segs = Some (v, i)"
    and earlier: "\<And>r'. r' \<in> set before \<Longrightarrow> order_key r' \<le> order_key r \<Longrightarrow> evaluate_rule r' cfg ec segs = None"
    and later: "\<And>r'. r' \<in> set after \<Longrightarrow> order_key r' < order_key r \<Longrightarrow> evaluate_rule r' cfg ec segs = None"
  shows "evaluate cfg ec segs =
    \<lparr>st_id = cfg_id cfg, st_key = cfg_key cfg, st_type = cfg_type cfg, st_value = Some v, st_value_id = i\<rparr>"
proof -
  let ?m = "rule_matches cfg ec segs"
  have "filter ?m (before @ r # after) = filter ?m before @ r # filter ?m after"
    using assms(2) by (simp add: rule_matches_def)
  moreover have "\<exists>rest. sort_key order_key (filter ?m before @ r # filter ?m after) = r # rest"
    by (rule hd_sort_key_least) (use earlier later in \<open>force simp: rule_matches_def\<close>)+
  ultimately have "first_rule_match (sort_key order_key (tr_rules (cfg_target cfg))) cfg ec segs = Some (v, i)"
    using assms(2) rules by (subst first_match_filter) auto
  then show ?thesis by (simp add: evaluate_def get_config_value_def)
qed

theorem evaluate_first_match_witness:
  "st_value (evaluate (sample_config
     [value_rule None (py ''a''), value_rule (Some 7) (py ''b''), value_rule (Some 7) (py ''c'')])
     None None) = Some (py ''b'')"
  by (subst evaluate_first_match [of _ "[value_rule None (py ''a'')]" "value_rule (Some 7) (py ''b'')"
        "[value_rule (Some 7) (py ''c'')]"])
    (auto simp: value_rule_matches order_key_value_rule)

text \<open>
  When no rule matches, the config has its default value and the ID of
  the default value.
\<close>

theorem evaluate_default_value:
  assumes "\<And>r. r \<in> set (tr_rules (cfg_target cfg)) \<Longrightarrow> evaluate_rule r cfg ec segs = None"
  shows "evaluate cfg ec segs =
    \<lparr>st_id = cfg_id cfg, st_key = cfg_key cfg, st_type = cfg_type cfg,
     st_value = Some (tr_default_value (cfg_target cfg)),
     st_value_id = tr_default_value_id (cfg_target cfg)\<rparr>"
proof -
  have "filter (rule_matches cfg ec segs) (tr_rules (cfg_target cfg)) = []"
    using assms by (simp add: rule_matches_def filter_empty_conv)
  then show ?thesis
    by (simp add: evaluate_def get_config_value_def) (subst first_match_filter, simp)
qed

theorem evaluate_default_value_witness:
  "st_value (evaluate (sample_config [split_rule []]) None None) = Some (py ''off'')"
  by (subst evaluate_default_value)
    (auto simp: split_rule_def evaluate_rule_def try_rule_def evaluate_percentage_def
      assigned_percentile_def sample_config_def)

text \<open>
  When no two different rules share an order, the position of the rules in
  the bundle does not matter: a permutation of them gives the same state.
\<close>

theorem evaluate_order_only:
  assumes "mset rs = mset rs'" and "inj_on order_key (set rs)"
  shows "evaluate (with_rules rs cfg) ec segs = evaluate (with_rules rs' cfg) ec segs"
proof (rule evaluate_with_rules)
  have "sort_key order_key rs = sort_key order_key rs'"
    by (rule sort_key_inj_key_eq) (use assms in auto)
  then show "first_rule_match (sort_key order_key rs) cfg ec segs = first_rule_match (sort_key order_key rs') cfg ec segs" by simp
qed

theorem evaluate_order_only_witness:
  "evaluate (with_rules [value_rule (Some 2) (py ''a''), value_rule (Some 1) (py ''b'')] (sample_config []))
     None None =
   evaluate (with_rules [value_rule (Some 1) (py ''b''), value_rule (Some 2) (py ''a'')] (sample_config []))
     None None"
  by (rule evaluate_order_only) (auto simp: order_key_value_rule)

text \<open>
  C32 (broken_rule_skipped). A rule that raises, or does not match, is as if it were not there: the
  config evaluates as it does without that rule, wherever it stands.
\<close>

theorem broken_rule_skipped:
  assumes "try_rule r cfg ec segs = Inl e \<or> try_rule r cfg ec segs = Inr None"
  shows "evaluate (with_rules (before @ r # after) cfg) ec segs = evaluate (with_rules (before @ after) cfg) ec segs"
proof (rule evaluate_with_rules)
  have "\<not> rule_matches cfg ec segs r" using assms by (auto simp: rule_matches_def evaluate_rule_def)
  then show "first_rule_match (sort_key order_key (before @ r # after)) cfg ec segs =
     first_rule_match (sort_key order_key (before @ after)) cfg ec segs"
    by (subst (1 2) first_match_filter) simp
qed

theorem broken_rule_skipped_witness:
  "evaluate (with_rules ([] @ split_rule [] # [value_rule (Some 1) (py ''b'')]) (sample_config []))
     (Some (context_named [55296])) None =
   evaluate (with_rules ([] @ [value_rule (Some 1) (py ''b'')]) (sample_config []))
     (Some (context_named [55296])) None"
  by (rule broken_rule_skipped, rule disjI1, rule split_rule_surrogate)



text \<open>
  A condition on an attribute this version does not know is false
  for every operator, the negated ones included, so a rule with it does not match.
\<close>

theorem unknown_attribute_fails:
  assumes "ac_attribute c \<notin> {py ''identifier'', py ''name'', py ''kind'', py ''appName'',
      py ''appVersion'', py ''traits''}"
    and "AttributeCondition c \<in> set (cr_conditions r)"
  shows "evaluate_rule (ConditionalRule r) cfg ec segs = None"
proof -
  have "evaluate_condition c ec = Inr False"
    using assms(1) known_attribute [of c ec] by (auto simp: evaluate_condition_def)
  then have "condition_holds (AttributeCondition c) ec segs = Inr False"
    by (simp add: condition_holds_def)
  with assms(2) have "allE (\<lambda>c. condition_holds c ec segs) (cr_conditions r) \<noteq> Inr True"
    unfolding allE_True_iff by force
  then show ?thesis
    by (cases "allE (\<lambda>c. condition_holds c ec segs) (cr_conditions r)")
      (auto simp: evaluate_rule_def try_rule_def evaluate_conditional_rule_def)
qed

definition new_attribute_rule :: conditional_rule where
  "new_attribute_rule = \<lparr>cr_id = [], cr_order = None, cr_value = Some (SStr []),
     cr_conditions = [AttributeCondition (sample_condition (py ''region'') (py ''!='') (py ''text'') [[]])],
     cr_percentages = [], cr_target = py ''value'', cr_type = py ''conditional'', cr_value_id = None\<rparr>"

theorem unknown_attribute_fails_witness:
  "evaluate_rule (ConditionalRule new_attribute_rule) (sample_config []) None None = None"
  by (rule unknown_attribute_fails [of "sample_condition (py ''region'') (py ''!='') (py ''text'') [[]]"])
    (simp_all add: sample_condition_def new_attribute_rule_def)

text \<open>
  For a segment the bundle has, \<open>not in\<close> is the negation of \<open>in\<close>;
  for one it does not have, both are false.
\<close>

theorem segment_negation:
  "evaluate_segment_condition (c\<lparr>sc_operator := py ''not in''\<rparr>) segs ec =
   (if \<exists>d seg. segs = Some d \<and> dict_get d (sc_segment_id c) = Some seg
    then notE (evaluate_segment_condition (c\<lparr>sc_operator := py ''in''\<rparr>) segs ec)
    else evaluate_segment_condition (c\<lparr>sc_operator := py ''in''\<rparr>) segs ec)"
  by (auto simp: evaluate_segment_condition_def str_lower_def lower_char_def notE_bindE Let_def
      split: option.splits)

end
