(* ===== verification/Bundle.thy ===== *)
theory Bundle
  imports Config_Types Py_Object Evaluator
begin

text \<open>
  Reading a config bundle: \<open>_bundle.py\<close>. The readers trust nothing about the document: each
  definition is read with the exceptions Python would raise, in the order Python would raise them,
  and the loops over the configs and the segments are where the source catches them. The warnings
  that are logged are not modelled.
\<close>

section \<open>Scalars and text\<close>

definition optional_string :: "pyval \<Rightarrow> pystr option" where
  "optional_string v = (case v of PStr s \<Rightarrow> Some s | _ \<Rightarrow> None)"

definition optional_int :: "pyval \<Rightarrow> int option result" where
  "optional_int v =
     (case v of
        PInt i \<Rightarrow> Inr (Some i)
      | PFloat f \<Rightarrow> bindE (int_of_float f) (\<lambda>i. Inr (Some i))
      | _ \<Rightarrow> Inr None)"

definition as_string :: "pyval \<Rightarrow> pystr result" where
  "as_string v =
     (case v of
        PNone \<Rightarrow> Inr []
      | PScalar sc \<Rightarrow> to_json_string sc
      | _ \<Rightarrow> json_dumps compact_style v)"

definition rule_value :: "pyval \<Rightarrow> scalar option result" where
  "rule_value v =
     (case v of
        PNone \<Rightarrow> Inr None
      | PScalar sc \<Rightarrow> Inr (Some sc)
      | _ \<Rightarrow> bindE (json_dumps compact_style v) (\<lambda>t. Inr (Some (SStr t))))"

text \<open>\<open>[f(x) for x in raw.get(key) or []]\<close>\<close>

definition read_list :: "(pyval \<Rightarrow> 'a result) \<Rightarrow> pyval \<Rightarrow> pystr \<Rightarrow> 'a list result" where
  "read_list f raw key =
     bindE (get_attr raw key) (\<lambda>v. bindE (py_iter (py_or v (PList []))) (mapE f))"

section \<open>Definitions\<close>

definition parse_percentage :: "printable \<Rightarrow> pyval \<Rightarrow> percentage result" where
  "parse_percentage pr raw =
     bindE (bindE (get_item raw (py ''id'')) (py_str pr)) (\<lambda>i.
     bindE (bindE (get_item raw (py ''percentage'')) py_float) (\<lambda>p.
     bindE (bindE (get_attr raw (py ''value'')) rule_value) (\<lambda>v.
     bindE (get_attr raw (py ''valueId'')) (\<lambda>vi.
       Inr \<lparr>pct_id = i, pct_percentage = p, pct_value = v, pct_value_id = optional_string vi\<rparr>))))"

definition condition_kind :: "printable \<Rightarrow> pyval \<Rightarrow> pystr result" where
  "condition_kind pr raw =
     bindE (get_attr_default raw (py ''kind'') (PStr (py ''attribute''))) (py_str pr)"

definition parse_attribute_condition :: "printable \<Rightarrow> pyval \<Rightarrow> attribute_condition result" where
  "parse_attribute_condition pr raw =
     bindE (condition_kind pr raw) (\<lambda>kind.
       if kind \<noteq> py ''attribute'' then Inl ValueError
       else
         bindE (bindE (get_item raw (py ''id'')) (py_str pr)) (\<lambda>i.
         bindE (bindE (get_item raw (py ''attribute'')) (py_str pr)) (\<lambda>a.
         bindE (bindE (get_item raw (py ''operator'')) (py_str pr)) (\<lambda>op.
         bindE (bindE (get_item raw (py ''targetType'')) (py_str pr)) (\<lambda>tt.
         bindE (read_list as_string raw (py ''targetValues'')) (\<lambda>tvs.
         bindE (get_attr raw (py ''trait'')) (\<lambda>tr.
           Inr \<lparr>ac_id = i, ac_attribute = a, ac_operator = op, ac_target_type = tt,
             ac_target_values = tvs, ac_trait = optional_string tr\<rparr>)))))))"

definition parse_condition :: "printable \<Rightarrow> pyval \<Rightarrow> condition result" where
  "parse_condition pr raw =
     bindE (condition_kind pr raw) (\<lambda>kind.
       if kind = py ''attribute'' then
         bindE (parse_attribute_condition pr raw) (\<lambda>c. Inr (AttributeCondition c))
       else if kind = py ''segment'' then
         bindE (bindE (get_item raw (py ''id'')) (py_str pr)) (\<lambda>i.
         bindE (bindE (get_item raw (py ''operator'')) (py_str pr)) (\<lambda>op.
         bindE (bindE (get_item raw (py ''segmentId'')) (py_str pr)) (\<lambda>s.
           Inr (SegmentCondition \<lparr>sc_id = i, sc_operator = op, sc_segment_id = s\<rparr>))))
       else Inl ValueError)"

definition parse_rule :: "printable \<Rightarrow> pyval \<Rightarrow> rule result" where
  "parse_rule pr raw =
     bindE (get_attr raw (py ''type'')) (\<lambda>kind.
     bindE (read_list (parse_percentage pr) raw (py ''percentages'')) (\<lambda>percentages.
       if kind = PStr (py ''percentage'') then
         bindE (bindE (get_item raw (py ''id'')) (py_str pr)) (\<lambda>i.
         bindE (bindE (get_attr raw (py ''order'')) optional_int) (\<lambda>n.
           Inr (PercentageRule \<lparr>pr_id = i, pr_order = n, pr_percentages = percentages,
             pr_target = py ''percentage'', pr_type = py ''percentage''\<rparr>)))
       else
         bindE (bindE (get_item raw (py ''id'')) (py_str pr)) (\<lambda>i.
         bindE (bindE (get_attr raw (py ''order'')) optional_int) (\<lambda>n.
         bindE (bindE (get_attr raw (py ''value'')) rule_value) (\<lambda>v.
         bindE (read_list (parse_condition pr) raw (py ''conditions'')) (\<lambda>cs.
         bindE (bindE (get_attr raw (py ''target''))
                  (\<lambda>t. py_str pr (py_or t (PStr (py ''value''))))) (\<lambda>target.
         bindE (if kind \<noteq> PNone then py_str pr kind else Inr (py ''conditional'')) (\<lambda>ty.
         bindE (get_attr raw (py ''valueId'')) (\<lambda>vi.
           Inr (ConditionalRule \<lparr>cr_id = i, cr_order = n, cr_value = v, cr_conditions = cs,
             cr_percentages = percentages, cr_target = target, cr_type = ty,
             cr_value_id = optional_string vi\<rparr>)))))))))) "

definition parse_variation :: "pyval \<Rightarrow> variation result" where
  "parse_variation raw =
     bindE (get_attr raw (py ''value'')) (\<lambda>value.
     bindE (case value of PScalar sc \<Rightarrow> Inr sc | _ \<Rightarrow> bindE (as_string value) (\<lambda>t. Inr (SStr t))) (\<lambda>v.
     bindE (get_attr raw (py ''name'')) (\<lambda>n.
       Inr \<lparr>var_value = v, var_name = optional_string n\<rparr>)))"

definition parse_type_constraints :: "pyval \<Rightarrow> type_constraints option result" where
  "parse_type_constraints raw =
     (case raw of
        PDict d \<Rightarrow>
          if pdict_get d (py ''valueType'') \<noteq> None then
            bindE (get_attr raw (py ''valueType'')) (\<lambda>vt.
            bindE (read_list as_string raw (py ''values'')) (\<lambda>vs.
              Inr (Some (EnumTypeConstraints (vt = PStr (py ''number'')) vs))))
          else
            bindE (get_attr raw (py ''min'')) (\<lambda>lo.
            bindE (get_attr raw (py ''max'')) (\<lambda>hi. Inr (Some (NumericTypeConstraints lo hi))))
      | _ \<Rightarrow> Inr None)"

definition parse_config :: "printable \<Rightarrow> pyval \<Rightarrow> config result" where
  "parse_config pr raw =
     bindE (get_item raw (py ''target'')) (\<lambda>target.
     bindE (bindE (get_item raw (py ''id'')) (py_str pr)) (\<lambda>i.
     bindE (bindE (get_item raw (py ''key'')) (py_str pr)) (\<lambda>k.
     bindE (get_item raw (py ''type'')) (\<lambda>ty.
     bindE (bindE (get_attr target (py ''defaultValue'')) as_string) (\<lambda>dv.
     bindE (read_list (parse_rule pr) target (py ''rules'')) (\<lambda>rules.
     bindE (get_attr target (py ''defaultValueId'')) (\<lambda>dvi.
     bindE (read_list parse_variation raw (py ''variations'')) (\<lambda>vars.
     bindE (bindE (get_attr raw (py ''typeConstraints'')) parse_type_constraints) (\<lambda>tc.
       Inr \<lparr>cfg_id = i, cfg_key = k, cfg_type = ty,
         cfg_target = \<lparr>tr_default_value = dv, tr_rules = rules,
           tr_default_value_id = optional_string dvi\<rparr>,
         cfg_variations = vars, cfg_type_constraints = tc\<rparr>)))))))))"

definition parse_segment :: "printable \<Rightarrow> pyval \<Rightarrow> segment result" where
  "parse_segment pr raw =
     bindE (bindE (get_item raw (py ''groups'')) py_iter) (\<lambda>groups.
     bindE (mapE (\<lambda>g. bindE (py_iter g) (mapE (parse_attribute_condition pr))) groups) (\<lambda>gs.
       Inr \<lparr>seg_groups = gs\<rparr>))"

section \<open>Bundles\<close>

text \<open>\<open>except (AttributeError, KeyError, TypeError, ValueError)\<close>\<close>

definition is_reader_error :: "exn \<Rightarrow> bool" where
  "is_reader_error e \<longleftrightarrow>
     e = AttributeError \<or> e = KeyError \<or> is_type_error e \<or> is_value_error e"

text \<open>
  The loops over \<open>raw.items()\<close>, with what has been read so far. Keys of a JSON document are
  strings; \<open>str(key)\<close> of any other key is left to \<open>py_str\<close>.
\<close>

fun read_configs ::
  "printable \<Rightarrow> (pystr, config) dict \<Rightarrow> pystr list \<Rightarrow> (pyval \<times> pyval) list \<Rightarrow>
   ((pystr, config) dict \<times> pystr list) result" where
  "read_configs pr configs unreadable [] = Inr (configs, unreadable)"
| "read_configs pr configs unreadable ((key, definition) # rest) =
     (case bindE (parse_config pr definition) (\<lambda>c. bindE (py_str pr key) (\<lambda>k. Inr (k, c))) of
        Inr (k, c) \<Rightarrow> read_configs pr (dict_set k c configs) unreadable rest
      | Inl e \<Rightarrow>
          if is_reader_error e then
            bindE (py_str pr key) (\<lambda>k. read_configs pr configs (unreadable @ [k]) rest)
          else Inl e)"

definition parse_configs ::
  "printable \<Rightarrow> (pyval \<times> pyval) list \<Rightarrow> ((pystr, config) dict \<times> pystr list) result" where
  "parse_configs pr raw = read_configs pr [] [] raw"

fun read_segments ::
  "printable \<Rightarrow> segments \<Rightarrow> (pyval \<times> pyval) list \<Rightarrow> segments result" where
  "read_segments pr segs [] = Inr segs"
| "read_segments pr segs ((key, definition) # rest) =
     (case bindE (parse_segment pr definition) (\<lambda>s. bindE (py_str pr key) (\<lambda>k. Inr (k, s))) of
        Inr (k, s) \<Rightarrow> read_segments pr (dict_set k s segs) rest
      | Inl e \<Rightarrow> if is_reader_error e then read_segments pr segs rest else Inl e)"

definition parse_segments :: "printable \<Rightarrow> pyval \<Rightarrow> segments result" where
  "parse_segments pr raw = (case raw of PDict d \<Rightarrow> read_segments pr [] d | _ \<Rightarrow> Inr [])"

datatype bundle_kind = Full | Delta

record config_bundle =
  cb_configs :: "(pystr, config) dict"
  cb_segments :: segments
  cb_kind :: bundle_kind
  cb_unreadable_keys :: "pystr list"
  cb_environment_id :: "pystr option"
  cb_project_id :: "pystr option"
  cb_timestamp :: "pystr option"

definition doc_get :: "(pyval \<times> pyval) list \<Rightarrow> pystr \<Rightarrow> pyval" where
  "doc_get d k = (case pdict_get d k of Some v \<Rightarrow> v | None \<Rightarrow> PNone)"

definition parse_bundle :: "printable \<Rightarrow> pystr \<Rightarrow> config_bundle result" where
  "parse_bundle pr payload =
     bindE (json_loads payload) (\<lambda>document.
       case document of
         PDict d \<Rightarrow>
           (case doc_get d (py ''configs'') of
              PDict raw_configs \<Rightarrow>
                bindE (parse_configs pr raw_configs) (\<lambda>(configs, unreadable).
                bindE (parse_segments pr (doc_get d (py ''segments''))) (\<lambda>segs.
                  Inr \<lparr>cb_configs = configs, cb_segments = segs,
                    cb_kind = (if doc_get d (py ''kind'') = PStr (py ''delta'') then Delta else Full),
                    cb_unreadable_keys = unreadable,
                    cb_environment_id = optional_string (doc_get d (py ''environmentId'')),
                    cb_project_id = optional_string (doc_get d (py ''projectId'')),
                    cb_timestamp = optional_string (doc_get d (py ''timestamp''))\<rparr>))
            | _ \<Rightarrow> Inl NotAConfigBundleError)
       | _ \<Rightarrow> Inl ValueError)"

abbreviation config_errors :: "exn set" where
  "config_errors \<equiv> insert OverflowError reader_errors"

text \<open>What the loop over the configs computes, one definition at a time.\<close>

definition readable :: "printable \<Rightarrow> pyval \<Rightarrow> config option" where
  "readable pr v = (case parse_config pr v of Inr c \<Rightarrow> Some c | Inl _ \<Rightarrow> None)"

section \<open>The exceptions of the readers\<close>

lemma raises_optional_int [raises]: "raises_only config_errors (optional_int v)"
  by (auto simp: optional_int_def int_of_float_def reader_errors_def
      split: pyval.splits scalar.splits pyfloat.splits)

lemma raises_as_string [raises]: "raises_only config_errors (as_string v)"
  by (auto simp: as_string_def intro!: raises simp del: json_dumps.simps split: pyval.splits)

lemma raises_rule_value [raises]: "raises_only config_errors (rule_value v)"
  by (auto simp: rule_value_def intro!: raises simp del: json_dumps.simps split: pyval.splits)

lemma raises_read_list [raises]:
  "(\<And>x. raises_only config_errors (f x)) \<Longrightarrow> raises_only config_errors (read_list f raw k)"
  unfolding read_list_def by (intro raises) auto

lemma raises_parse_percentage [raises]: "raises_only config_errors (parse_percentage pr raw)"
  unfolding parse_percentage_def by (intro raises) auto

lemma raises_condition_kind [raises]: "raises_only config_errors (condition_kind pr raw)"
  unfolding condition_kind_def by (intro raises) auto

lemma raises_if [raises]:
  "(b \<Longrightarrow> raises_only E x) \<Longrightarrow> (\<not> b \<Longrightarrow> raises_only E y) \<Longrightarrow> raises_only E (if b then x else y)"
  by simp

lemma raises_parse_attribute_condition [raises]:
  "raises_only config_errors (parse_attribute_condition pr raw)"
  unfolding parse_attribute_condition_def by (intro raises) (auto simp: reader_errors_def)

lemma raises_parse_condition [raises]: "raises_only config_errors (parse_condition pr raw)"
  unfolding parse_condition_def by (intro raises) (auto simp: reader_errors_def)

lemma raises_parse_rule [raises]: "raises_only config_errors (parse_rule pr raw)"
  unfolding parse_rule_def by (intro raises) auto

lemma raises_parse_variation [raises]: "raises_only config_errors (parse_variation raw)"
  unfolding parse_variation_def
  by (intro raises) (auto split: pyval.splits intro!: raises)

lemma raises_parse_type_constraints [raises]: "raises_only config_errors (parse_type_constraints raw)"
  unfolding parse_type_constraints_def
  by (auto split: pyval.splits intro!: raises)

lemma raises_parse_config [raises]: "raises_only config_errors (parse_config pr raw)"
  unfolding parse_config_def by (intro raises) auto

lemma raises_parse_segment [raises]: "raises_only config_errors (parse_segment pr raw)"
  unfolding parse_segment_def by (intro raises) auto

lemma is_reader_errorI: "e \<in> reader_errors \<Longrightarrow> is_reader_error e"
  by (auto simp: reader_errors_def is_reader_error_def is_type_error_def is_value_error_def)
lemma py_str_PStr [simp]: "py_str pr (PStr s) = Inr s"
  by (simp add: py_str_def)

lemma readable_iff:
  "readable pr v = Some c \<longleftrightarrow> parse_config pr v = Inr c"
  "readable pr v = None \<longleftrightarrow> (\<exists>e. parse_config pr v = Inl e)"
  by (auto simp: readable_def split: sum.splits)

lemma read_configs_step:
  assumes "parse_config pr v \<noteq> Inl OverflowError"
  shows "read_configs pr cs un ((PStr k, v) # rest) =
    (case readable pr v of
       Some c \<Rightarrow> read_configs pr (dict_set k c cs) un rest
     | None \<Rightarrow> read_configs pr cs (un @ [k]) rest)"
proof (cases "parse_config pr v")
  case (Inl e)
  then have "is_reader_error e"
    using assms raises_parse_config [of pr v] by (auto simp: raises_only_def intro: is_reader_errorI)
  then show ?thesis using Inl by (simp add: readable_def)
next
  case (Inr c)
  then show ?thesis by (simp add: readable_def)
qed

lemma read_configs_all:
  assumes "list_all (\<lambda>(k, v). parse_config pr v \<noteq> Inl OverflowError) ds" and "distinct (map fst ds)"
  shows "\<exists>cs' un'. read_configs pr cs un (map (\<lambda>(k, v). (PStr k, v)) ds) = Inr (cs', un') \<and>
    (\<forall>k. dict_get cs' k = (case Option.bind (map_of ds k) (readable pr) of
         Some c \<Rightarrow> Some c | None \<Rightarrow> dict_get cs k)) \<and>
    un' = un @ map fst (filter (\<lambda>(k, v). readable pr v = None) ds)"
  using assms
proof (induction ds arbitrary: cs un)
  case (Cons kv ds)
  obtain k v where kv: "kv = (k, v)" by fastforce
  have no: "parse_config pr v \<noteq> Inl OverflowError" using Cons.prems(1) kv by simp
  have k: "map_of ds k = None" using Cons.prems(2) kv by (simp add: map_of_eq_None_iff)
  show ?case
  proof (cases "readable pr v")
    case None
    then show ?thesis
      using Cons.IH [of cs "un @ [k]"] Cons.prems read_configs_step [OF no] k kv
      by (fastforce split: option.splits)
  next
    case (Some c)
    then show ?thesis
      using Cons.IH [of "dict_set k c cs" un] Cons.prems read_configs_step [OF no] k kv
      by (fastforce split: option.splits)
  qed
qed simp

lemma doc_get_doc: "json_doc (PDict d) \<Longrightarrow> json_doc (doc_get d k)"
  by (auto simp: doc_get_def pdict_get_def list_all_iff split: option.splits dest: map_of_SomeD)

lemma raises_read_configs:
  "json_doc (PDict raw) \<Longrightarrow> raises_only {OverflowError} (read_configs pr cs un raw)"
proof (induction raw arbitrary: cs un)
  case (Cons kv raw)
  then obtain k v where kv: "kv = (PStr k, v)" by auto
  have IH: "raises_only {OverflowError} (read_configs pr cs un raw)" for cs un
    using Cons by simp
  show ?case
  proof (cases "parse_config pr v = Inl OverflowError")
    case True
    then show ?thesis
      by (simp add: kv is_reader_error_def is_type_error_def is_value_error_def)
  next
    case False
    show ?thesis unfolding kv read_configs_step [OF False] by (auto split: option.splits intro: IH)
  qed
qed simp

lemma raises_read_segments:
  "json_doc (PDict raw) \<Longrightarrow> raises_only {OverflowError} (read_segments pr segs raw)"
proof (induction raw arbitrary: segs)
  case (Cons kv raw)
  then obtain k v where kv: "kv = (PStr k, v)" by auto
  have IH: "raises_only {OverflowError} (read_segments pr segs raw)" for segs
    using Cons by simp
  show ?case
  proof (cases "parse_segment pr v")
    case (Inl e)
    then have "e = OverflowError \<or> is_reader_error e"
      using raises_parse_segment [of pr v] by (auto simp: raises_only_def intro: is_reader_errorI)
    then show ?thesis using Inl IH by (auto simp: kv)
  next
    case (Inr s)
    then show ?thesis using IH by (simp add: kv)
  qed
qed simp

section \<open>The dictionaries of a bundle\<close>

text \<open>A bundle holds one config per key and one segment per ID.\<close>

definition bundle_ok :: "config_bundle \<Rightarrow> bool" where
  "bundle_ok b \<longleftrightarrow> dict_ok (cb_configs b) \<and> dict_ok (cb_segments b)"

lemma read_configs_dict: "read_configs pr cs un ds = Inr (cs', un') \<Longrightarrow> dict_ok cs \<Longrightarrow> dict_ok cs'"
  by (induction pr cs un ds rule: read_configs.induct)
    (auto simp: bindE_Inr_iff split: sum.splits prod.splits if_splits)

lemma read_segments_dict: "read_segments pr segs ds = Inr segs' \<Longrightarrow> dict_ok segs \<Longrightarrow> dict_ok segs'"
  by (induction pr segs ds rule: read_segments.induct) (auto split: sum.splits prod.splits if_splits)

lemma parse_segments_dict: "parse_segments pr raw = Inr segs \<Longrightarrow> dict_ok segs"
  by (auto simp: parse_segments_def dest: read_segments_dict split: pyval.splits)

lemma parse_configs_dict: "parse_configs pr raw = Inr (cs, un) \<Longrightarrow> dict_ok cs"
  by (auto simp: parse_configs_def dest: read_configs_dict)

lemma parse_bundle_ok:
  assumes "parse_bundle pr payload = Inr b"
  shows "bundle_ok b"
proof -
  obtain document where d: "json_loads payload = Inr document"
    using assms by (auto simp: parse_bundle_def bindE_Inr_iff)
  with assms obtain doc where doc: "document = PDict doc"
    by (cases document) (auto simp: parse_bundle_def)
  with assms d obtain raw where "doc_get doc (py ''configs'') = PDict raw"
    by (cases "doc_get doc (py ''configs'')") (auto simp: parse_bundle_def)
  with assms d doc show ?thesis
    by (auto simp: parse_bundle_def bundle_ok_def bindE_Inr_iff dest: parse_configs_dict parse_segments_dict)
qed

section \<open>Properties\<close>


text \<open>A definition with one rule of the given order, and one that is no object.\<close>

definition ordered_definition :: "pyval \<Rightarrow> pyval" where
  "ordered_definition n = PDict
     [(PStr (py ''id''), PStr (py ''c1'')), (PStr (py ''key''), PStr (py ''a'')),
      (PStr (py ''type''), PStr (py ''string'')),
      (PStr (py ''target''), PDict
        [(PStr (py ''defaultValue''), PStr (py ''x'')),
         (PStr (py ''rules''), PList [PDict
           [(PStr (py ''id''), PStr (py ''r'')), (PStr (py ''order''), n)]])])]"

lemmas reader_eval = parse_config_def parse_rule_def read_list_def get_item_def get_attr_default_def
  pdict_get_def py_iter_def py_or_def as_string_def optional_int_def int_of_float_def rule_value_def
  parse_type_constraints_def


text \<open>
  The exception of an order that is no finite number (a JSON document
  may hold \<open>1e999\<close>) is not among those the loop catches: it leaves the reader, and every other
  config of the bundle is lost with it, wherever the definition stands.
\<close>

theorem overflow_breaks_bundle:
  "parse_configs pr [(PStr (py ''a''), ordered_definition (PInt 1)),
      (PStr (py ''b''), ordered_definition (PFloat (Infinite True)))] = Inl OverflowError \<and>
   (\<exists>cs. parse_configs pr [(PStr (py ''a''), ordered_definition (PInt 1))] = Inr (cs, []) \<and>
      dict_get cs (py ''a'') \<noteq> None)"
  by (simp add: parse_configs_def ordered_definition_def reader_eval is_reader_error_def
      is_type_error_def is_value_error_def)

text \<open>
  Whatever the payload, reading a bundle gives a bundle, a
  \<open>ValueError\<close> (a malformed document, or one that is no bundle) or an \<open>OverflowError\<close>; no
  other exception leaves it.
\<close>

theorem parse_bundle_errors:
  "raises_only {JSONDecodeError, ValueError, NotAConfigBundleError, OverflowError} (parse_bundle pr payload)"
proof (cases "json_loads payload")
  case (Inl e)
  then show ?thesis
    using raises_json_loads [of payload] by (auto simp: parse_bundle_def raises_only_def)
next
  case (Inr v)
  show ?thesis
  proof (cases "\<exists>d raw. v = PDict d \<and> doc_get d (py ''configs'') = PDict raw")
    case False
    then show ?thesis
      using Inr by (auto simp: parse_bundle_def split: pyval.splits)
  next
    case True
    then obtain d raw where d: "v = PDict d" "doc_get d (py ''configs'') = PDict raw" by blast
    have doc: "json_doc (PDict d)" using json_loads_doc Inr d by blast
    have "raises_only {OverflowError} (parse_configs pr raw)"
      unfolding parse_configs_def using doc_get_doc [OF doc, of "py ''configs''"] d
      by (intro raises_read_configs) simp
    moreover have "raises_only {OverflowError} (parse_segments pr (doc_get d (py ''segments'')))"
      using doc_get_doc [OF doc, of "py ''segments''"]
      by (auto simp: parse_segments_def simp del: json_doc.simps
          split: pyval.splits intro!: raises_read_segments)
    ultimately show ?thesis
      using Inr d by (auto simp: parse_bundle_def intro!: raises elim: raises_mono split: prod.splits)
  qed
qed

end
