(* ===== verification/Values.thy ===== *)
theory Values
  imports Config_Types Py_Json Comparisons Evaluator
begin

text \<open>
  Values on their way out and in: \<open>_value_parser.py\<close> turns the text of an evaluated config into
  the type the caller asked for, \<open>_native_values.py\<close> turns a native value into a config that
  always has it.
\<close>

section \<open>Parsing a config value\<close>

record parse_result =
  pv_value :: pyval
  pv_reason :: evaluation_reason
  pv_used_default :: bool
  pv_value_id :: "pystr option"

definition defaulted :: "pyval \<Rightarrow> evaluation_reason \<Rightarrow> parse_result" where
  "defaulted d reason =
     \<lparr>pv_value = d, pv_reason = reason, pv_used_default = True, pv_value_id = None\<rparr>"

definition matched :: "pyval \<Rightarrow> config_state \<Rightarrow> parse_result" where
  "matched v state =
     \<lparr>pv_value = v, pv_reason = FoundMatch, pv_used_default = False, pv_value_id = st_value_id state\<rparr>"

definition parse_boolean :: "pystr \<Rightarrow> bool option" where
  "parse_boolean value =
     (let lowered = str_lower value
      in if lowered \<noteq> py ''true'' \<and> lowered \<noteq> py ''false'' then None
         else Some (lowered = py ''true''))"

definition parse_float :: "pystr \<Rightarrow> pyfloat option" where
  "parse_float value =
     (if \<not> list_all is_decimal_character value then None
      else case float_of_str value of
             Inl _ \<Rightarrow> None
           | Inr parsed \<Rightarrow> if fl_is_finite parsed then Some parsed else None)"

definition float_is_integer :: "pyfloat \<Rightarrow> bool" where
  "float_is_integer f = (case f of Finite x \<Rightarrow> rat_is_integer x | _ \<Rightarrow> False)"

definition parse_integer :: "pystr \<Rightarrow> int option" where
  "parse_integer value =
     (if \<not> list_all is_decimal_character value then None
      else case int_of_str value of
             Inr i \<Rightarrow> Some i
           | Inl _ \<Rightarrow>
               (case parse_float value of
                  None \<Rightarrow> None
                | Some f \<Rightarrow>
                    if \<not> float_is_integer f then None
                    else (case int_of_float f of Inr i \<Rightarrow> Some i | Inl _ \<Rightarrow> None)))"

text \<open>\<open>x in frozenset(...)\<close> hashes \<open>x\<close> first, which raises for a list or a dict.\<close>

definition in_string_set :: "pyval \<Rightarrow> pystr list \<Rightarrow> bool result" where
  "in_string_set x ss =
     (case x of
        PList _ \<Rightarrow> Inl TypeError
      | PDict _ \<Rightarrow> Inl TypeError
      | PStr s \<Rightarrow> Inr (s \<in> set ss)
      | _ \<Rightarrow> Inr False)"

definition types_not_readable_as_string :: "pystr list" where
  "types_not_readable_as_string = [py ''boolean'', py ''integer'', py ''float'']"

definition is_dict :: "pyval \<Rightarrow> bool" where
  "is_dict v = (case v of PDict _ \<Rightarrow> True | _ \<Rightarrow> False)"

definition is_list :: "pyval \<Rightarrow> bool" where
  "is_list v = (case v of PList _ \<Rightarrow> True | _ \<Rightarrow> False)"

definition parse_config_value :: "config_state \<Rightarrow> pyval \<Rightarrow> parse_result result" where
  "parse_config_value state d =
     (case st_value state of
        None \<Rightarrow> Inr (defaulted d ValueMissing)
      | Some raw \<Rightarrow>
          if raw = [] then Inr (defaulted d ValueMissing)
          else
            case d of
              PBool _ \<Rightarrow>
                Inr (case parse_boolean raw of
                       None \<Rightarrow> defaulted d InvalidBoolean
                     | Some b \<Rightarrow> matched (PBool b) state)
            | PStr _ \<Rightarrow>
                bindE (in_string_set (st_type state) types_not_readable_as_string)
                  (\<lambda>unreadable. Inr (if unreadable then defaulted d TypeMismatch
                                     else matched (PStr raw) state))
            | PInt _ \<Rightarrow>
                Inr (case parse_integer raw of
                       None \<Rightarrow> defaulted d InvalidNumber
                     | Some i \<Rightarrow> matched (PInt i) state)
            | PFloat _ \<Rightarrow>
                Inr (case parse_float raw of
                       None \<Rightarrow> defaulted d InvalidNumber
                     | Some f \<Rightarrow> matched (PFloat f) state)
            | _ \<Rightarrow>
                (case json_loads raw of
                   Inl e \<Rightarrow> if is_value_error e then Inr (defaulted d InvalidJson) else Inl e
                 | Inr parsed \<Rightarrow>
                     Inr (if (if is_dict d then is_dict parsed else is_list parsed)
                          then matched parsed state else defaulted d InvalidJson)))"

section \<open>Native values\<close>

text \<open>
  \<open>format(Decimal(repr(x)).normalize(), "f")\<close> of a finite float: its shortest digits in positional
  notation, whatever their number. The sign of a zero is not kept in the model.
\<close>

definition positional :: "pystr \<Rightarrow> int \<Rightarrow> pystr" where
  "positional ds point =
     (let n = int (length ds)
      in if point \<le> 0 then py ''0.'' @ replicate (nat (- point)) 48 @ ds
         else if n \<le> point then ds @ replicate (nat (point - n)) 48
         else take (nat point) ds @ py ''.'' @ drop (nat point) ds)"

definition plain_decimal_text :: "rat \<Rightarrow> pystr" where
  "plain_decimal_text x =
     (if x = 0 then py ''0''
      else let (c, e) = shortest_decimal \<bar>x\<bar> [1..<18];
               ds = nat_str c;
               t = positional (strip_zeros ds) (int (length ds) + e)
           in if x < 0 then 45 # t else t)"

definition plain_decimal :: "pyfloat \<Rightarrow> pystr result" where
  "plain_decimal f =
     (case f of Finite x \<Rightarrow> Inr (plain_decimal_text x) | _ \<Rightarrow> Inl ConfigDirectorValidationError)"

definition integer_text :: "int \<Rightarrow> pystr result" where
  "integer_text i =
     (case str_of_int i of
        Inl e \<Rightarrow> if is_value_error e then Inl ConfigDirectorValidationError else Inl e
      | Inr t \<Rightarrow> Inr t)"

fun validate_json_contents :: "pyval \<Rightarrow> unit result" where
  "validate_json_contents PNone = Inr ()"
| "validate_json_contents (PBool b) = Inr ()"
| "validate_json_contents (PInt i) = Inr ()"
| "validate_json_contents (PStr s) = Inr ()"
| "validate_json_contents (PFloat f) =
     (if fl_is_finite f then Inr () else Inl ConfigDirectorValidationError)"
| "validate_json_contents (PList vs) = bindE (mapE validate_json_contents vs) (\<lambda>_. Inr ())"
| "validate_json_contents (PDict d) =
     bindE (mapE (\<lambda>(k, v).
              case k of PStr _ \<Rightarrow> validate_json_contents v | _ \<Rightarrow> Inl ConfigDirectorTypeError) d)
       (\<lambda>_. Inr ())"
| "validate_json_contents (PTuple vs) = Inl ConfigDirectorTypeError"
| "validate_json_contents (PObj t s) = Inl ConfigDirectorTypeError"

definition json_text :: "pyval \<Rightarrow> pystr result" where
  "json_text v =
     bindE (validate_json_contents v) (\<lambda>_.
       case json_dumps value_style v of
         Inl e \<Rightarrow> if is_value_error e then Inl ConfigDirectorValidationError else Inl e
       | Inr t \<Rightarrow> Inr t)"

definition encode_value :: "pyval \<Rightarrow> pyval \<Rightarrow> (pystr \<times> pystr) result" where
  "encode_value key v =
     bindE (validate_config_key key) (\<lambda>_.
       case v of
         PNone \<Rightarrow> Inl ConfigDirectorTypeError
       | PBool b \<Rightarrow> Inr (py ''boolean'', bool_text b)
       | PInt i \<Rightarrow> bindE (integer_text i) (\<lambda>t. Inr (py ''integer'', t))
       | PFloat f \<Rightarrow> bindE (plain_decimal f) (\<lambda>t. Inr (py ''float'', t))
       | PStr s \<Rightarrow> Inr (py ''string'', s)
       | PDict _ \<Rightarrow> bindE (json_text v) (\<lambda>t. Inr (py ''json'', t))
       | PList _ \<Rightarrow> bindE (json_text v) (\<lambda>t. Inr (py ''json'', t))
       | _ \<Rightarrow> Inl ConfigDirectorTypeError)"

text \<open>A key with content is a string, so the config carries it as one.\<close>

definition unconditional_config ::
  "pyval \<Rightarrow> pyval \<Rightarrow> pystr \<Rightarrow> pystr option \<Rightarrow> config result" where
  "unconditional_config key v config_id value_id =
     bindE (encode_value key v) (\<lambda>(t, text).
       case key of
         PStr k \<Rightarrow> Inr \<lparr>cfg_id = config_id, cfg_key = k, cfg_type = PStr t,
           cfg_target = \<lparr>tr_default_value = text, tr_rules = [], tr_default_value_id = value_id\<rparr>,
           cfg_variations = [\<lparr>var_value = SStr text, var_name = None\<rparr>],
           cfg_type_constraints = None\<rparr>
       | _ \<Rightarrow> Inl ConfigDirectorValidationError)"

text \<open>The type the caller asked for, as the parser tells defaults apart.\<close>

definition same_type :: "pyval \<Rightarrow> pyval \<Rightarrow> bool" where
  "same_type v d =
     (case d of
        PBool _ \<Rightarrow> (\<exists>b. v = PBool b)
      | PInt _ \<Rightarrow> (\<exists>i. v = PInt i)
      | PFloat _ \<Rightarrow> (\<exists>x. v = PFloat (Finite x))
      | PStr _ \<Rightarrow> (\<exists>s. v = PStr s)
      | PDict _ \<Rightarrow> is_dict v
      | _ \<Rightarrow> is_list v)"

text \<open>
  The values a native config reads back exactly: every boolean, integer and finite float, every
  string but the empty one, and documents without floats.
\<close>

definition native_plain :: "pyval \<Rightarrow> bool" where
  "native_plain v =
     (case v of
        PBool _ \<Rightarrow> True
      | PInt _ \<Rightarrow> True
      | PFloat (Finite x) \<Rightarrow> is_double x
      | PStr s \<Rightarrow> s \<noteq> []
      | PDict _ \<Rightarrow> json_plain v
      | PList _ \<Rightarrow> json_plain v
      | _ \<Rightarrow> False)"

section \<open>Plain decimals read back\<close>

lemma positional_value:
  assumes ds: "list_all is_ascii_digit ds" "ds \<noteq> []"
  shows "decimal_value (positional ds point) =
    Some (of_nat (digits_nat ds) * 10 powi (point - int (length ds)))"
proof -
  have hd: "is_ascii_digit (hd ds)" using ds by (cases ds) auto
  consider "point \<le> 0" | "0 < point" "int (length ds) \<le> point" | "0 < point" "point < int (length ds)"
    by linarith
  then show ?thesis
  proof cases
    case 1
    let ?fp = "replicate (nat (- point)) 48 @ ds"
    have "decimal_mantissa ([48] @ 46 # ?fp) = Some (digits_nat ([48] @ ?fp), length ?fp, [])"
      using ds by (intro decimal_mantissa_point) (auto simp: is_ascii_digit_def list_all_iff)
    moreover have "digits_nat ([48] @ ?fp) = digits_nat ds"
      using digits_nat_leading_zeros [of 1 ?fp] by simp
    ultimately have "decimal_value (48 # 46 # ?fp) = Some (of_nat (digits_nat ds) * 10 powi (- int (length ?fp)))"
      by (intro decimal_value_mantissa) (auto simp: is_ascii_digit_def)
    moreover have "- int (length ?fp) = point - int (length ds)" using 1 by simp
    ultimately show ?thesis using 1 by (simp add: positional_def)
  next
    case 2
    let ?s = "ds @ replicate (nat (point - int (length ds))) 48"
    have "decimal_mantissa ?s = Some (digits_nat ?s, 0, [])"
      using ds by (intro decimal_mantissa_whole) (auto simp: is_ascii_digit_def list_all_iff)
    then have "decimal_value ?s = Some (of_nat (digits_nat ?s) * 10 powi (- int 0))"
      using ds hd by (intro decimal_value_mantissa) auto
    moreover have "(of_nat (digits_nat ?s) :: rat) =
        of_nat (digits_nat ds) * 10 powi (point - int (length ds))"
      using 2 by (simp add: power_int_def)
    ultimately show ?thesis using 2 by (simp add: positional_def)
  next
    case 3
    let ?i = "take (nat point) ds" and ?f = "drop (nat point) ds"
    have "decimal_mantissa (?i @ 46 # ?f) = Some (digits_nat (?i @ ?f), length ?f, [])"
      using ds 3 by (intro decimal_mantissa_point)
        (auto simp: list_all_iff dest: in_set_takeD in_set_dropD)
    then have "decimal_value (?i @ 46 # ?f) = Some (of_nat (digits_nat ds) * 10 powi (- int (length ?f)))"
      using ds hd 3 by (intro decimal_value_mantissa) auto
    moreover have "- int (length ?f) = point - int (length ds)" using 3 by simp
    ultimately show ?thesis using 3 by (simp add: positional_def)
  qed
qed

lemma plain_digits_value:
  assumes "0 < c"
  shows "decimal_value (positional (strip_zeros (nat_str c)) (int (length (nat_str c)) + e)) =
    Some (of_nat c * 10 powi e)"
proof -
  let ?ds = "strip_zeros (nat_str c)"
  obtain k where k: "nat_str c = ?ds @ replicate k 48" using strip_zeros_split by blast
  have "digits_nat (nat_str c) = digits_nat (?ds @ replicate k 48)" using k by simp
  then have c: "c = digits_nat ?ds * 10 ^ k" by simp
  then have "?ds \<noteq> []" using assms by (auto simp: digits_nat_def)
  moreover have "list_all is_ascii_digit ?ds"
    using nat_str_digits [of c] k by (metis list_all_append)
  ultimately have "decimal_value (positional ?ds (int (length (nat_str c)) + e)) =
      Some (of_nat (digits_nat ?ds) * 10 powi (int (length (nat_str c)) + e - int (length ?ds)))"
    by (intro positional_value)
  moreover have "length (nat_str c) = length ?ds + k" using k by (metis length_append length_replicate)
  moreover have "(of_nat c :: rat) = of_nat (digits_nat ?ds) * 10 ^ k"
    by (subst c) simp
  ultimately show ?thesis by (simp add: power_int_add mult.assoc)
qed

lemma positional_text:
  assumes "list_all is_ascii_digit ds" and "ds \<noteq> []"
  shows "positional ds point \<noteq> []" and "is_ascii_digit (hd (positional ds point))"
    and "list_all is_decimal_character (positional ds point)"
proof -
  have "is_ascii_digit (hd ds)" using assms by (cases ds) auto
  then show "positional ds point \<noteq> []" and "is_ascii_digit (hd (positional ds point))"
    using assms by (auto simp: positional_def Let_def is_ascii_digit_def hd_append take_eq_Nil)
  show "list_all is_decimal_character (positional ds point)"
    using assms by (auto simp: positional_def Let_def list_all_iff is_decimal_character_def
        is_ascii_digit_def dest: in_set_takeD in_set_dropD)
qed

lemma plain_decimal_reads_back:
  assumes "is_double x"
  shows "float_of_str (plain_decimal_text x) = Inr (Finite x)"
proof (cases "x = 0")
  case True
  have "decimal_value [48] = Some (of_nat (digits_nat [48]) * 10 powi (- int 0))"
    by (intro decimal_value_mantissa decimal_mantissa_whole) (auto simp: is_ascii_digit_def)
  then show ?thesis using True by (simp add: plain_decimal_text_def float_of_str_def digits_nat_def)
next
  case False
  have ax: "is_double \<bar>x\<bar>" "0 < \<bar>x\<bar>"
    using assms False by (auto simp: is_double_def quantum_exp_def abs_if)
  obtain c e where ce: "shortest_decimal \<bar>x\<bar> [1..<18] = (c, e)" by fastforce
  note sd = shortest_decimal_double [OF ax ce]
  let ?t = "positional (strip_zeros (nat_str c)) (int (length (nat_str c)) + e)"
  have t: "decimal_value ?t = Some (of_nat c * 10 powi e)" by (rule plain_digits_value [OF sd(1)])
  show ?thesis
  proof (cases "x < 0")
    case True
    have "split_sign ?t = (False, ?t)"
      by (intro split_sign_digit positional_text shortest_digits sd)
    then have "decimal_value (45 # ?t) = Some (- (of_nat c * 10 powi e))"
      using t by (auto simp: decimal_value_def split_sign_def Let_def split: option.splits prod.splits if_splits)
    then show ?thesis
      using True ce round_double_minus [OF sd(2)]
      by (simp add: plain_decimal_text_def float_of_str_def Let_def)
  next
    case False
    then show ?thesis using t ce sd(2) \<open>x \<noteq> 0\<close> by (simp add: plain_decimal_text_def float_of_str_def Let_def)
  qed
qed
lemma plain_decimal_characters:
  assumes "is_double x"
  shows "list_all is_decimal_character (plain_decimal_text x)"
proof (cases "x = 0")
  case True
  then show ?thesis by (simp add: plain_decimal_text_def is_decimal_character_def is_ascii_digit_def)
next
  case False
  have ax: "is_double \<bar>x\<bar>" "0 < \<bar>x\<bar>"
    using assms False by (auto simp: is_double_def quantum_exp_def abs_if)
  obtain c e where ce: "shortest_decimal \<bar>x\<bar> [1..<18] = (c, e)" by fastforce
  then show ?thesis
    using False positional_text(3) [OF shortest_digits, OF shortest_decimal_double(1) [OF ax ce]
        shortest_decimal_double(1) [OF ax ce]]
    by (simp add: plain_decimal_text_def is_decimal_character_def Let_def)
qed

lemma parse_float_plain_decimal: "is_double x \<Longrightarrow> parse_float (plain_decimal_text x) = Some (Finite x)"
  by (simp add: parse_float_def plain_decimal_characters plain_decimal_reads_back fl_is_finite_def)

section \<open>Integers and booleans read back\<close>

lemma parse_boolean_text: "parse_boolean (bool_text b) = Some b"
  by (simp add: parse_boolean_def bool_text_def str_lower_def lower_char_def)

lemma parse_integer_text: "str_of_int i = Inr t \<Longrightarrow> parse_integer t = Some i"
  using int_of_str_str_of_int [of i t] int_str_decimal_characters [of i]
  by (auto simp: parse_integer_def str_of_int_def split: if_splits)

lemma integer_text_Inr: "integer_text i = Inr t \<longleftrightarrow> str_of_int i = Inr t"
  by (auto simp: integer_text_def split: sum.splits if_splits)

lemma json_text_dumps: "json_text v = Inr t \<Longrightarrow> json_dumps value_style v = Inr t"
  by (auto simp: json_text_def bindE_Inr_iff split: sum.splits if_splits)

lemma json_text_loads: "json_plain v \<Longrightarrow> json_text v = Inr t \<Longrightarrow> json_loads t = Inr v"
  by (rule json_roundtrip [OF _ json_text_dumps])

lemmas json_text_simps = json_text_loads [of "PList vs" for vs, simplified]
  json_text_loads [of "PDict d" for d, simplified]

lemma parse_float_finite: "parse_float t = Some f \<Longrightarrow> \<exists>x. f = Finite x"
  by (auto simp: parse_float_def fl_is_finite_def split: if_splits sum.splits pyfloat.splits)

lemma nonempty_texts:
  "bool_text b \<noteq> []" "str_of_int i = Inr t \<Longrightarrow> t \<noteq> []" "is_double x \<Longrightarrow> plain_decimal_text x \<noteq> []"
  "json_plain v \<Longrightarrow> json_dumps value_style v = Inr t \<Longrightarrow> t \<noteq> []"
proof -
  show "bool_text b \<noteq> []" by (simp add: bool_text_def)
  show "str_of_int i = Inr t \<Longrightarrow> t \<noteq> []"
    using int_str_decimal_characters [of i] by (auto simp: str_of_int_def split: if_splits)
  show "is_double x \<Longrightarrow> plain_decimal_text x \<noteq> []"
    using plain_decimal_reads_back [of x]
    by (auto simp: float_of_str_def decimal_value_def split_sign_def decimal_mantissa_def)
  show "json_plain v \<Longrightarrow> json_dumps value_style v = Inr t \<Longrightarrow> t \<noteq> []"
    using json_dumps_head [of v t] by auto
qed

lemma evaluate_unconditional:
  assumes "unconditional_config key v cid vid = Inr cfg"
  obtains k t tx where "encode_value key v = Inr (t, tx)"
    and "evaluate cfg ec segs =
      \<lparr>st_id = cid, st_key = k, st_type = PStr t, st_value = Some tx, st_value_id = vid\<rparr>"
proof -
  obtain t tx where e: "encode_value key v = Inr (t, tx)"
    using assms by (auto simp: unconditional_config_def bindE_Inr_iff)
  have "\<exists>k. key = PStr k"
    using e has_content_str by (auto simp: encode_value_def bindE_Inr_iff validate_config_key_Inr)
  then obtain k where "key = PStr k" ..
  with assms e have cfg: "cfg = \<lparr>cfg_id = cid, cfg_key = k, cfg_type = PStr t,
      cfg_target = \<lparr>tr_default_value = tx, tr_rules = [], tr_default_value_id = vid\<rparr>,
      cfg_variations = [\<lparr>var_value = SStr tx, var_name = None\<rparr>], cfg_type_constraints = None\<rparr>"
    by (simp add: unconditional_config_def)
  have "evaluate cfg ec segs =
      \<lparr>st_id = cid, st_key = k, st_type = PStr t, st_value = Some tx, st_value_id = vid\<rparr>"
    unfolding cfg by (simp add: evaluate_def get_config_value_def)
  with e show ?thesis by (rule that)
qed

lemma parse_config_value_cases:
  assumes "parse_config_value state d = Inr r"
  obtains (default_value) reason where "r = defaulted d reason" and "reason \<noteq> FoundMatch"
    | (match) v where "r = matched v state" and "same_type v d"
proof (cases d rule: json_plain.cases)
  case (4 f)
  then show ?thesis using assms that parse_float_finite
    by (fastforce simp: parse_config_value_def same_type_def split: option.splits if_splits)
qed (use assms that in \<open>auto simp: parse_config_value_def same_type_def bindE_Inr_iff is_dict_def
    split: option.splits if_splits sum.splits pyval.splits\<close>)

lemma unconditional_reads_back:
  assumes "native_plain v" and "same_type v d" and "unconditional_config key v cid vid = Inr cfg"
  shows "parse_config_value (evaluate cfg ec segs) d =
    Inr \<lparr>pv_value = v, pv_reason = FoundMatch, pv_used_default = False, pv_value_id = vid\<rparr>"
proof -
  obtain k t tx where e: "encode_value key v = Inr (t, tx)"
    and st: "evaluate cfg ec segs =
      \<lparr>st_id = cid, st_key = k, st_type = PStr t, st_value = Some tx, st_value_id = vid\<rparr>"
    using evaluate_unconditional [OF assms(3)] by metis
  show ?thesis
    using assms(1,2) e unfolding st
    by (auto simp: native_plain_def same_type_def encode_value_def parse_config_value_def matched_def
        bindE_Inr_iff integer_text_Inr plain_decimal_def parse_boolean_text parse_integer_text
        parse_float_plain_decimal nonempty_texts json_text_simps is_dict_def is_list_def
        in_string_set_def types_not_readable_as_string_def
        dest: json_text_dumps split: pyval.splits scalar.splits pyfloat.splits)
qed

section \<open>Properties\<close>

text \<open>
  A caller gets a value of the type of its default, taken from the
  config with the ID of the value, or the default itself with the reason: never a value of another
  type. It is the default exactly when the reason is not a match.
\<close>

theorem parse_config_value_typed:
  assumes "parse_config_value state d = Inr r"
  shows "(pv_used_default r \<longleftrightarrow> pv_reason r \<noteq> FoundMatch) \<and>
    (if pv_used_default r then pv_value r = d \<and> pv_value_id r = None
     else same_type (pv_value r) d \<and> pv_value_id r = st_value_id state)"
  using assms by (cases rule: parse_config_value_cases) (auto simp: defaulted_def matched_def)

definition number_state :: config_state where
  "number_state = \<lparr>st_id = [], st_key = [], st_type = PStr (py ''string''), st_value = Some (py ''true''),
     st_value_id = Some (py ''v1'')\<rparr>"

theorem parse_config_value_typed_witness:
  "same_type (PBool True) (PBool False)"
proof -
  have "parse_config_value number_state (PBool False) = Inr (matched (PBool True) number_state)"
    by (simp add: parse_config_value_def number_state_def parse_boolean_def str_lower_def lower_char_def)
  from parse_config_value_typed [OF this] show ?thesis by (simp add: matched_def)
qed



end
