(* ===== verification/Sse_Parser.thy ===== *)
theory Sse_Parser
  imports Py_Str
begin

text \<open>
  The parser of an event stream: \<open>_eventsource/parser.py\<close>. The state of the parser is a record;
  the calls it makes to its three callbacks are the list \<open>ps_calls\<close>, oldest first. A method that
  raises returns the exception together with the state at that moment, because the object lives on.
  The reference is a machine that reads one character at a time; the lemmas show that feeding the
  stream in chunks of any size does the same.
\<close>

section \<open>State\<close>

record event_source_message =
  msg_data :: pystr
  msg_type :: "pystr option"
  msg_id :: "pystr option"

datatype sse_call = OnEvent event_source_message | OnRetry int | OnComment pystr

record sse_parser =
  has_on_event :: bool
  has_on_retry :: bool
  has_on_comment :: bool
  max_line_chars :: nat
  max_event_chars :: nat
  first_chunk :: bool
  line_parts :: "pystr list"
  line_len :: nat
  pending_lf :: bool
  event_type :: "pystr option"
  data_parts :: "pystr list"
  data_len :: nat
  last_event_id :: "pystr option"
  ps_calls :: "sse_call list"

definition default_max_line_chars :: nat where
  "default_max_line_chars = 2 ^ 20"

definition default_max_event_chars :: nat where
  "default_max_event_chars = 2 ^ 24"

definition new_parser :: "bool \<Rightarrow> bool \<Rightarrow> bool \<Rightarrow> nat \<Rightarrow> nat \<Rightarrow> sse_parser" where
  "new_parser on_event on_retry on_comment max_line max_event =
     \<lparr>has_on_event = on_event, has_on_retry = on_retry, has_on_comment = on_comment,
      max_line_chars = max_line, max_event_chars = max_event, first_chunk = True, line_parts = [],
      line_len = 0, pending_lf = False, event_type = None, data_parts = [], data_len = 0,
      last_event_id = None, ps_calls = []\<rparr>"

text \<open>A method either returns with the new state, or raises with the state it leaves behind.\<close>

type_synonym parser_step = "(exn \<times> sse_parser) + sse_parser"

definition call :: "sse_call \<Rightarrow> sse_parser \<Rightarrow> sse_parser" where
  "call c p = p\<lparr>ps_calls := ps_calls p @ [c]\<rparr>"

section \<open>Lines\<close>

definition field_value :: "pystr \<Rightarrow> nat \<Rightarrow> pystr" where
  "field_value line start =
     (case drop start line of
        c # rest \<Rightarrow> if c = 32 then rest else c # rest
      | [] \<Rightarrow> [])"

definition reset_event :: "sse_parser \<Rightarrow> sse_parser" where
  "reset_event p = p\<lparr>event_type := None, data_parts := [], data_len := 0\<rparr>"

definition emit_event :: "sse_parser \<Rightarrow> sse_parser" where
  "emit_event p =
     (let data = str_join [10] (data_parts p);
          p' = (if data \<noteq> [] \<and> has_on_event p
                then call (OnEvent \<lparr>msg_data = data, msg_type = event_type p,
                             msg_id = last_event_id p\<rparr>) p
                else p)
      in reset_event p')"

definition apply_field :: "pystr \<Rightarrow> pystr \<Rightarrow> sse_parser \<Rightarrow> parser_step" where
  "apply_field field v p =
     (if field = py ''event'' then Inr (p\<lparr>event_type := Some v\<rparr>)
      else if field = py ''data'' then
        (let n = data_len p + length v + 1
         in if max_event_chars p < n then Inl (StreamTooLargeError, p\<lparr>data_len := n\<rparr>)
            else Inr (p\<lparr>data_len := n, data_parts := data_parts p @ [v]\<rparr>))
      else if field = py ''id'' then
        Inr (if 0 \<notin> set v then p\<lparr>last_event_id := Some v\<rparr> else p)
      else if field = py ''retry'' then
        (if v \<noteq> [] \<and> list_all is_ascii_digit v \<and> has_on_retry p
         then (case int_of_str v of Inl e \<Rightarrow> Inl (e, p) | Inr n \<Rightarrow> Inr (call (OnRetry n) p))
         else Inr p)
      else Inr p)"

definition dispatch_line :: "pystr \<Rightarrow> sse_parser \<Rightarrow> parser_step" where
  "dispatch_line line p =
     (if take 1 line = [58] then
        Inr (if has_on_comment p then call (OnComment (field_value line 1)) p else p)
      else if line = [] then Inr (emit_event p)
      else if 58 \<notin> set line then apply_field line [] p
      else
        let colon = length (takeWhile (\<lambda>c. c \<noteq> 58) line)
        in apply_field (take colon line) (field_value line (colon + 1)) p)"

definition buffer_line :: "pystr \<Rightarrow> sse_parser \<Rightarrow> parser_step" where
  "buffer_line fragment p =
     (let n = line_len p + length fragment
      in if max_line_chars p < n then Inl (StreamTooLargeError, p\<lparr>line_len := n\<rparr>)
         else Inr (p\<lparr>line_len := n, line_parts := line_parts p @ [fragment]\<rparr>))"

definition finish_line :: "pystr \<Rightarrow> sse_parser \<Rightarrow> parser_step" where
  "finish_line fragment p =
     (if line_parts p \<noteq> []
      then dispatch_line (concat (line_parts p @ [fragment])) (p\<lparr>line_parts := [], line_len := 0\<rparr>)
      else dispatch_line fragment p)"

section \<open>Chunks\<close>

definition strip_bom :: "pystr \<Rightarrow> pystr" where
  "strip_bom chunk =
     (if str_startswith chunk [65279] then drop 1 chunk
      else if str_startswith chunk [239, 187, 191] then drop 3 chunk else chunk)"

text \<open>The loop: \<open>fragment\<close> is \<open>chunk[start:index]\<close>, the list what is left from \<open>index\<close>.\<close>

function scan_chunk :: "pystr \<Rightarrow> pystr \<Rightarrow> sse_parser \<Rightarrow> parser_step" where
  "scan_chunk fragment [] p = (if fragment \<noteq> [] then buffer_line fragment p else Inr p)"
| "scan_chunk fragment (c # rest) p =
     (if c \<noteq> 13 \<and> c \<noteq> 10 then scan_chunk (fragment @ [c]) rest p
      else
        case finish_line fragment p of
          Inl e \<Rightarrow> Inl e
        | Inr p' \<Rightarrow>
            if c = 13 then
              (case rest of
                 d # rest' \<Rightarrow> if d = 10 then scan_chunk [] rest' p' else scan_chunk [] rest p'
               | [] \<Rightarrow> scan_chunk [] [] (p'\<lparr>pending_lf := True\<rparr>))
            else scan_chunk [] rest p')"
  by pat_completeness auto
termination
  by (relation "measure (\<lambda>(fragment, rest, p). length rest)") auto

definition feed :: "pystr \<Rightarrow> sse_parser \<Rightarrow> parser_step" where
  "feed chunk0 p0 =
     (let p = p0\<lparr>first_chunk := False\<rparr>;
          chunk = (if first_chunk p0 then strip_bom chunk0 else chunk0)
      in case chunk of
           [] \<Rightarrow> Inr p
         | c # rest \<Rightarrow>
             if pending_lf p then
               (if c = 10 then scan_chunk [] rest (p\<lparr>pending_lf := False\<rparr>)
                else scan_chunk [] chunk (p\<lparr>pending_lf := False\<rparr>))
             else scan_chunk [] chunk p)"

definition finish_stream :: "sse_parser \<Rightarrow> sse_parser" where
  "finish_stream p = reset_event (p\<lparr>line_parts := [], line_len := 0, pending_lf := False\<rparr>)"

text \<open>Feeding one chunk after another, until one raises.\<close>

fun feed_all :: "pystr list \<Rightarrow> sse_parser \<Rightarrow> parser_step" where
  "feed_all [] p = Inr p"
| "feed_all (c # cs) p = (case feed c p of Inl e \<Rightarrow> Inl e | Inr p' \<Rightarrow> feed_all cs p')"

section \<open>The reference: one character at a time\<close>

text \<open>
  What the event stream format says: a line ends at a CR, an LF or a CRLF pair; the data buffer
  takes each value followed by an LF, and loses the last LF when the event is dispatched. The
  reference has no limits.
\<close>

record sse_reader =
  rd_line :: pystr
  rd_skip_lf :: bool
  rd_type :: "pystr option"
  rd_data :: pystr
  rd_id :: "pystr option"
  rd_calls :: "sse_call list"

record sse_handlers =
  on_event :: bool
  on_retry :: bool
  on_comment :: bool

definition read_field :: "sse_handlers \<Rightarrow> pystr \<Rightarrow> pystr \<Rightarrow> sse_reader \<Rightarrow> sse_reader" where
  "read_field h field v r =
     (if field = py ''event'' then r\<lparr>rd_type := Some v\<rparr>
      else if field = py ''data'' then r\<lparr>rd_data := rd_data r @ v @ [10]\<rparr>
      else if field = py ''id'' then (if 0 \<in> set v then r else r\<lparr>rd_id := Some v\<rparr>)
      else if field = py ''retry'' \<and> v \<noteq> [] \<and> list_all is_ascii_digit v \<and> on_retry h then
        r\<lparr>rd_calls := rd_calls r @ [OnRetry (int (digits_nat v))]\<rparr>
      else r)"

definition read_blank :: "sse_handlers \<Rightarrow> sse_reader \<Rightarrow> sse_reader" where
  "read_blank h r =
     r\<lparr>rd_type := None, rd_data := [],
       rd_calls := rd_calls r @
         (if butlast (rd_data r) \<noteq> [] \<and> on_event h
          then [OnEvent \<lparr>msg_data = butlast (rd_data r), msg_type = rd_type r, msg_id = rd_id r\<rparr>]
          else [])\<rparr>"

text \<open>A line is its part before the first colon and, after one optional space, its part after.\<close>

definition drop_space :: "pystr \<Rightarrow> pystr" where
  "drop_space s = (if take 1 s = [32] then drop 1 s else s)"

definition read_line :: "sse_handlers \<Rightarrow> pystr \<Rightarrow> sse_reader \<Rightarrow> sse_reader" where
  "read_line h line r =
     (let name = takeWhile (\<lambda>c. c \<noteq> 58) line; rest = dropWhile (\<lambda>c. c \<noteq> 58) line
      in if line = [] then read_blank h r
         else if name = [] then
           (if on_comment h then r\<lparr>rd_calls := rd_calls r @ [OnComment (drop_space (tl rest))]\<rparr> else r)
         else read_field h name (drop_space (tl rest)) r)"

definition read_char :: "sse_handlers \<Rightarrow> nat \<Rightarrow> sse_reader \<Rightarrow> sse_reader" where
  "read_char h c r =
     (if rd_skip_lf r \<and> c = 10 then r\<lparr>rd_skip_lf := False\<rparr>
      else if c = 13 \<or> c = 10 then
        (read_line h (rd_line r) (r\<lparr>rd_line := [], rd_skip_lf := False\<rparr>))\<lparr>rd_skip_lf := (c = 13)\<rparr>
      else r\<lparr>rd_line := rd_line r @ [c], rd_skip_lf := False\<rparr>)"

definition read_text :: "sse_handlers \<Rightarrow> sse_reader \<Rightarrow> pystr \<Rightarrow> sse_reader" where
  "read_text h r s = fold (read_char h) s r"

text \<open>The reader that a parser implements.\<close>

definition reader_of :: "sse_parser \<Rightarrow> sse_reader" where
  "reader_of p =
     \<lparr>rd_line = concat (line_parts p), rd_skip_lf = pending_lf p, rd_type = event_type p,
      rd_data = concat (map (\<lambda>v. v @ [10]) (data_parts p)), rd_id = last_event_id p,
      rd_calls = ps_calls p\<rparr>"

definition handlers_of :: "sse_parser \<Rightarrow> sse_handlers" where
  "handlers_of p =
     \<lparr>on_event = has_on_event p, on_retry = has_on_retry p, on_comment = has_on_comment p\<rparr>"

text \<open>What a method leaves as it was, and what it does to the reader.\<close>

definition refines :: "sse_parser \<Rightarrow> sse_parser \<Rightarrow> sse_reader \<Rightarrow> bool" where
  "refines p p' r \<longleftrightarrow> reader_of p' = r \<and> handlers_of p' = handlers_of p \<and>
     first_chunk p' = first_chunk p \<and> line_parts p' = line_parts p \<and> pending_lf p' = pending_lf p"

text \<open>The state of the reader in the middle of a chunk.\<close>

abbreviation mid_chunk :: "sse_parser \<Rightarrow> pystr \<Rightarrow> sse_reader" where
  "mid_chunk p fragment \<equiv> reader_of p\<lparr>rd_line := concat (line_parts p) @ fragment\<rparr>"

text \<open>The invariant of the buffers, and the state a method leaves behind.\<close>

definition parser_ok :: "sse_parser \<Rightarrow> bool" where
  "parser_ok p \<longleftrightarrow>
     length (concat (line_parts p)) \<le> line_len p \<and> length (concat (line_parts p)) \<le> max_line_chars p \<and>
     sum_list (map (\<lambda>v. length v + 1) (data_parts p)) \<le> data_len p \<and>
     sum_list (map (\<lambda>v. length v + 1) (data_parts p)) \<le> max_event_chars p"

definition state_after :: "parser_step \<Rightarrow> sse_parser" where
  "state_after s = (case s of Inl (e, p) \<Rightarrow> p | Inr p \<Rightarrow> p)"

text \<open>What every method keeps: the invariant and the limits.\<close>

definition keeps :: "sse_parser \<Rightarrow> parser_step \<Rightarrow> bool" where
  "keeps p s \<longleftrightarrow> (parser_ok p \<longrightarrow> parser_ok (state_after s)) \<and>
     max_line_chars (state_after s) = max_line_chars p \<and>
     max_event_chars (state_after s) = max_event_chars p"

text \<open>An event as a server writes it.\<close>

definition sse_line :: "string \<Rightarrow> pystr \<Rightarrow> pystr" where
  "sse_line field v = py field @ py '': '' @ v @ [10]"

definition sse_encode :: "pystr \<Rightarrow> pystr list \<Rightarrow> pystr" where
  "sse_encode t ls = sse_line ''event'' t @ concat (map (sse_line ''data'') ls) @ [10]"

definition one_line :: "pystr \<Rightarrow> bool" where
  "one_line s \<longleftrightarrow> 10 \<notin> set s \<and> 13 \<notin> set s"

section \<open>The parser implements the reader\<close>

lemma butlast_data:
  "butlast (concat (map (\<lambda>v. v @ [10]) parts)) = str_join [10] parts"
proof (induction "[10 :: nat]" parts rule: str_join.induct)
  case (3 t t' ts)
  then show ?case by (simp add: butlast_append)
qed simp_all

lemma int_of_str_digits: "v \<noteq> [] \<Longrightarrow> list_all is_ascii_digit v \<Longrightarrow> int_of_str v = Inr n \<Longrightarrow> n = int (digits_nat v)"
  by (cases v) (auto simp: int_of_str_def nat_of_digits_def is_ascii_digit_def split: if_splits)

lemma reader_of_simps [simp]:
  "rd_line (reader_of p) = concat (line_parts p)" "rd_skip_lf (reader_of p) = pending_lf p"
  by (simp_all add: reader_of_def)

lemma refines_call: "refines p (call c p) (reader_of p\<lparr>rd_calls := ps_calls p @ [c]\<rparr>)"
  by (simp add: refines_def call_def reader_of_def handlers_of_def)

lemma apply_field_refines:
  assumes "apply_field f v p = Inr p'"
  shows "refines p p' (read_field (handlers_of p) f v (reader_of p))"
  using assms int_of_str_digits [of v]
  by (auto simp: apply_field_def read_field_def refines_def reader_of_def handlers_of_def call_def Let_def
      split: if_splits sum.splits)

lemma emit_event_refines: "refines p (emit_event p) (read_blank (handlers_of p) (reader_of p))"
  by (auto simp: emit_event_def read_blank_def refines_def reader_of_def handlers_of_def call_def
      reset_event_def butlast_data Let_def)

lemma field_value_drop: "field_value line n = drop_space (drop n line)"
  by (cases "drop n line") (auto simp: field_value_def drop_space_def simp del: drop_drop)

lemma dropWhile_drop: "dropWhile P xs = drop (length (takeWhile P xs)) xs"
  by (induction xs) auto

lemma dispatch_line_refines:
  assumes "dispatch_line line p = Inr p'"
  shows "refines p p' (read_line (handlers_of p) line (reader_of p))"
proof -
  consider "line = []" | "line \<noteq> []" "take 1 line = [58]"
    | "line \<noteq> []" "take 1 line \<noteq> [58]" "58 \<notin> set line" | "line \<noteq> []" "take 1 line \<noteq> [58]" "58 \<in> set line"
    by blast
  then show ?thesis
  proof cases
    case 1
    then show ?thesis using assms emit_event_refines [of p] by (auto simp: dispatch_line_def read_line_def)
  next
    case 2
    then obtain t where "line = 58 # t" by (cases line) auto
    then show ?thesis
      using assms refines_call [of p]
      by (auto simp: dispatch_line_def read_line_def field_value_drop refines_def reader_of_def
          handlers_of_def call_def)
  next
    case 3
    then have tw: "takeWhile (\<lambda>c. c \<noteq> 58) line = line" "dropWhile (\<lambda>c. c \<noteq> 58) line = []"
      by (auto simp: takeWhile_eq_all_conv dropWhile_eq_Nil_conv)
    then have "read_line (handlers_of p) line (reader_of p) = read_field (handlers_of p) line [] (reader_of p)"
      unfolding read_line_def Let_def tw using 3 by (simp add: drop_space_def)
    moreover have "apply_field line [] p = Inr p'" using 3 assms by (simp add: dispatch_line_def)
    ultimately show ?thesis using apply_field_refines by simp
  next
    case 4
    let ?n = "length (takeWhile (\<lambda>c. c \<noteq> 58) line)"
    have "takeWhile (\<lambda>c. c \<noteq> 58) line \<noteq> []" using 4 by (cases line) auto
    moreover have "tl (dropWhile (\<lambda>c. c \<noteq> 58) line) = drop (?n + 1) line"
      by (simp add: dropWhile_drop tl_drop drop_Suc)
    moreover have "take ?n line = takeWhile (\<lambda>c. c \<noteq> 58) line" by (simp add: takeWhile_eq_take [symmetric])
    ultimately show ?thesis
      using 4 assms apply_field_refines by (auto simp: dispatch_line_def read_line_def field_value_drop Let_def)
  qed
qed

lemma finish_line_refines:
  assumes "finish_line fragment p = Inr p'" and "\<not> pending_lf p"
  shows "reader_of p' = read_line (handlers_of p) (rd_line (reader_of p) @ fragment)
      (reader_of p\<lparr>rd_line := [], rd_skip_lf := False\<rparr>)"
    and "handlers_of p' = handlers_of p" and "line_parts p' = []" and "\<not> pending_lf p'"
    and "first_chunk p' = first_chunk p"
proof -
  define q where "q = (if line_parts p \<noteq> [] then p\<lparr>line_parts := [], line_len := 0\<rparr> else p)"
  have "dispatch_line (concat (line_parts p) @ fragment) q = Inr p'"
    using assms(1) by (auto simp: finish_line_def q_def split: if_splits)
  from dispatch_line_refines [OF this]
  have r: "refines q p' (read_line (handlers_of q) (concat (line_parts p) @ fragment) (reader_of q))" .
  have q: "reader_of q = reader_of p\<lparr>rd_line := [], rd_skip_lf := False\<rparr>" "handlers_of q = handlers_of p"
    "line_parts q = []" "pending_lf q = pending_lf p" "first_chunk q = first_chunk p"
    using assms(2) by (auto simp: q_def reader_of_def handlers_of_def)
  show "reader_of p' = read_line (handlers_of p) (rd_line (reader_of p) @ fragment)
      (reader_of p\<lparr>rd_line := [], rd_skip_lf := False\<rparr>)"
    using r by (simp add: refines_def q)
  show "handlers_of p' = handlers_of p" "line_parts p' = []" "\<not> pending_lf p'"
    "first_chunk p' = first_chunk p"
    using r assms(2) by (simp_all add: refines_def q)
qed

lemma read_text_simps [simp]:
  "read_text h r [] = r" "read_text h r (c # s) = read_text h (read_char h c r) s"
  "read_text h r (s @ t) = read_text h (read_text h r s) t"
  by (simp_all add: read_text_def)

lemma read_char_skip:
  "c \<noteq> 10 \<Longrightarrow> read_char h c (r\<lparr>rd_skip_lf := b\<rparr>) = read_char h c (r\<lparr>rd_skip_lf := False\<rparr>)"
  by (simp add: read_char_def)

lemma mid_chunk_Nil: "mid_chunk p [] = reader_of p"
  by (simp add: reader_of_def)

lemma mid_chunk_no_skip: "\<not> pending_lf p \<Longrightarrow> reader_of p\<lparr>rd_skip_lf := False\<rparr> = reader_of p"
  by (simp add: reader_of_def)

lemma scan_chunk_refines:
  assumes "scan_chunk fragment rest p = Inr p'" and "\<not> pending_lf p"
  shows "reader_of p' = read_text (handlers_of p) (mid_chunk p fragment) rest
    \<and> handlers_of p' = handlers_of p \<and> first_chunk p' = first_chunk p"
  using assms
proof (induction fragment rest p rule: scan_chunk.induct)
  case (1 fragment p)
  then show ?case
    by (auto simp: buffer_line_def Let_def reader_of_def handlers_of_def split: if_splits)
next
  case (2 fragment c rest p)
  note run = 2(6) and lf = 2(7)
  let ?h = "handlers_of p"
  show ?case
  proof (cases "c = 13 \<or> c = 10")
    case False
    then have "scan_chunk (fragment @ [c]) rest p = Inr p'" using run by simp
    with 2(1) [OF _ this lf] False have IH: "reader_of p' = read_text ?h (mid_chunk p (fragment @ [c])) rest
        \<and> handlers_of p' = ?h \<and> first_chunk p' = first_chunk p" by simp
    have "read_char ?h c (mid_chunk p fragment) = mid_chunk p (fragment @ [c])"
      using False lf by (simp add: read_char_def reader_of_def)
    with IH show ?thesis by simp
  next
    case nl: True
    then obtain q where q: "finish_line fragment p = Inr q" using run by (auto split: sum.splits)
    note fl = finish_line_refines [OF q lf]
    have rc: "read_char ?h c (mid_chunk p fragment) = reader_of q\<lparr>rd_skip_lf := (c = 13)\<rparr>"
      using nl lf fl(1) by (auto simp: read_char_def)
    have mq: "reader_of q\<lparr>rd_line := concat (line_parts q)\<rparr> = reader_of q"
      by (simp add: reader_of_def)
    note noskip = mid_chunk_no_skip [OF fl(4)]
    consider "c = 10" | "c = 13" "rest = []" | u where "c = 13" "rest = 10 # u"
      | d u where "c = 13" "rest = d # u" "d \<noteq> 10"
      using nl by (cases rest) auto
    then show ?thesis
    proof cases
      case 1
      then have "scan_chunk [] rest q = Inr p'" using run q by simp
      then show ?thesis using 2(5) [OF _ q] 1 fl(2,4,5) rc noskip mq by simp
    next
      case 2
      then have "p' = q\<lparr>pending_lf := True\<rparr>" using run q by simp
      then show ?thesis using 2 rc fl(2,5) by (simp add: reader_of_def handlers_of_def)
    next
      case (3 u)
      then have "scan_chunk [] u q = Inr p'" using run q by simp
      moreover have "read_char ?h 10 (reader_of q\<lparr>rd_skip_lf := True\<rparr>) = reader_of q"
        using noskip by (simp add: read_char_def)
      ultimately show ?thesis
        using 2(3) [OF _ q 3(1,2)] 3 fl(2,4,5) rc mq by simp
    next
      case (4 d u)
      then have "scan_chunk [] rest q = Inr p'" using run q by simp
      then show ?thesis
        using 2(4) [OF _ q 4] 4 fl(2,4,5) rc noskip mq
          read_char_skip [OF 4(3), of ?h True "reader_of q", unfolded noskip] by simp
    qed
  qed
qed

lemma feed_refines:
  assumes "feed chunk p = Inr p'" and "\<not> first_chunk p"
  shows "reader_of p' = read_text (handlers_of p) (reader_of p) chunk
    \<and> handlers_of p' = handlers_of p \<and> \<not> first_chunk p'"
proof (cases chunk)
  case Nil
  then show ?thesis using assms by (auto simp: feed_def reader_of_def handlers_of_def)
next
  case (Cons c rest)
  let ?q = "p\<lparr>first_chunk := False, pending_lf := False\<rparr>"
  have q: "handlers_of ?q = handlers_of p" "mid_chunk ?q [] = reader_of p\<lparr>rd_skip_lf := False\<rparr>"
    by (simp_all add: reader_of_def handlers_of_def)
  show ?thesis
  proof (cases "pending_lf p \<and> c = 10")
    case True
    then have "scan_chunk [] rest ?q = Inr p'" using assms Cons by (simp add: feed_def)
    from scan_chunk_refines [OF this] q True Cons show ?thesis by (simp add: read_char_def)
  next
    case False
    have same: "\<not> pending_lf p \<Longrightarrow> ?q = p\<lparr>first_chunk := False\<rparr>" by (cases p) simp
    have run: "scan_chunk [] chunk ?q = Inr p'"
    proof (cases "pending_lf p")
      case True
      then show ?thesis using assms Cons False by (simp add: feed_def del: scan_chunk.simps)
    next
      case np: False
      then show ?thesis
        using assms Cons unfolding same [OF np] by (simp add: feed_def del: scan_chunk.simps)
    qed
    have "read_text (handlers_of p) (reader_of p\<lparr>rd_skip_lf := False\<rparr>) chunk =
        read_text (handlers_of p) (reader_of p) chunk"
    proof (cases "pending_lf p")
      case True
      then have same: "reader_of p\<lparr>rd_skip_lf := True\<rparr> = reader_of p" by (simp add: reader_of_def)
      show ?thesis
        using read_char_skip [of c "handlers_of p" True "reader_of p", unfolded same] True False Cons
        by simp
    next
      case False
      then show ?thesis by (simp add: mid_chunk_no_skip)
    qed
    with scan_chunk_refines [OF run] q show ?thesis by simp
  qed
qed


text \<open>
  The interface: a consumer that takes its input in chunks. The law makes the boundaries of the
  chunks invisible.
\<close>

locale chunked =
  fixes absorb :: "'s \<Rightarrow> 'c list \<Rightarrow> 's"
  assumes absorb_Nil: "absorb s [] = s"
    and absorb_append: "absorb s (xs @ ys) = absorb (absorb s xs) ys"
begin

lemma absorb_concat: "fold (\<lambda>c s. absorb s c) chunks s = absorb s (concat chunks)"
  by (induction chunks arbitrary: s) (simp_all add: absorb_Nil absorb_append)

lemma same_text_same_state:
  "concat cs = concat cs' \<Longrightarrow> fold (\<lambda>c s. absorb s c) cs s = fold (\<lambda>c s. absorb s c) cs' s"
  by (simp add: absorb_concat)

end

interpretation sse_text: chunked "read_text h" for h
  by unfold_locales simp_all

lemma feed_all_refines:
  assumes "feed_all chunks p = Inr p'" and "\<not> first_chunk p"
  shows "reader_of p' = read_text (handlers_of p) (reader_of p) (concat chunks) \<and>
    handlers_of p' = handlers_of p \<and> \<not> first_chunk p'"
proof -
  have "reader_of p' = fold (\<lambda>c r. read_text (handlers_of p) r c) chunks (reader_of p) \<and>
      handlers_of p' = handlers_of p \<and> \<not> first_chunk p'"
    using assms
  proof (induction chunks arbitrary: p)
    case (Cons c cs)
    then obtain q where q: "feed c p = Inr q" "feed_all cs q = Inr p'" by (auto split: sum.splits)
    with feed_refines [OF q(1) Cons.prems(2)] Cons.IH [OF q(2)] show ?case by simp
  qed simp
  then show ?thesis by (simp add: sse_text.absorb_concat)
qed

section \<open>Bounded buffers\<close>

lemma state_after_simps [simp]: "state_after (Inl (e, p)) = p" "state_after (Inr p) = p"
  by (simp_all add: state_after_def)

lemma keeps_refl: "keeps p (Inr p)"
  by (simp add: keeps_def)

lemma keeps_trans: "keeps p (Inr q) \<Longrightarrow> keeps q s \<Longrightarrow> keeps p s"
  by (simp add: keeps_def)

lemma keeps_apply_field: "keeps p (apply_field f v p)"
  by (auto simp: keeps_def apply_field_def parser_ok_def call_def Let_def split: sum.splits)

lemma keeps_dispatch_line: "keeps p (dispatch_line line p)"
  using keeps_apply_field
  by (auto simp: dispatch_line_def Let_def)
    (auto simp: keeps_def parser_ok_def emit_event_def reset_event_def call_def Let_def)

lemma keeps_finish_line: "keeps p (finish_line fragment p)"
proof (cases "line_parts p = []")
  case True
  then show ?thesis using keeps_dispatch_line by (simp add: finish_line_def)
next
  case False
  have "keeps p (Inr (p\<lparr>line_parts := [], line_len := 0\<rparr>))" by (simp add: keeps_def parser_ok_def)
  with False show ?thesis using keeps_trans keeps_dispatch_line by (simp add: finish_line_def)
qed

lemma keeps_buffer_line: "keeps p (buffer_line fragment p)"
  by (auto simp: keeps_def buffer_line_def parser_ok_def Let_def)

lemma keeps_scan_chunk: "keeps p (scan_chunk fragment rest p)"
proof (induction fragment rest p rule: scan_chunk.induct)
  case (1 fragment p)
  then show ?case by (simp add: keeps_buffer_line keeps_refl)
next
  case (2 fragment c rest p)
  show ?case
  proof (cases "c \<noteq> 13 \<and> c \<noteq> 10")
    case True
    then show ?thesis using 2(1) by simp
  next
    case nl: False
    show ?thesis
    proof (cases "finish_line fragment p")
      case (Inl e)
      then show ?thesis using nl keeps_finish_line [of p fragment] by auto
    next
      case (Inr q)
      have q: "keeps p (Inr q)" using keeps_finish_line [of p fragment] Inr by simp
      have lf: "keeps q (Inr (q\<lparr>pending_lf := True\<rparr>))" by (simp add: keeps_def parser_ok_def)
      have "keeps q (if c = 13 then (case rest of
               d # rest' \<Rightarrow> if d = 10 then scan_chunk [] rest' q else scan_chunk [] rest q
             | [] \<Rightarrow> scan_chunk [] [] (q\<lparr>pending_lf := True\<rparr>))
           else scan_chunk [] rest q)"
        using 2(2-5) [OF nl Inr] lf keeps_trans
        by (auto split: list.splits simp del: scan_chunk.simps(2))
      then show ?thesis
        using nl Inr keeps_trans [OF q] by (simp only: scan_chunk.simps(2) if_False sum.case)
    qed
  qed
qed

lemma keeps_feed: "keeps p (feed chunk p)"
proof -
  have k: "keeps p (Inr (p\<lparr>first_chunk := False\<rparr>))"
    "keeps p (Inr (p\<lparr>first_chunk := False, pending_lf := False\<rparr>))"
    by (simp_all add: keeps_def parser_ok_def)
  have "keeps p (scan_chunk [] s (p\<lparr>first_chunk := False\<rparr>))"
    "keeps p (scan_chunk [] s (p\<lparr>first_chunk := False, pending_lf := False\<rparr>))" for s
    by (rule keeps_trans [OF k(1) keeps_scan_chunk], rule keeps_trans [OF k(2) keeps_scan_chunk])
  with k(1) show ?thesis
    by (simp add: feed_def Let_def del: scan_chunk.simps split: list.split)
qed

lemma keeps_feed_all: "keeps p (feed_all chunks p)"
proof (induction chunks arbitrary: p)
  case (Cons c cs)
  then show ?case
    using keeps_feed [of p c] keeps_trans by (auto split: sum.splits)
qed (simp add: keeps_refl)

section \<open>Reading back\<close>

lemma read_text_one_line:
  "one_line s \<Longrightarrow> \<not> rd_skip_lf r \<Longrightarrow> read_text h r s = r\<lparr>rd_line := rd_line r @ s\<rparr>"
proof (induction s arbitrary: r)
  case (Cons c s)
  then show ?case by (simp add: read_char_def one_line_def)
qed simp

lemma no_skip: "\<not> rd_skip_lf r \<Longrightarrow> r\<lparr>rd_skip_lf := False\<rparr> = r"
  by (cases r) simp

lemma read_line_skip [simp]: "rd_skip_lf (read_line h s r) = rd_skip_lf r"
  by (simp add: read_line_def read_blank_def read_field_def Let_def)

lemma read_text_line:
  assumes "one_line s" and "\<not> rd_skip_lf r" and "rd_line r = []"
  shows "read_text h r (s @ 10 # t) = read_text h (read_line h s r) t"
proof -
  have "read_text h r (s @ 10 # t) = read_text h (read_char h 10 (r\<lparr>rd_line := s\<rparr>)) t"
    using read_text_one_line [OF assms(1,2)] assms(3) by simp
  moreover have "r\<lparr>rd_line := [], rd_skip_lf := False\<rparr> = r" using assms(2,3) by simp
  ultimately show ?thesis using assms(2) no_skip [of "read_line h s r"] by (simp add: read_char_def)
qed

lemma split_at_colon:
  "58 \<notin> set name \<Longrightarrow> takeWhile (\<lambda>c. c \<noteq> 58) (name @ 58 # t) = name"
  "58 \<notin> set name \<Longrightarrow> dropWhile (\<lambda>c. c \<noteq> 58) (name @ 58 # t) = 58 # t"
  by (induction name) auto

lemma read_line_field:
  assumes "58 \<notin> set name" and "name \<noteq> []"
  shows "read_line h (name @ py '': '' @ v) r = read_field h name v r"
proof -
  have "takeWhile (\<lambda>c. c \<noteq> 58) (name @ py '': '' @ v) = name"
    "dropWhile (\<lambda>c. c \<noteq> 58) (name @ py '': '' @ v) = 58 # 32 # v"
    using split_at_colon [OF assms(1)] by simp_all
  then show ?thesis unfolding read_line_def Let_def using assms(2) by (simp add: drop_space_def)
qed

lemma read_data_lines:
  assumes "list_all one_line ls" and "\<not> rd_skip_lf r" and "rd_line r = []"
  shows "read_text h r (concat (map (sse_line ''data'') ls) @ t) =
    read_text h (r\<lparr>rd_data := rd_data r @ concat (map (\<lambda>v. v @ [10]) ls)\<rparr>) t"
  using assms
proof (induction ls arbitrary: r)
  case (Cons l ls)
  have "one_line (py ''data'' @ py '': '' @ l)" using Cons.prems by (simp add: one_line_def)
  from read_text_line [OF this Cons.prems(2,3)]
  have "read_text h r (sse_line ''data'' l @ concat (map (sse_line ''data'') ls) @ t) =
      read_text h (r\<lparr>rd_data := rd_data r @ l @ [10]\<rparr>) (concat (map (sse_line ''data'') ls) @ t)"
    using read_line_field [of "py ''data''" h l r]
    by (simp add: sse_line_def read_field_def)
  then show ?case using Cons.IH [of "r\<lparr>rd_data := rd_data r @ l @ [10]\<rparr>"] Cons.prems by simp
qed simp

lemma read_encoded:
  assumes "list_all one_line ls" and "str_join [10] ls \<noteq> []" and "one_line t"
    and "\<not> rd_skip_lf r" and "rd_line r = []" and "rd_data r = []" and "on_event h"
  shows "rd_calls (read_text h r (sse_encode t ls)) =
    rd_calls r @ [OnEvent \<lparr>msg_data = str_join [10] ls, msg_type = Some t, msg_id = rd_id r\<rparr>]"
proof -
  have "one_line (py ''event'' @ py '': '' @ t)" using assms(3) by (simp add: one_line_def)
  from read_text_line [OF this assms(4,5)]
  have "read_text h r (sse_encode t ls) =
      read_text h (r\<lparr>rd_type := Some t\<rparr>) (concat (map (sse_line ''data'') ls) @ [10])"
    using read_line_field [of "py ''event''" h t r]
    by (simp add: sse_encode_def sse_line_def read_field_def)
  also have "\<dots> = read_char h 10 (r\<lparr>rd_type := Some t, rd_data := concat (map (\<lambda>v. v @ [10]) ls)\<rparr>)"
    using read_data_lines [OF assms(1), of "r\<lparr>rd_type := Some t\<rparr>" h "[10]"] assms(4-6) by simp
  finally show ?thesis
    using assms by (simp add: read_char_def read_line_def read_blank_def butlast_data)
qed

lemma strip_bom_append: "3 \<le> length c \<Longrightarrow> strip_bom (c @ s) = strip_bom c @ s"
  by (cases c; cases "tl c"; cases "tl (tl c)") (auto simp: strip_bom_def str_startswith_def)

lemma feed_first:
  assumes "first_chunk p" and "\<not> pending_lf p"
  shows "feed c p = feed (strip_bom c) (p\<lparr>first_chunk := False\<rparr>)"
  using assms by (simp add: feed_def Let_def)

section \<open>Streams that do not raise\<close>

text \<open>
  No line of the text is a \<open>retry\<close> field. The LF of a CRLF pair counts as an empty line, which is none.
\<close>

definition harmless_line :: "pystr \<Rightarrow> bool" where
  "harmless_line line \<longleftrightarrow> takeWhile (\<lambda>c. c \<noteq> 58) line \<noteq> py ''retry''"

fun safe_text :: "pystr \<Rightarrow> pystr \<Rightarrow> bool" where
  "safe_text l [] = True"
| "safe_text l (c # s) =
     (if c \<noteq> 13 \<and> c \<noteq> 10 then safe_text (l @ [c]) s else harmless_line l \<and> safe_text [] s)"

text \<open>The buffers have room for so many more characters.\<close>

definition roomy :: "nat \<Rightarrow> sse_parser \<Rightarrow> bool" where
  "roomy n p \<longleftrightarrow> line_len p = length (concat (line_parts p)) \<and> (pending_lf p \<longrightarrow> line_parts p = []) \<and>
     line_len p + n \<le> max_line_chars p \<and> data_len p + line_len p + n \<le> max_event_chars p"

lemma length_field_value: "length (field_value line n) \<le> length line - n"
  by (auto simp: field_value_def split: list.splits) (metis length_drop length_Cons Suc_le_eq lessI less_imp_le_nat)+

lemma dispatch_line_safe:
  assumes "harmless_line line" and "data_len p + length line \<le> max_event_chars p"
  shows "\<exists>q. dispatch_line line p = Inr q \<and> line_parts q = line_parts p \<and> line_len q = line_len p \<and>
    data_len q \<le> data_len p + length line \<and> max_line_chars q = max_line_chars p \<and>
    max_event_chars q = max_event_chars p \<and> pending_lf q = pending_lf p \<and> first_chunk q = first_chunk p"
proof -
  have field: "\<exists>q. apply_field f v p = Inr q \<and> line_parts q = line_parts p \<and> line_len q = line_len p \<and>
      data_len q \<le> data_len p + length line \<and> max_line_chars q = max_line_chars p \<and>
      max_event_chars q = max_event_chars p \<and> pending_lf q = pending_lf p \<and> first_chunk q = first_chunk p"
    if "f \<noteq> py ''retry''" "f = py ''data'' \<Longrightarrow> Suc (length v) \<le> length line" for f v
    using that assms(2) by (auto simp: apply_field_def Let_def call_def)
  let ?f = "takeWhile (\<lambda>c. c \<noteq> 58) line"
  have f: "?f \<noteq> py ''retry''" using assms(1) by (simp add: harmless_line_def)
  show ?thesis
  proof (cases "take 1 line = [58] \<or> line = []")
    case True
    then show ?thesis using assms(2)
      by (auto simp: dispatch_line_def call_def emit_event_def reset_event_def Let_def)
  next
    case False
    show ?thesis
    proof (cases "58 \<in> set line")
      case True
      have "length ?f < length line" using True
        by (metis length_takeWhile_le nat_less_le set_takeWhileD take_all_iff takeWhile_eq_take)
      then have "?f = py ''data'' \<Longrightarrow> Suc (length (field_value line (Suc (length ?f)))) \<le> length line"
        using length_field_value [of line "Suc (length ?f)"] by auto
      with field [OF f] False True show ?thesis
        by (simp add: dispatch_line_def Let_def takeWhile_eq_take [symmetric])
    next
      case none: False
      then have "?f = line" by (auto simp: takeWhile_eq_all_conv)
      with f have "line \<noteq> py ''retry''" by simp
      from field [OF this, of "[]"] False none show ?thesis by (auto simp: dispatch_line_def)
    qed
  qed
qed

lemma finish_line_safe:
  assumes "roomy (length fragment + n) p" and "harmless_line (concat (line_parts p) @ fragment)"
  shows "\<exists>q. finish_line fragment p = Inr q \<and> line_parts q = [] \<and> roomy n q \<and>
    pending_lf q = pending_lf p \<and> first_chunk q = first_chunk p"
proof (cases "line_parts p = []")
  case True
  then show ?thesis using assms dispatch_line_safe [of fragment p]
    by (auto simp: finish_line_def roomy_def)
next
  case False
  then show ?thesis
    using assms dispatch_line_safe [of "concat (line_parts p) @ fragment" "p\<lparr>line_parts := [], line_len := 0\<rparr>"]
    by (auto simp: finish_line_def roomy_def)
qed

lemma scan_chunk_safe:
  "roomy (length fragment + length s + length t) p \<Longrightarrow> \<not> pending_lf p \<Longrightarrow>
   safe_text (concat (line_parts p) @ fragment) (s @ t) \<Longrightarrow>
   \<exists>q. scan_chunk fragment s p = Inr q \<and> roomy (length t) q \<and> safe_text (concat (line_parts q)) t \<and>
     first_chunk q = first_chunk p"
proof (induction fragment s p rule: scan_chunk.induct)
  case (1 fragment p)
  then show ?case by (auto simp: buffer_line_def roomy_def)
next
  case (2 fragment c rest p)
  show ?case
  proof (cases "c \<noteq> 13 \<and> c \<noteq> 10")
    case True
    with 2 show ?thesis by simp
  next
    case False
    have room: "roomy (length fragment + Suc (length rest + length t)) p" using 2(6) by (simp add: roomy_def)
    from False have line: "harmless_line (concat (line_parts p) @ fragment)" "safe_text [] (rest @ t)"
      using 2(6-) by auto
    obtain q where q: "finish_line fragment p = Inr q" "line_parts q = []" "roomy (Suc (length rest + length t)) q"
      "pending_lf q = pending_lf p" "first_chunk q = first_chunk p"
      using finish_line_safe [OF room line(1)] 2(7) by auto
    have shrink: "roomy m q" if "m \<le> Suc (length rest + length t)" for m
      using q(3) that by (simp add: roomy_def)
    show ?thesis
    proof (cases "c = 13")
      case cr: True
      show ?thesis
      proof (cases rest)
        case Nil
        then show ?thesis using False cr q line shrink [of "length t"] 2(7) by (auto simp: roomy_def)
      next
        case (Cons d rest')
        then show ?thesis
          using False cr q line 2(3,4) [OF False q(1) cr Cons] 2(7) shrink [of "length rest' + length t"]
            shrink [of "Suc (length rest' + length t)"]
          by (auto split: if_splits)
      qed
    next
      case lf: False
      then show ?thesis
        using False q line 2(5) [OF False q(1)] 2(7) shrink [of "length rest + length t"] by auto
    qed
  qed
qed

lemma feed_safe:
  assumes "roomy (length c + length t) p" and "safe_text (concat (line_parts p)) (c @ t)" and "\<not> first_chunk p"
  shows "\<exists>q. feed c p = Inr q \<and> roomy (length t) q \<and> safe_text (concat (line_parts q)) t \<and> \<not> first_chunk q"
proof (cases c)
  case Nil
  then show ?thesis using assms by (auto simp: feed_def roomy_def)
next
  case (Cons d rest)
  let ?p = "p\<lparr>first_chunk := False, pending_lf := False\<rparr>"
  have r: "roomy (length (d # rest) + length t) ?p" using assms(1) Cons by (simp add: roomy_def)
  show ?thesis
  proof (cases "pending_lf p \<and> d = 10")
    case True
    then have "line_parts p = []" using assms(1) by (simp add: roomy_def)
    then show ?thesis
      using scan_chunk_safe [of "[]" rest t ?p] r assms(2,3) Cons True by (auto simp: feed_def roomy_def harmless_line_def)
  next
    case False
    have "feed c p = scan_chunk [] c ?p"
    proof (cases "pending_lf p")
      case True
      then show ?thesis using False assms(3) by (simp add: feed_def Let_def Cons del: scan_chunk.simps)
    next
      case None: False
      then have same: "p\<lparr>first_chunk := False\<rparr> = ?p" by simp
      have "feed c p = scan_chunk [] c (p\<lparr>first_chunk := False\<rparr>)"
        using None assms(3) by (simp add: feed_def Let_def Cons del: scan_chunk.simps)
      then show ?thesis by (simp only: same [symmetric])
    qed
    then show ?thesis using scan_chunk_safe [of "[]" c t ?p] r assms(2) Cons by auto
  qed
qed

lemma feed_all_safe:
  "roomy (length (concat cs)) p \<Longrightarrow> safe_text (concat (line_parts p)) (concat cs) \<Longrightarrow> \<not> first_chunk p \<Longrightarrow>
   \<exists>q. feed_all cs p = Inr q"
proof (induction cs arbitrary: p)
  case (Cons c cs)
  then show ?case using feed_safe [of c "concat cs" p] by auto
qed simp

text \<open>A stream whose first character is no byte order mark, nor looks like one.\<close>

lemma feed_all_no_bom:
  assumes "concat cs = ch # s" and "ch \<noteq> 65279" and "ch \<noteq> 239"
  shows "feed_all cs p = feed_all cs (p\<lparr>first_chunk := False\<rparr>)"
  using assms(1)
proof (induction cs)
  case (Cons c cs)
  show ?case
  proof (cases c)
    case Nil
    then show ?thesis using Cons by (simp add: feed_def strip_bom_def str_startswith_def)
  next
    case (Cons x xs)
    then have "strip_bom c = c" using Cons.prems assms by (simp add: strip_bom_def str_startswith_def)
    then show ?thesis by (simp add: feed_def)
  qed
qed simp

lemma safe_text_line:
  "one_line s \<Longrightarrow> safe_text l (s @ 10 # r) \<longleftrightarrow> harmless_line (l @ s) \<and> safe_text [] r"
  by (induction s arbitrary: l) (auto simp: one_line_def)

lemma safe_text_encoded:
  assumes "list_all one_line ls" and "one_line t"
  shows "safe_text [] (sse_encode t ls)"
proof -
  have harmless: "harmless_line (py n @ py '': '' @ v)" if "n = ''event'' \<or> n = ''data''" for n v
    using that by (auto simp: harmless_line_def)
  have line: "safe_text [] (sse_line n v @ r) \<longleftrightarrow> safe_text [] r" if "n = ''event'' \<or> n = ''data''" "one_line v" for n v r
  proof -
    have "one_line (py n @ py '': '' @ v)" using that by (auto simp: one_line_def)
    from safe_text_line [OF this, of "[]" r] show ?thesis using harmless [OF that(1)] by (simp add: sse_line_def)
  qed
  have "safe_text [] (concat (map (sse_line ''data'') ls) @ [10])"
    using assms(1) by (induction ls) (simp_all add: line harmless_line_def)
  then show ?thesis using assms(2) by (simp add: sse_encode_def line)
qed

lemma encoded_calls:
  assumes "feed_all chunks p = Inr p'" and "concat chunks = sse_encode t ls"
    and "list_all one_line ls" and "str_join [10] ls \<noteq> []" and "one_line t"
    and "\<not> first_chunk p" and "\<not> pending_lf p" and "line_parts p = []" and "data_parts p = []"
    and "has_on_event p"
  shows "ps_calls p' = ps_calls p @
    [OnEvent \<lparr>msg_data = str_join [10] ls, msg_type = Some t, msg_id = last_event_id p\<rparr>]"
proof -
  have calls: "rd_calls (reader_of q) = ps_calls q" "rd_id (reader_of q) = last_event_id q"
    "rd_data (reader_of p) = []" "on_event (handlers_of p)" for q
    using assms(9,10) by (simp_all add: reader_of_def handlers_of_def)
  have "reader_of p' = read_text (handlers_of p) (reader_of p) (sse_encode t ls)"
    using feed_all_refines [OF assms(1,6)] assms(2) by simp
  then have "ps_calls p' = rd_calls (read_text (handlers_of p) (reader_of p) (sse_encode t ls))"
    using calls(1) by metis
  then show ?thesis
    using read_encoded [OF assms(3-5), of "reader_of p" "handlers_of p"] assms(7,8) calls by simp
qed

section \<open>Properties\<close>



text \<open>
  C34 (buffers_bounded). Whatever a server sends, in whatever chunks, and also after an exception, the
  characters the parser holds of an unfinished line and of an unfinished event stay within the two
  limits.
\<close>

theorem buffers_bounded:
  "length (concat (line_parts (state_after (feed_all chunks (new_parser e r c ml me))))) \<le> ml \<and>
   length (str_join [10] (data_parts (state_after (feed_all chunks (new_parser e r c ml me))))) \<le> me"
proof -
  let ?p = "new_parser e r c ml me" and ?q = "state_after (feed_all chunks (new_parser e r c ml me))"
  have "parser_ok ?p" by (simp add: new_parser_def parser_ok_def)
  then have "parser_ok ?q" "max_line_chars ?q = ml" "max_event_chars ?q = me"
    using keeps_feed_all [of ?p chunks] by (simp_all add: keeps_def new_parser_def)
  moreover have "length (str_join [10] ds) \<le> sum_list (map (\<lambda>v. length v + 1) ds)" for ds :: "pystr list"
    by (induction "[10::nat]" ds rule: str_join.induct) auto
  ultimately show ?thesis by (auto simp: parser_ok_def intro: order_trans)
qed



text \<open>
  A first chunk without characters ends the search for the byte order mark: the
  mark that follows is taken as part of the first line, whose field is then not recognised.
\<close>

theorem late_bom_kept:
  "\<exists>p q. feed_all [65279 # py ''data: a'', [10, 10]] (new_parser True False False 20 20) = Inr p \<and>
     ps_calls p = [OnEvent \<lparr>msg_data = py ''a'', msg_type = None, msg_id = None\<rparr>] \<and>
     feed_all [[], 65279 # py ''data: a'', [10, 10]] (new_parser True False False 20 20) = Inr q \<and>
     ps_calls q = []"
  by (simp add: new_parser_def feed_def strip_bom_def str_startswith_def buffer_line_def finish_line_def
      dispatch_line_def apply_field_def field_value_def emit_event_def reset_event_def call_def)

end
