(* ===== verification/Sha256.thy ===== *)
theory Sha256
  imports Main "HOL-Library.Word"
begin

text \<open>
  SHA-256, which the SDK takes from \<open>hashlib\<close>: FIPS 180-4 on 32-bit words. A message is a list
  of bytes as natural numbers, the digest a list of 32 bytes.
\<close>

unbundle bit_operations_syntax

type_synonym w32 = "32 word"

definition sha_k :: "w32 list" where
  "sha_k =
     [1116352408, 1899447441, 3049323471, 3921009573, 961987163, 1508970993,
      2453635748, 2870763221, 3624381080, 310598401, 607225278, 1426881987,
      1925078388, 2162078206, 2614888103, 3248222580, 3835390401, 4022224774,
      264347078, 604807628, 770255983, 1249150122, 1555081692, 1996064986,
      2554220882, 2821834349, 2952996808, 3210313671, 3336571891, 3584528711,
      113926993, 338241895, 666307205, 773529912, 1294757372, 1396182291,
      1695183700, 1986661051, 2177026350, 2456956037, 2730485921, 2820302411,
      3259730800, 3345764771, 3516065817, 3600352804, 4094571909, 275423344,
      430227734, 506948616, 659060556, 883997877, 958139571, 1322822218,
      1537002063, 1747873779, 1955562222, 2024104815, 2227730452, 2361852424,
      2428436474, 2756734187, 3204031479, 3329325298]"

definition sha_init :: "w32 list" where
  "sha_init =
     [1779033703, 3144134277, 1013904242, 2773480762, 1359893119, 2600822924,
      528734635, 1541459225]"

definition rotr :: "nat \<Rightarrow> w32 \<Rightarrow> w32" where
  "rotr n x = drop_bit n x OR push_bit (32 - n) x"

definition be_word :: "nat list \<Rightarrow> w32" where
  "be_word bs = word_of_nat (foldl (\<lambda>n b. n * 256 + b) 0 bs)"

text \<open>Padding: a one bit, zeros, and the length in bits as eight bytes.\<close>

definition be_bytes :: "nat \<Rightarrow> nat \<Rightarrow> nat list" where
  "be_bytes k n = map (\<lambda>i. n div 256 ^ (k - 1 - i) mod 256) [0..<k]"

definition sha_pad :: "nat list \<Rightarrow> nat list" where
  "sha_pad m =
     m @ [128] @ replicate ((55 + 64 - length m mod 64) mod 64) 0 @ be_bytes 8 (8 * length m)"

fun blocks :: "nat \<Rightarrow> 'a list \<Rightarrow> 'a list list" where
  "blocks 0 xs = []"
| "blocks (Suc k) xs = take 64 xs # blocks k (drop 64 xs)"

text \<open>The schedule, newest word first.\<close>

definition schedule_step :: "w32 list \<Rightarrow> w32 list" where
  "schedule_step ws =
     (let a = ws ! 14; b = ws ! 1;
          s0 = rotr 7 a XOR rotr 18 a XOR drop_bit 3 a;
          s1 = rotr 17 b XOR rotr 19 b XOR drop_bit 10 b
      in (ws ! 15 + s0 + ws ! 6 + s1) # ws)"

definition schedule :: "nat list \<Rightarrow> w32 list" where
  "schedule block =
     rev ((schedule_step ^^ 48) (rev (map (\<lambda>i. be_word (take 4 (drop (4 * i) block))) [0..<16])))"

definition sha_round :: "w32 list \<Rightarrow> w32 \<times> w32 \<Rightarrow> w32 list" where
  "sha_round st kw =
     (case (st, kw) of
        ([a, b, c, d, e, f, g, h], (k, w)) \<Rightarrow>
          (let s1 = rotr 6 e XOR rotr 11 e XOR rotr 25 e;
               ch = (e AND f) XOR (NOT e AND g);
               t1 = h + s1 + ch + k + w;
               s0 = rotr 2 a XOR rotr 13 a XOR rotr 22 a;
               maj = (a AND b) XOR (a AND c) XOR (b AND c);
               t2 = s0 + maj
           in [t1 + t2, a, b, c, d + t1, e, f, g])
      | _ \<Rightarrow> st)"

definition compress :: "w32 list \<Rightarrow> nat list \<Rightarrow> w32 list" where
  "compress st block = map2 (+) st (foldl sha_round st (zip sha_k (schedule block)))"

definition sha256 :: "nat list \<Rightarrow> nat list" where
  "sha256 m =
     (let p = sha_pad m
      in concat (map (\<lambda>w. be_bytes 4 (unat w)) (foldl compress sha_init (blocks (length p div 64) p))))"

lemma length_be_bytes [simp]: "length (be_bytes k n) = k"
  by (simp add: be_bytes_def)

lemma be_bytes_bound: "b \<in> set (be_bytes k n) \<Longrightarrow> b < 256"
  by (auto simp: be_bytes_def)

lemma length_sha_round: "length (sha_round st kw) = length st"
  by (auto simp: sha_round_def Let_def split: prod.splits list.splits)

lemma length_foldl_round: "length (foldl sha_round st kws) = length st"
  by (induction kws arbitrary: st) (simp_all add: length_sha_round)

lemma length_foldl_compress: "length (foldl compress st bs) = length st"
  by (induction bs arbitrary: st) (simp_all add: compress_def length_foldl_round)

lemma sha256_bytes: "length (sha256 m) = 32" "\<forall>b \<in> set (sha256 m). b < 256"
proof -
  have "length (concat (map (\<lambda>w. be_bytes 4 (unat (w :: w32))) ws)) = 4 * length ws" for ws
    by (induction ws) auto
  then show "length (sha256 m) = 32"
    by (simp add: sha256_def Let_def length_foldl_compress) (simp add: sha_init_def)
  show "\<forall>b \<in> set (sha256 m). b < 256"
    by (auto simp: sha256_def Let_def be_bytes_bound)
qed

end
