(* ===== verification/Telemetry_Events.thy ===== *)
theory Telemetry_Events
  imports Config_Types Py_Object Sha256
begin

text \<open>
  What a telemetry event carries: \<open>_telemetry/compact_json.py\<close>, \<open>_telemetry/value_id.py\<close> and
  \<open>_telemetry/events.py\<close>. A config type is the value the bundle had, \<open>PNone\<close> for none.
\<close>

section \<open>Value IDs\<close>

definition base62 :: pystr where
  "base62 = py ''0123456789ABCDEFGHIJKLMNOPQRSTUVWXYZabcdefghijklmnopqrstuvwxyz''"

definition value_id_length :: nat where
  "value_id_length = 22"

fun base62_digits :: "nat \<Rightarrow> pystr" where
  "base62_digits number =
     (if 0 < number then base62_digits (number div 62) @ [base62 ! (number mod 62)] else [])"

declare base62_digits.simps [simp del]

definition to_base62 :: "nat \<Rightarrow> pystr" where
  "to_base62 number =
     (let digits = base62_digits number
      in replicate (value_id_length - length digits) 48 @ digits)"

definition from_bytes_big :: "nat list \<Rightarrow> nat" where
  "from_bytes_big bs = foldl (\<lambda>n b. n * 256 + b) 0 bs"

definition generate_value_id :: "pystr \<Rightarrow> pystr result" where
  "generate_value_id value =
     bindE (utf8_encode value) (\<lambda>bytes. Inr (to_base62 (from_bytes_big (take 16 (sha256 bytes)))))"

section \<open>Rendering\<close>

text \<open>\<open>to_json_string\<close> of any value: \<open>str()\<close> of what is no scalar.\<close>

definition json_string_of :: "printable \<Rightarrow> pyval \<Rightarrow> pystr result" where
  "json_string_of pr v = (case v of PScalar sc \<Rightarrow> to_json_string sc | _ \<Rightarrow> py_str pr v)"

fun to_compact_json :: "printable \<Rightarrow> pyval \<Rightarrow> pystr result" where
  "to_compact_json pr PNone = Inr (py ''null'')"
| "to_compact_json pr (PBool b) = Inr (bool_text b)"
| "to_compact_json pr (PInt i) = str_of_int i"
| "to_compact_json pr (PFloat f) =
     (if fl_is_finite f then to_json_string (SFloat f) else Inr (py ''null''))"
| "to_compact_json pr (PStr s) = Inr (json_string False s)"
| "to_compact_json pr (PList vs) =
     bindE (mapE (to_compact_json pr) vs) (\<lambda>ts. Inr (91 # str_join (py '','') ts @ [93]))"
| "to_compact_json pr (PTuple vs) =
     bindE (mapE (to_compact_json pr) vs) (\<lambda>ts. Inr (91 # str_join (py '','') ts @ [93]))"
| "to_compact_json pr (PDict d) =
     bindE (mapE (\<lambda>(k, v). bindE (py_str pr k) (\<lambda>kt. bindE (to_compact_json pr v) (\<lambda>t.
              Inr (json_string False kt @ 58 # t)))) d)
       (\<lambda>ts. Inr (123 # str_join (py '','') ts @ [125]))"
| "to_compact_json pr (PObj t s) = Inl TypeError"

definition is_json :: "pyval \<Rightarrow> pyval \<Rightarrow> bool" where
  "is_json v config_type \<longleftrightarrow>
     config_type = PStr (py ''json'') \<or>
     (config_type = PNone \<and> (case v of PDict _ \<Rightarrow> True | PList _ \<Rightarrow> True | _ \<Rightarrow> False))"

definition render_value :: "printable \<Rightarrow> pyval \<Rightarrow> pyval \<Rightarrow> pystr result" where
  "render_value pr v config_type =
     (if is_json v config_type then
        (case to_compact_json pr v of
           Inl e \<Rightarrow> if is_type_error e then py_str pr v else Inl e
         | Inr t \<Rightarrow> Inr t)
      else json_string_of pr v)"

definition value_id_for :: "printable \<Rightarrow> pyval \<Rightarrow> pyval \<Rightarrow> pystr result" where
  "value_id_for pr v config_type = bindE (render_value pr v config_type) generate_value_id"

section \<open>Telemetry values\<close>

definition config_value_max_length :: nat where
  "config_value_max_length = 500"

record telemetry_value =
  tv_value :: "pystr option"
  tv_value_id :: "pystr option"
  tv_type :: pyval

definition telemetry_value_of ::
  "printable \<Rightarrow> pyval \<Rightarrow> pystr option \<Rightarrow> pyval \<Rightarrow> telemetry_value result" where
  "telemetry_value_of pr v value_id config_type =
     (if is_json v config_type then
        (case value_id of
           Some i \<Rightarrow> Inr \<lparr>tv_value = None, tv_value_id = Some i, tv_type = PStr (py ''json'')\<rparr>
         | None \<Rightarrow>
             bindE (render_value pr v config_type) (\<lambda>t.
               Inr \<lparr>tv_value = Some t, tv_value_id = None, tv_type = PStr (py ''json'')\<rparr>))
      else
        bindE (render_value pr v config_type) (\<lambda>rendered.
          if length rendered \<le> config_value_max_length
          then Inr \<lparr>tv_value = Some rendered, tv_value_id = None, tv_type = PNone\<rparr>
          else (case value_id of
                  Some i \<Rightarrow> Inr \<lparr>tv_value = None, tv_value_id = Some i, tv_type = PNone\<rparr>
                | None \<Rightarrow> Inr \<lparr>tv_value = Some rendered, tv_value_id = None, tv_type = PNone\<rparr>)))"

definition compact_value :: "telemetry_value \<Rightarrow> telemetry_value result" where
  "compact_value tv =
     (case tv_value_id tv of
        Some i \<Rightarrow> Inr \<lparr>tv_value = None, tv_value_id = Some i, tv_type = PNone\<rparr>
      | None \<Rightarrow>
          (case tv_value tv of
             None \<Rightarrow> Inr \<lparr>tv_value = None, tv_value_id = None, tv_type = PNone\<rparr>
           | Some t \<Rightarrow>
               if t \<noteq> [] \<and> (tv_type tv = PStr (py ''json'') \<or> config_value_max_length < length t)
               then bindE (generate_value_id t) (\<lambda>i.
                      Inr \<lparr>tv_value = None, tv_value_id = Some i, tv_type = PNone\<rparr>)
               else Inr \<lparr>tv_value = Some t, tv_value_id = None, tv_type = PNone\<rparr>))"

definition opt_entry :: "string \<Rightarrow> pystr option \<Rightarrow> (pyval \<times> pyval) list" where
  "opt_entry k v = (case v of None \<Rightarrow> [] | Some s \<Rightarrow> [(PStr (py k), PStr s)])"

definition telemetry_value_to_wire :: "telemetry_value \<Rightarrow> pyval" where
  "telemetry_value_to_wire tv =
     PDict (opt_entry ''value'' (tv_value tv) @ opt_entry ''valueId'' (tv_value_id tv) @
       (if tv_type tv = PNone then [] else [(PStr (py ''type''), tv_type tv)]))"

section \<open>Events\<close>

definition reason_text :: "evaluation_reason \<Rightarrow> pystr" where
  "reason_text r =
     (case r of
        FoundMatch \<Rightarrow> py ''found-match'' | ConfigStateMissing \<Rightarrow> py ''config-state-missing''
      | ClientNotReady \<Rightarrow> py ''client-not-ready'' | TypeMismatch \<Rightarrow> py ''type-mismatch''
      | ValueMissing \<Rightarrow> py ''value-missing'' | InvalidNumber \<Rightarrow> py ''invalid-number''
      | InvalidJson \<Rightarrow> py ''invalid-json'' | InvalidBoolean \<Rightarrow> py ''invalid-boolean'')"

definition requested_type_of :: "pyval \<Rightarrow> pystr" where
  "requested_type_of d = type_name d"

record evaluated_config_event =
  ece_key :: pystr
  ece_default_value :: telemetry_value
  ece_evaluated_value :: telemetry_value
  ece_requested_type :: pystr
  ece_used_default :: bool
  ece_evaluation_reason :: evaluation_reason
  ece_context_id :: "pystr option"
  ece_context_kind :: "pystr option"
  ece_type :: pyval
  ece_evaluated_value_id :: "pystr option"

text \<open>The arguments of \<open>record_evaluation\<close>, without the context.\<close>

record evaluation_record =
  er_key :: pystr
  er_default :: pyval
  er_value :: pyval
  er_used_default :: bool
  er_reason :: evaluation_reason
  er_config_type :: pyval
  er_value_id :: "pystr option"

definition evaluated_config_event_of ::
  "printable \<Rightarrow> evaluation_record \<Rightarrow> pystr option \<Rightarrow> pystr option \<Rightarrow> evaluated_config_event result"
where
  "evaluated_config_event_of pr r context_id context_kind =
     bindE (telemetry_value_of pr (er_default r) None (er_config_type r)) (\<lambda>d.
     bindE (telemetry_value_of pr (er_value r) (er_value_id r) (er_config_type r)) (\<lambda>v.
       Inr \<lparr>ece_key = er_key r, ece_default_value = d, ece_evaluated_value = v,
         ece_requested_type = requested_type_of (er_default r), ece_used_default = er_used_default r,
         ece_evaluation_reason = er_reason r, ece_context_id = context_id,
         ece_context_kind = context_kind, ece_type = er_config_type r,
         ece_evaluated_value_id = er_value_id r\<rparr>))"

definition compact_event :: "evaluated_config_event \<Rightarrow> evaluated_config_event result" where
  "compact_event e =
     bindE (compact_value (ece_default_value e)) (\<lambda>d.
     bindE (compact_value (ece_evaluated_value e)) (\<lambda>v.
       Inr (e\<lparr>ece_default_value := d, ece_evaluated_value := v\<rparr>)))"

definition event_to_wire :: "evaluated_config_event \<Rightarrow> pyval" where
  "event_to_wire e =
     PDict (opt_entry ''contextId'' (ece_context_id e) @ opt_entry ''contextKind'' (ece_context_kind e) @
       [(PStr (py ''key''), PStr (ece_key e))] @
       (if ece_type e = PNone then [] else [(PStr (py ''type''), ece_type e)]) @
       [(PStr (py ''defaultValue''), telemetry_value_to_wire (ece_default_value e)),
        (PStr (py ''requestedType''), PStr (ece_requested_type e)),
        (PStr (py ''evaluatedValue''), telemetry_value_to_wire (ece_evaluated_value e))] @
       opt_entry ''evaluatedValueId'' (ece_evaluated_value_id e) @
       [(PStr (py ''usedDefault''), PBool (ece_used_default e)),
        (PStr (py ''evaluationReason''), PStr (reason_text (ece_evaluation_reason e)))])"

section \<open>Base 62\<close>

text \<open>The number a string of base 62 digits denotes.\<close>

definition base62_value :: "nat \<Rightarrow> nat" where
  "base62_value c =
     (if c \<le> 57 then c - 48 else if c \<le> 90 then c - 55 else c - 61)"

definition from_base62 :: "pystr \<Rightarrow> nat" where
  "from_base62 s = foldl (\<lambda>n c. n * 62 + base62_value c) 0 s"

lemma base62_ranges: "base62 = [48..<58] @ [65..<91] @ [97..<123]"
  by code_simp

lemma base62_value_nth: "d < 62 \<Longrightarrow> base62_value (base62 ! d) = d"
  by (simp add: base62_ranges nth_append base62_value_def del: upt_rec_numeral split: if_splits)
    linarith

lemma from_base62_digits: "from_base62 (base62_digits n) = n"
proof (induction n rule: base62_digits.induct)
  case (1 n)
  then show ?case
    by (cases "0 < n")
      (simp_all add: base62_digits.simps [of n] base62_digits.simps [of 0] from_base62_def base62_value_nth)
qed

lemma from_base62_padding: "from_base62 (replicate k 48 @ s) = from_base62 s"
  by (induction k) (simp_all add: from_base62_def base62_value_def)

lemma from_to_base62: "from_base62 (to_base62 n) = n"
  by (simp add: to_base62_def Let_def from_base62_padding from_base62_digits)

lemma length_base62_digits: "n < 62 ^ k \<Longrightarrow> length (base62_digits n) \<le> k"
proof (induction n arbitrary: k rule: base62_digits.induct)
  case (1 n)
  show ?case
  proof (cases "0 < n")
    case True
    then obtain k' where k: "k = Suc k'" using 1(2) by (cases k) auto
    then have "n div 62 < 62 ^ k'" using 1(2) by (simp add: less_mult_imp_div_less)
    then show ?thesis using 1(1) True k by (simp add: base62_digits.simps [of n])
  qed (simp add: base62_digits.simps [of 0])
qed

lemma length_to_base62: "n < 2 ^ 128 \<Longrightarrow> length (to_base62 n) = value_id_length"
proof -
  assume "n < 2 ^ 128"
  also have "(2 :: nat) ^ 128 < 62 ^ 22" by simp
  finally have "length (base62_digits n) \<le> 22" by (rule length_base62_digits)
  then show ?thesis by (simp add: to_base62_def Let_def value_id_length_def)
qed

lemma from_bytes_big_bound:
  "\<forall>b \<in> set bs. b < 256 \<Longrightarrow> from_bytes_big bs < 256 ^ length bs"
proof (induction bs rule: rev_induct)
  case (snoc b bs)
  then have "from_bytes_big bs + 1 \<le> 256 ^ length bs" "b < 256" by auto
  then have "(from_bytes_big bs + 1) * 256 \<le> 256 ^ length bs * 256" by (intro mult_right_mono) auto
  with \<open>b < 256\<close> show ?case by (simp add: from_bytes_big_def)
qed (simp add: from_bytes_big_def)

lemma byte_digits_eq:
  assumes "m * 256 + a = n * 256 + b" and "a < 256" and "b < (256 :: nat)"
  shows "m = n \<and> a = b"
proof -
  have "m = n" using arg_cong [OF assms(1), of "\<lambda>x. x div 256"] assms(2,3) by simp
  then show ?thesis using assms(1) by simp
qed

lemma from_bytes_big_inj:
  assumes "from_bytes_big as = from_bytes_big bs" and "length as = length bs"
    and "\<forall>b \<in> set as. b < 256" and "\<forall>b \<in> set bs. b < 256"
  shows "as = bs"
  using assms
proof (induction as arbitrary: bs rule: rev_induct)
  case (snoc a as)
  then obtain b bs' where bs: "bs = bs' @ [b]" by (cases bs rule: rev_cases) auto
  have "from_bytes_big as * 256 + a = from_bytes_big bs' * 256 + b" "a < 256" "b < 256"
    using snoc.prems by (simp_all add: bs from_bytes_big_def)
  then have "from_bytes_big as = from_bytes_big bs' \<and> a = b" by (rule byte_digits_eq)
  with snoc.IH [of bs'] snoc.prems show ?case by (simp add: bs)
qed simp

lemma digest_number:
  "from_bytes_big (take 16 (sha256 m)) < 2 ^ 128"
proof -
  have "\<forall>b \<in> set (take 16 (sha256 m)). b < 256"
    using sha256_bytes(2) by (auto dest: in_set_takeD)
  from from_bytes_big_bound [OF this] show ?thesis by (simp add: sha256_bytes(1))
qed

section \<open>Properties\<close>

text \<open>
  Every string of Unicode characters has a value ID of exactly 22 characters,
  and two strings have the same ID exactly when the first 16 bytes of their SHA-256 digests agree: the
  fixed-width base 62 text loses nothing. Only a lone surrogate raises.
\<close>

theorem value_id_faithful:
  assumes "\<not> list_ex is_surrogate s" and "\<not> list_ex is_surrogate t"
  shows "\<exists>i j. generate_value_id s = Inr i \<and> generate_value_id t = Inr j \<and>
    length i = value_id_length \<and> length j = value_id_length \<and>
    (i = j \<longleftrightarrow> take 16 (sha256 (concat (map utf8_char s))) = take 16 (sha256 (concat (map utf8_char t))))"
proof -
  let ?d = "\<lambda>s. take 16 (sha256 (concat (map utf8_char s)))"
  let ?i = "\<lambda>s. to_base62 (from_bytes_big (?d s))"
  have gen: "generate_value_id s = Inr (?i s)" "generate_value_id t = Inr (?i t)"
    using assms by (simp_all add: generate_value_id_def utf8_encode_def)
  have len: "length (?i s) = value_id_length" "length (?i t) = value_id_length"
    by (rule length_to_base62 [OF digest_number])+
  have "\<forall>b \<in> set (?d s). b < 256" "\<forall>b \<in> set (?d t). b < 256"
    using sha256_bytes(2) by (auto dest: in_set_takeD)
  then have "from_bytes_big (?d s) = from_bytes_big (?d t) \<longleftrightarrow> ?d s = ?d t"
    using from_bytes_big_inj by (auto simp: sha256_bytes(1))
  moreover have "?i s = ?i t \<longleftrightarrow> from_bytes_big (?d s) = from_bytes_big (?d t)"
    by (metis from_to_base62)
  ultimately show ?thesis using gen len by blast
qed

theorem value_id_faithful_witness:
  "\<exists>i. generate_value_id (py ''a'') = Inr i \<and> length i = 22"
  using value_id_faithful [of "py ''a''" "py ''a''"] by (auto simp: is_surrogate_def value_id_length_def)

text \<open>
  A string with a lone surrogate, which a JSON document may hold, has
  no value ID: hashing it raises, although the string is a legal value.
\<close>

theorem surrogate_breaks_value_id:
  "value_id_for pr (PStr [55357]) (PStr (py ''string'')) = Inl UnicodeEncodeError"
  by (simp add: value_id_for_def render_value_def json_string_of_def generate_value_id_def
      utf8_encode_def is_surrogate_def is_json_def)

end
