(* ===== verification/Telemetry_Queue.thy ===== *)
theory Telemetry_Queue
  imports Telemetry_Events "HOL-Library.Multiset"
begin

text \<open>
  The bounded collections of \<open>_telemetry/queue.py\<close>: the queue of evaluation events, the registry
  of contexts and the tally of invalid contexts, with the aggregation of a batch of events. Each
  operation of the source holds the lock of its object throughout, so an operation is one step here.
  \<open>_now()\<close> is an argument. The locale \<open>bounded_recorder\<close> is what the three collections promise the
  collector: bounded memory, and a tally from which nothing recorded vanishes.
\<close>

section \<open>Times\<close>

record datetime =
  dt_year :: nat
  dt_month :: nat
  dt_day :: nat
  dt_hour :: nat
  dt_minute :: nat
  dt_second :: nat
  dt_microsecond :: nat

section \<open>The event queue\<close>

record event_queue_snapshot =
  snap_start_time :: datetime
  snap_end_time :: datetime
  snap_events :: "evaluated_config_event list"
  snap_dropped_count :: nat

record aggregated_event =
  ag_start_time :: datetime
  ag_end_time :: datetime
  ag_count :: nat
  ag_event :: evaluated_config_event

record event_queue =
  eq_limit :: nat
  eq_events :: "evaluated_config_event list"
  eq_start_time :: "datetime option"
  eq_dropped_count :: nat

definition new_event_queue :: "nat \<Rightarrow> event_queue" where
  "new_event_queue limit =
     \<lparr>eq_limit = limit, eq_events = [], eq_start_time = None, eq_dropped_count = 0\<rparr>"

text \<open>\<open>append\<close> on a deque with a maximal length: what is beyond it leaves on the left.\<close>

definition deque_append :: "nat \<Rightarrow> 'a \<Rightarrow> 'a list \<Rightarrow> 'a list" where
  "deque_append maxlen x xs = drop (Suc (length xs) - maxlen) (xs @ [x])"

definition queue_push :: "datetime \<Rightarrow> evaluated_config_event \<Rightarrow> event_queue \<Rightarrow> event_queue" where
  "queue_push now event q =
     q\<lparr>eq_start_time := (case eq_start_time q of None \<Rightarrow> Some now | Some t \<Rightarrow> Some t),
       eq_dropped_count :=
         (if length (eq_events q) = eq_limit q then eq_dropped_count q + 1 else eq_dropped_count q),
       eq_events := deque_append (eq_limit q) event (eq_events q)\<rparr>"

definition queue_reset :: "event_queue \<Rightarrow> event_queue" where
  "queue_reset q = q\<lparr>eq_events := [], eq_start_time := None, eq_dropped_count := 0\<rparr>"

definition queue_clear :: "event_queue \<Rightarrow> event_queue" where
  "queue_clear q = queue_reset q"

definition queue_take_snapshot ::
  "datetime \<Rightarrow> event_queue \<Rightarrow> event_queue_snapshot \<times> event_queue" where
  "queue_take_snapshot end_time q =
     (\<lparr>snap_start_time = (case eq_start_time q of None \<Rightarrow> end_time | Some t \<Rightarrow> t),
       snap_end_time = end_time, snap_events = eq_events q,
       snap_dropped_count = eq_dropped_count q\<rparr>,
      queue_reset q)"

definition snapshot_is_empty :: "event_queue_snapshot \<Rightarrow> bool" where
  "snapshot_is_empty s \<longleftrightarrow> snap_events s = [] \<and> snap_dropped_count s = 0"

section \<open>The context registry\<close>

record context_registry =
  reg_limit :: nat
  reg_contexts :: "(pystr \<times> pystr, checked_context) dict"
  reg_dropped_count :: nat

definition new_context_registry :: "nat \<Rightarrow> context_registry" where
  "new_context_registry limit = \<lparr>reg_limit = limit, reg_contexts = [], reg_dropped_count = 0\<rparr>"

fun evict :: "nat \<Rightarrow> ('k, 'v) dict \<Rightarrow> nat \<Rightarrow> ('k, 'v) dict \<times> nat" where
  "evict limit [] dropped = ([], dropped)"
| "evict limit (kv # d) dropped =
     (if limit < length (kv # d) then evict limit d (dropped + 1) else (kv # d, dropped))"

definition registry_add ::
  "pystr \<Rightarrow> pystr \<Rightarrow> checked_context \<Rightarrow> context_registry \<Rightarrow> context_registry" where
  "registry_add context_kind context_id context r =
     (let (d, dropped) = evict (reg_limit r)
            (dict_set (context_kind, context_id) context (reg_contexts r)) (reg_dropped_count r)
      in r\<lparr>reg_contexts := d, reg_dropped_count := dropped\<rparr>)"

definition registry_reset :: "context_registry \<Rightarrow> context_registry" where
  "registry_reset r = r\<lparr>reg_contexts := [], reg_dropped_count := 0\<rparr>"

definition registry_clear :: "context_registry \<Rightarrow> context_registry" where
  "registry_clear r = registry_reset r"

definition registry_take_snapshot ::
  "context_registry \<Rightarrow> (checked_context list \<times> nat) \<times> context_registry" where
  "registry_take_snapshot r =
     ((dict_values (reg_contexts r), reg_dropped_count r), registry_reset r)"

section \<open>Invalid contexts\<close>

definition kind_sample_limit :: nat where
  "kind_sample_limit = 20"

datatype invalid_context_recording =
    NewKindSample | KnownKindSample | FirstBeyondSampleLimit | BeyondSampleLimit

record invalid_context_entry =
  ice_start_time :: datetime
  ice_end_time :: datetime
  ice_count :: nat
  ice_kind_sample :: "pystr option"

record invalid_context_submissions =
  ics_counts_by_kind_sample :: "(pystr, nat) dict"
  ics_count_beyond_sample_limit :: nat
  ics_start_time :: "datetime option"

definition new_invalid_contexts :: invalid_context_submissions where
  "new_invalid_contexts =
     \<lparr>ics_counts_by_kind_sample = [], ics_count_beyond_sample_limit = 0, ics_start_time = None\<rparr>"

definition invalid_record ::
  "datetime \<Rightarrow> pystr \<Rightarrow> invalid_context_submissions \<Rightarrow>
    invalid_context_recording \<times> invalid_context_submissions" where
  "invalid_record now sample s0 =
     (let s = s0\<lparr>ics_start_time := (case ics_start_time s0 of None \<Rightarrow> Some now | Some t \<Rightarrow> Some t)\<rparr>
      in case dict_get (ics_counts_by_kind_sample s) sample of
           Some n \<Rightarrow>
             (KnownKindSample,
              s\<lparr>ics_counts_by_kind_sample := dict_set sample (n + 1) (ics_counts_by_kind_sample s)\<rparr>)
         | None \<Rightarrow>
             if length (ics_counts_by_kind_sample s) < kind_sample_limit then
               (NewKindSample,
                s\<lparr>ics_counts_by_kind_sample := dict_set sample 1 (ics_counts_by_kind_sample s)\<rparr>)
             else
               (let n = ics_count_beyond_sample_limit s + 1
                in (if n = 1 then FirstBeyondSampleLimit else BeyondSampleLimit,
                    s\<lparr>ics_count_beyond_sample_limit := n\<rparr>)))"

definition invalid_reset :: "invalid_context_submissions \<Rightarrow> invalid_context_submissions" where
  "invalid_reset s =
     s\<lparr>ics_counts_by_kind_sample := [], ics_count_beyond_sample_limit := 0, ics_start_time := None\<rparr>"

definition invalid_clear :: "invalid_context_submissions \<Rightarrow> invalid_context_submissions" where
  "invalid_clear s = invalid_reset s"

definition invalid_take_snapshot ::
  "datetime \<Rightarrow> invalid_context_submissions \<Rightarrow>
    invalid_context_entry list \<times> invalid_context_submissions" where
  "invalid_take_snapshot end_time s =
     (let start_time = (case ics_start_time s of None \<Rightarrow> end_time | Some t \<Rightarrow> t);
          entry = (\<lambda>sample n. \<lparr>ice_start_time = start_time, ice_end_time = end_time,
                     ice_count = n, ice_kind_sample = sample\<rparr>)
      in (map (\<lambda>(sample, n). entry (Some sample) n) (ics_counts_by_kind_sample s) @
            (if 0 < ics_count_beyond_sample_limit s
             then [entry None (ics_count_beyond_sample_limit s)] else []),
          invalid_reset s))"

section \<open>Aggregation\<close>

text \<open>
  \<open>Counter\<close> hashes the events and compares them with \<open>==\<close>. Of their fields only the type of the
  config, which comes unchecked from the server, can be a value that has no hash, or equal another
  without being the same: \<open>1\<close>, \<open>1.0\<close> and \<open>True\<close>.
\<close>

definition type_key :: "pyval \<Rightarrow> pyval" where
  "type_key v =
     (case v of
        PBool b \<Rightarrow> PInt (if b then 1 else 0)
      | PFloat (Finite x) \<Rightarrow> if rat_is_integer x then PInt \<lfloor>x\<rfloor> else v
      | _ \<Rightarrow> v)"

definition event_key :: "evaluated_config_event \<Rightarrow> evaluated_config_event" where
  "event_key e = e\<lparr>ece_type := type_key (ece_type e)\<rparr>"

definition hash_event :: "evaluated_config_event \<Rightarrow> unit result" where
  "hash_event e =
     (case ece_type e of PList _ \<Rightarrow> Inl TypeError | PDict _ \<Rightarrow> Inl TypeError | _ \<Rightarrow> Inr ())"

fun count_event ::
  "evaluated_config_event \<Rightarrow> (evaluated_config_event \<times> nat) list \<Rightarrow> (evaluated_config_event \<times> nat) list"
where
  "count_event e [] = [(e, 1)]"
| "count_event e ((e', n) # cs) =
     (if event_key e' = event_key e then (e', n + 1) # cs else (e', n) # count_event e cs)"

fun counter ::
  "evaluated_config_event list \<Rightarrow> (evaluated_config_event \<times> nat) list \<Rightarrow>
    (evaluated_config_event \<times> nat) list result" where
  "counter [] cs = Inr cs"
| "counter (e # es) cs = bindE (hash_event e) (\<lambda>_. counter es (count_event e cs))"

definition aggregate ::
  "evaluated_config_event list \<Rightarrow> datetime \<Rightarrow> datetime \<Rightarrow> aggregated_event list result" where
  "aggregate events start_time end_time =
     bindE (counter events []) (\<lambda>counts.
       Inr (map (\<lambda>(event, n). \<lparr>ag_start_time = start_time, ag_end_time = end_time, ag_count = n,
                    ag_event = event\<rparr>) counts))"

section \<open>What the collections promise\<close>

locale bounded_recorder =
  fixes empty :: 's
    and record_item :: "'a \<Rightarrow> 's \<Rightarrow> 's"
    and size_of :: "'s \<Rightarrow> nat"
    and tally :: "'s \<Rightarrow> nat"
    and ok :: "'s \<Rightarrow> bool"
    and capacity :: nat
  assumes empty_ok: "ok empty"
    and empty_tally: "tally empty = 0"
    and record_ok: "ok s \<Longrightarrow> ok (record_item x s)"
    and size_bound: "ok s \<Longrightarrow> size_of s \<le> capacity"
    and tally_grows: "ok s \<Longrightarrow> tally s \<le> tally (record_item x s)"
    and tally_step: "ok s \<Longrightarrow> tally (record_item x s) \<le> tally s + 1"
begin

lemma fold_ok: "ok s \<Longrightarrow> ok (fold record_item xs s)"
  by (induction xs arbitrary: s) (auto intro: record_ok)

lemma run_bounded: "size_of (fold record_item xs empty) \<le> capacity"
  by (rule size_bound [OF fold_ok [OF empty_ok]])

lemma fold_tally: "ok s \<Longrightarrow> tally (fold record_item xs s) \<le> tally s + length xs"
proof (induction xs arbitrary: s)
  case (Cons x xs)
  have "tally (fold record_item xs (record_item x s)) \<le> tally (record_item x s) + length xs"
    by (rule Cons.IH [OF record_ok [OF Cons.prems]])
  also have "\<dots> \<le> tally s + 1 + length xs" using tally_step [OF Cons.prems] by (rule add_right_mono)
  finally show ?case by simp
qed simp

lemma run_tally: "tally (fold record_item xs empty) \<le> length xs"
  using fold_tally [OF empty_ok, of xs] by (simp add: empty_tally)

end

locale exact_recorder = bounded_recorder +
  assumes tally_exact: "ok s \<Longrightarrow> tally (record_item x s) = tally s + 1"
begin

lemma fold_tally_exact: "ok s \<Longrightarrow> tally (fold record_item xs s) = tally s + length xs"
  by (induction xs arbitrary: s) (auto simp: record_ok tally_exact)

lemma run_tally_exact: "tally (fold record_item xs empty) = length xs"
  using fold_tally_exact [OF empty_ok, of xs] by (simp add: empty_tally)

end

section \<open>The event queue is a recorder\<close>

abbreviation push_timed :: "datetime \<times> evaluated_config_event \<Rightarrow> event_queue \<Rightarrow> event_queue" where
  "push_timed p \<equiv> queue_push (fst p) (snd p)"

definition queue_ok :: "nat \<Rightarrow> event_queue \<Rightarrow> bool" where
  "queue_ok limit q \<longleftrightarrow> eq_limit q = limit \<and> length (eq_events q) \<le> limit"

lemma queue_push_limit [simp]: "eq_limit (queue_push now e q) = eq_limit q"
  by (simp add: queue_push_def)

lemma length_deque_append: "length xs \<le> m \<Longrightarrow> length (deque_append m x xs) = min m (Suc (length xs))"
  by (simp add: deque_append_def)

interpretation eventq: exact_recorder "new_event_queue limit" push_timed
  "\<lambda>q. length (eq_events q)" "\<lambda>q. length (eq_events q) + eq_dropped_count q" "queue_ok limit" limit
  for limit
  by unfold_locales
    (auto simp: queue_ok_def new_event_queue_def queue_push_def length_deque_append)

lemma drop_surplus_twice:
  "drop (length (drop (length ys - n) ys) + length zs - n) (drop (length ys - n) ys @ zs) =
   drop (length ys + length zs - n) (ys @ zs)"
proof -
  have "drop (length ys - n) ys @ zs = drop (length ys - n) (ys @ zs)" by simp
  then show ?thesis by (cases "length ys \<le> n") (simp_all add: add.commute)
qed

lemma fold_push:
  "eq_events (fold push_timed ps q) =
     drop (length (eq_events q) + length ps - eq_limit q) (eq_events q @ map snd ps)"
  if "length (eq_events q) \<le> eq_limit q"
  using that
proof (induction ps arbitrary: q)
  case (Cons p ps)
  let ?q = "push_timed p q" and ?ys = "eq_events q @ [snd p]"
  have ev: "eq_events ?q = drop (length ?ys - eq_limit q) ?ys"
    by (simp add: queue_push_def deque_append_def)
  have "length (eq_events ?q) \<le> eq_limit ?q" by (simp add: ev)
  from Cons.IH [OF this] show ?case
    using drop_surplus_twice [of ?ys "eq_limit q" "map snd ps"] by (simp add: ev)
qed simp

lemma queue_reset_new: "queue_reset q = new_event_queue (eq_limit q)"
  by (simp add: queue_reset_def new_event_queue_def)

lemma fold_push_limit [simp]: "eq_limit (fold push_timed ps q) = eq_limit q"
  by (induction ps arbitrary: q) simp_all

lemma fold_push_start:
  "eq_start_time q = Some t \<Longrightarrow> eq_start_time (fold push_timed ps q) = Some t"
  by (induction ps arbitrary: q) (simp_all add: queue_push_def)

section \<open>The registry is a recorder\<close>

definition registry_ok :: "nat \<Rightarrow> context_registry \<Rightarrow> bool" where
  "registry_ok limit r \<longleftrightarrow>
     reg_limit r = limit \<and> dict_ok (reg_contexts r) \<and> length (reg_contexts r) \<le> limit"

abbreviation add_context ::
  "(pystr \<times> pystr) \<times> checked_context \<Rightarrow> context_registry \<Rightarrow> context_registry" where
  "add_context p \<equiv> registry_add (fst (fst p)) (snd (fst p)) (snd p)"

lemma evict_drop: "evict limit d n = (drop (length d - limit) d, n + (length d - limit))"
proof (induction d arbitrary: n)
  case (Cons kv d)
  then show ?case by (cases "limit < length (kv # d)") (auto simp: Suc_diff_le less_Suc_eq_le)
qed simp

lemma registry_add_eq:
  fixes r kind i c
  defines "d \<equiv> dict_set (kind, i) c (reg_contexts r)"
  shows "registry_add kind i c r =
    r\<lparr>reg_contexts := drop (length d - reg_limit r) d,
      reg_dropped_count := reg_dropped_count r + (length d - reg_limit r)\<rparr>"
  by (simp add: registry_add_def d_def evict_drop)

lemma dict_ok_drop: "dict_ok d \<Longrightarrow> dict_ok (drop n d)"
  by (simp add: dict_ok_def drop_map [symmetric])

interpretation contexts: bounded_recorder "new_context_registry limit" add_context
  "\<lambda>r. length (reg_contexts r)" "\<lambda>r. length (reg_contexts r) + reg_dropped_count r"
  "registry_ok limit" limit
  for limit
  by unfold_locales
    (auto simp: registry_ok_def new_context_registry_def registry_add_eq length_dict_set dict_ok_drop)

section \<open>The tally of invalid contexts is a recorder\<close>

definition invalid_ok :: "invalid_context_submissions \<Rightarrow> bool" where
  "invalid_ok s \<longleftrightarrow> dict_ok (ics_counts_by_kind_sample s) \<and>
     length (ics_counts_by_kind_sample s) \<le> kind_sample_limit"

definition invalid_total :: "invalid_context_submissions \<Rightarrow> nat" where
  "invalid_total s =
     sum_list (dict_values (ics_counts_by_kind_sample s)) + ics_count_beyond_sample_limit s"

abbreviation record_timed ::
  "datetime \<times> pystr \<Rightarrow> invalid_context_submissions \<Rightarrow> invalid_context_submissions" where
  "record_timed p s \<equiv> snd (invalid_record (fst p) (snd p) s)"

lemma sum_dict_set_new:
  "dict_get d k = None \<Longrightarrow> sum_list (dict_values (dict_set k n d)) = sum_list (dict_values d) + n"
  by (simp add: dict_set_new dict_mem_iff dict_values_def)

lemma sum_dict_set_Suc:
  "dict_get d k = Some n \<Longrightarrow>
   sum_list (dict_values (dict_set k (Suc n) d)) = Suc (sum_list (dict_values d))"
  unfolding dict_get_def dict_set_def dict_values_def
  by (induction d) (auto split: if_splits)

lemma invalid_record_ok: "invalid_ok s \<Longrightarrow> invalid_ok (snd (invalid_record now x s))"
  by (auto simp: invalid_ok_def invalid_record_def Let_def length_dict_set dict_mem_iff
      split: option.splits)

lemma invalid_record_total:
  "invalid_total (snd (invalid_record now x s)) = Suc (invalid_total s)"
  by (auto simp: invalid_total_def invalid_record_def Let_def sum_dict_set_new sum_dict_set_Suc
      split: option.splits)

interpretation invalid: exact_recorder new_invalid_contexts record_timed
  "\<lambda>s. length (ics_counts_by_kind_sample s)" invalid_total invalid_ok kind_sample_limit
  by unfold_locales
    (auto simp: invalid_record_ok invalid_record_total,
     auto simp: invalid_ok_def invalid_total_def new_invalid_contexts_def dict_values_def)

section \<open>Counting\<close>

text \<open>The elements of a list at their first occurrence, and a counting dictionary over them.\<close>

definition first_seen :: "'a list \<Rightarrow> 'a list" where
  "first_seen xs = rev (remdups (rev xs))"

definition bump :: "'k \<Rightarrow> ('k, nat) dict \<Rightarrow> ('k, nat) dict" where
  "bump k d = dict_set k (case dict_get d k of None \<Rightarrow> 1 | Some n \<Rightarrow> n + 1) d"

definition keyed :: "(evaluated_config_event \<times> nat) list \<Rightarrow> (evaluated_config_event, nat) dict" where
  "keyed cs = map (\<lambda>(e, n). (event_key e, n)) cs"

lemma first_seen_snoc:
  "first_seen (xs @ [x]) = (if x \<in> set xs then first_seen xs else first_seen xs @ [x])"
  by (simp add: first_seen_def)

lemma set_first_seen [simp]: "set (first_seen xs) = set xs"
  by (simp add: first_seen_def)

lemma dict_keys_bump:
  "dict_keys (bump k d) = (if dict_mem k d then dict_keys d else dict_keys d @ [k])"
  by (simp add: bump_def dict_keys_set)

lemma dict_get_bump:
  "dict_get (bump k d) k' =
     (if k' = k then Some (case dict_get d k of None \<Rightarrow> 1 | Some n \<Rightarrow> n + 1) else dict_get d k')"
  by (simp add: bump_def)

lemma sum_dict_bump: "sum_list (dict_values (bump k d)) = Suc (sum_list (dict_values d))"
  by (auto simp: bump_def sum_dict_set_new sum_dict_set_Suc split: option.splits)

lemma dict_ok_bump: "dict_ok d \<Longrightarrow> dict_ok (bump k d)"
  by (simp add: bump_def)

lemma bump_counts:
  "dict_ok (fold bump ks []) \<and> dict_keys (fold bump ks []) = first_seen ks \<and>
   dict_get (fold bump ks []) k = (if k \<in> set ks then Some (count_list ks k) else None) \<and>
   sum_list (dict_values (fold bump ks [])) = length ks"
proof (induction ks arbitrary: k rule: rev_induct)
  case Nil
  show ?case by (simp add: first_seen_def dict_keys_def dict_values_def)
next
  case (snoc x ks)
  let ?d = "fold bump ks []"
  have mem: "dict_mem x ?d \<longleftrightarrow> x \<in> set ks" using snoc [of x] by (simp add: dict_mem_iff)
  have zero: "x \<notin> set ks \<Longrightarrow> count_list ks x = 0" by (simp add: count_list_0_iff)
  have "dict_keys (bump x ?d) = first_seen (ks @ [x])"
    using snoc by (simp add: dict_keys_bump mem first_seen_snoc)
  moreover have "dict_get (bump x ?d) k =
      (if k \<in> set (ks @ [x]) then Some (count_list (ks @ [x]) k) else None)"
    using snoc [of k] snoc [of x] zero by (auto simp: dict_get_bump)
  moreover have "sum_list (dict_values (bump x ?d)) = length (ks @ [x])"
    using snoc [of x] by (simp add: sum_dict_bump)
  moreover have "dict_ok (bump x ?d)" using snoc by (simp add: dict_ok_bump)
  ultimately show ?case by simp
qed

lemma keyed_count_event: "keyed (count_event e cs) = bump (event_key e) (keyed cs)"
  unfolding bump_def dict_set_def dict_get_def keyed_def
  by (induction e cs rule: count_event.induct) (auto split: option.splits)

lemma counter_fold:
  "list_all (\<lambda>e. hash_event e = Inr ()) es \<Longrightarrow> counter es cs = Inr (fold count_event es cs)"
  by (induction es arbitrary: cs) simp_all

lemma keyed_fold: "keyed (fold count_event es cs) = fold bump (map event_key es) (keyed cs)"
  by (induction es arbitrary: cs) (simp_all add: keyed_count_event)

lemma counter_raises:
  "list_ex (\<lambda>e. hash_event e \<noteq> Inr ()) es \<Longrightarrow> counter es cs = Inl TypeError"
  by (induction es arbitrary: cs)
    (auto simp: hash_event_def bindE_Inl_iff split: pyval.splits scalar.splits)

lemma sum_count_event: "sum_list (map snd (count_event e cs)) = Suc (sum_list (map snd cs))"
  by (induction e cs rule: count_event.induct) auto

lemma sum_counter:
  "counter es cs = Inr ds \<Longrightarrow> sum_list (map snd ds) = sum_list (map snd cs) + length es"
  by (induction es arbitrary: cs) (auto simp: bindE_Inr_iff sum_count_event)

lemma sum_aggregate: "aggregate es t u = Inr ags \<Longrightarrow> sum_list (map ag_count ags) = length es"
  by (auto simp: aggregate_def bindE_Inr_iff split_def comp_def dest: sum_counter)

section \<open>Properties\<close>

text \<open>
  Whatever is pushed into an empty event queue, its snapshot holds exactly
  the latest events up to the limit, in the order they were pushed, counts exactly the others as
  dropped, and starts at the time of the first push; the queue is then as a new one.
\<close>

theorem queue_keeps_latest:
  "queue_take_snapshot end_time (fold push_timed ps (new_event_queue limit)) =
     (\<lparr>snap_start_time = (case ps of [] \<Rightarrow> end_time | p # _ \<Rightarrow> fst p), snap_end_time = end_time,
       snap_events = drop (length ps - limit) (map snd ps),
       snap_dropped_count = length ps - limit\<rparr>,
      new_event_queue limit)"
proof -
  define q where "q = fold push_timed ps (new_event_queue limit)"
  have limit: "eq_limit q = limit" by (simp add: q_def) (simp add: new_event_queue_def)
  have ev: "eq_events q = drop (length ps - limit) (map snd ps)"
    using fold_push [of "new_event_queue limit" ps] by (simp add: new_event_queue_def q_def)
  have "length (eq_events q) + eq_dropped_count q = length ps"
    unfolding q_def by (rule eventq.run_tally_exact)
  then have "eq_dropped_count q = length ps - limit" by (auto simp: ev)
  moreover have "eq_start_time q = (case ps of [] \<Rightarrow> None | p # _ \<Rightarrow> Some (fst p))"
    by (cases ps) (simp_all add: q_def fold_push_start queue_push_def new_event_queue_def)
  ultimately show ?thesis
    by (simp add: queue_take_snapshot_def ev limit queue_reset_new q_def [symmetric] split: list.splits)
qed


definition sample_event :: "pyval \<Rightarrow> evaluated_config_event" where
  "sample_event ty =
     (let v = \<lparr>tv_value = Some (py ''on''), tv_value_id = None, tv_type = PNone\<rparr>
      in \<lparr>ece_key = py ''flag'', ece_default_value = v, ece_evaluated_value = v,
          ece_requested_type = py ''str'', ece_used_default = False,
          ece_evaluation_reason = FoundMatch, ece_context_id = None, ece_context_kind = None,
          ece_type = ty, ece_evaluated_value_id = None\<rparr>)"

definition midnight :: datetime where
  "midnight = \<lparr>dt_year = 2024, dt_month = 1, dt_day = 1, dt_hour = 0, dt_minute = 0,
     dt_second = 0, dt_microsecond = 0\<rparr>"


text \<open>
  One event whose config type is a list or a dict, which a bundle
  can bring, makes the aggregation of the whole batch raise a \<open>TypeError\<close>.
\<close>

theorem unhashable_type_loses_batch:
  "aggregate (before @ sample_event (PList vs) # after) start_time end_time = Inl TypeError"
proof -
  have "counter (before @ sample_event (PList vs) # after) [] = Inl TypeError"
    by (rule counter_raises) (simp add: hash_event_def sample_event_def Let_def)
  then show ?thesis by (simp add: aggregate_def)
qed

text \<open>
  C36 (telemetry_memory_bounded). However many evaluations, contexts and invalid contexts are
  recorded, the event queue and the registry stay within their limits, at most 20 kinds of invalid
  contexts are remembered, and every invalid context is counted: in the snapshot the counts of the
  kinds and of the rest sum to the number recorded.
\<close>

theorem telemetry_memory_bounded:
  "length (eq_events (fold push_timed events (new_event_queue limit))) \<le> limit \<and>
   length (reg_contexts (fold add_context ctxs (new_context_registry limit'))) \<le> limit' \<and>
   length (reg_contexts (fold add_context ctxs (new_context_registry limit'))) +
     reg_dropped_count (fold add_context ctxs (new_context_registry limit')) \<le> length ctxs \<and>
   length (ics_counts_by_kind_sample (fold record_timed samples new_invalid_contexts)) \<le> 20 \<and>
   sum_list (map ice_count (fst (invalid_take_snapshot end_time
     (fold record_timed samples new_invalid_contexts)))) = length samples"
proof -
  let ?s = "fold record_timed samples new_invalid_contexts"
  have "sum_list (map ice_count (fst (invalid_take_snapshot end_time ?s))) = invalid_total ?s"
    by (simp add: invalid_take_snapshot_def Let_def invalid_total_def dict_values_def split_def comp_def)
  then show ?thesis
    using eventq.run_bounded contexts.run_bounded contexts.run_tally invalid.run_tally_exact [of samples]
      invalid.run_bounded [of samples] by (simp add: kind_sample_limit_def)
qed

end
