(* ===== verification/Http.thy ===== *)
theory Http
  imports Bundle
begin

text \<open>
  One request and its response: \<open>_http.py\<close>, and what the transports and the telemetry reporter
  share around it (\<open>_transport/base.py\<close>, \<open>_version.py\<close>). The connection pool belongs to
  \<open>urllib3\<close>: the argument \<open>pool\<close> answers a request with a response or with an exception, and the
  body of a response is what \<open>read\<close> returns or raises. Decoding replaces malformed bytes; it is
  defined byte by byte, which is also how the incremental decoder of the event stream works.
\<close>

section \<open>Decoding UTF-8\<close>

definition replacement :: nat where
  "replacement = 65533"

text \<open>The bytes that may follow the beginning of a multi-byte sequence.\<close>

definition continues :: "nat list \<Rightarrow> nat \<Rightarrow> bool" where
  "continues pending b \<longleftrightarrow>
     128 \<le> b \<and> b \<le> 191 \<and>
     (pending = [224] \<longrightarrow> 160 \<le> b) \<and> (pending = [237] \<longrightarrow> b \<le> 159) \<and>
     (pending = [240] \<longrightarrow> 144 \<le> b) \<and> (pending = [244] \<longrightarrow> b \<le> 143)"

definition sequence_length :: "nat \<Rightarrow> nat" where
  "sequence_length lead = (if lead < 224 then 2 else if lead < 240 then 3 else 4)"

definition assemble :: "nat list \<Rightarrow> nat" where
  "assemble bs =
     foldl (\<lambda>c b. c * 64 + (b - 128))
       (hd bs - (if length bs = 2 then 192 else if length bs = 3 then 224 else 240)) (tl bs)"

definition decode_start :: "nat \<Rightarrow> pystr \<times> nat list" where
  "decode_start b =
     (if b < 128 then ([b], [])
      else if 194 \<le> b \<and> b \<le> 244 then ([], [b])
      else ([replacement], []))"

text \<open>One byte: the characters it completes, and the bytes that wait for more.\<close>

definition decode_byte :: "nat list \<Rightarrow> nat \<Rightarrow> pystr \<times> nat list" where
  "decode_byte pending b =
     (case pending of
        [] \<Rightarrow> decode_start b
      | lead # _ \<Rightarrow>
          if continues pending b then
            if Suc (length pending) = sequence_length lead
            then ([assemble (pending @ [b])], [])
            else ([], pending @ [b])
          else (let (t, rest) = decode_start b in (replacement # t, rest)))"

fun decode_bytes :: "nat list \<Rightarrow> nat list \<Rightarrow> pystr \<times> nat list" where
  "decode_bytes pending [] = ([], pending)"
| "decode_bytes pending (b # bs) =
     (let (t, p) = decode_byte pending b; (u, q) = decode_bytes p bs in (t @ u, q))"

definition decode_final :: "nat list \<Rightarrow> pystr" where
  "decode_final pending = (if pending = [] then [] else [replacement])"

definition utf8_decode :: "nat list \<Rightarrow> pystr" where
  "utf8_decode bs = (let (t, p) = decode_bytes [] bs in t @ decode_final p)"

section \<open>Requests\<close>

record sdk_identity =
  sdk_name :: pystr
  sdk_version :: pystr

definition user_agent :: "sdk_identity \<Rightarrow> pystr" where
  "user_agent i = sdk_name i @ py ''/'' @ sdk_version i"

definition request_headers :: "sdk_identity \<Rightarrow> (pystr, pystr) dict" where
  "request_headers i =
     [(py ''Content-Type'', py ''application/json''), (py ''User-Agent'', user_agent i)]"

definition json_body :: "(pystr \<times> pyval) list \<Rightarrow> nat list result" where
  "json_body payload =
     bindE (json_dumps default_style
              (PDict (map (\<lambda>(k, v). (PStr k, v)) (filter (\<lambda>(k, v). v \<noteq> PNone) payload))))
       utf8_encode"

definition is_fatal_status :: "int option \<Rightarrow> bool" where
  "is_fatal_status status =
     (case status of None \<Rightarrow> False | Some s \<Rightarrow> 400 \<le> s \<and> s < 500 \<and> s \<noteq> 429)"

definition fatal_status_error :: "int option \<Rightarrow> exn" where
  "fatal_status_error status = ConfigDirectorConnectionError status"

record http_request =
  rq_url :: pystr
  rq_body :: "nat list"
  rq_headers :: "(pystr, pystr) dict"
  rq_timeout :: pyfloat

datatype pool_answer = PoolRaises exn | PoolResponse int "nat list result"

type_synonym pool = "http_request \<Rightarrow> pool_answer"

record http_response =
  rs_status :: int
  rs_body :: pystr

definition response_ok :: "http_response \<Rightarrow> bool" where
  "response_ok r \<longleftrightarrow> 200 \<le> rs_status r \<and> rs_status r < 300"

definition max_response_bytes :: nat where
  "max_response_bytes = 32 * 1024 * 1024"

definition read_response_text :: "nat list result \<Rightarrow> pystr result" where
  "read_response_text body =
     bindE body (\<lambda>bytes.
       let payload = take (max_response_bytes + 1) bytes
       in if max_response_bytes < length payload then Inl (ConfigDirectorConnectionError None)
          else Inr (utf8_decode payload))"

definition http_post ::
  "pool \<Rightarrow> pystr \<Rightarrow> nat list \<Rightarrow> (pystr, pystr) dict \<Rightarrow> pyfloat \<Rightarrow> http_response result" where
  "http_post pool url body headers timeout =
     (case pool \<lparr>rq_url = url, rq_body = body, rq_headers = headers, rq_timeout = timeout\<rparr> of
        PoolRaises e \<Rightarrow>
          Inl (if e = LocationValueError then ConfigDirectorValidationError
               else if is_http_error e then ConfigDirectorConnectionError None
               else e)
      | PoolResponse status body' \<Rightarrow>
          bindE (read_response_text body') (\<lambda>t. Inr \<lparr>rs_status = status, rs_body = t\<rparr>))"

section \<open>Lemmas\<close>

lemma decode_bytes_append:
  "decode_bytes p (bs @ cs) =
     (let (t, q) = decode_bytes p bs; (u, r) = decode_bytes q cs in (t @ u, r))"
  by (induction bs arbitrary: p) (simp_all add: Let_def split_def)

lemmas decode_simps = utf8_char_def decode_byte_def decode_start_def continues_def
  sequence_length_def assemble_def is_surrogate_def

lemma digit_split: "c = q * 64 + r \<Longrightarrow> r < 64 \<Longrightarrow> c div 64 = q \<and> c mod 64 = (r :: nat)"
  by simp

lemma decode_three_bytes:
  assumes c: "c = (a * 64 + b) * 64 + r" "b < 64" "r < 64"
    and range: "2048 \<le> c" "c < 65536" "\<not> is_surrogate c"
  shows "decode_bytes [] (utf8_char c) = ([c], [])"
proof -
  have q: "c div 64 = a * 64 + b" "c mod 64 = r" using digit_split [OF c(1,3)] by auto
  have "c div 4096 = c div 64 div 64" by (simp flip: div_mult2_eq)
  then have a: "c div 4096 = a" "c div 64 mod 64 = b"
    using digit_split [OF q(1) c(2)] by auto
  have bytes: "utf8_char c = [224 + a, 128 + b, 128 + r]" using range by (simp add: utf8_char_def q(2) a)
  have e: "c = a * 4096 + b * 64 + r" by (simp add: c)
  have "a < 16" using e range(2) by simp
  have "a = 0 \<Longrightarrow> 32 \<le> b" using e c(2,3) range(1) by simp
  moreover have "b < 32" if "a = 13"
  proof (rule ccontr)
    assume "\<not> b < 32"
    then show False using e that c(2,3) range(3) by (simp add: is_surrogate_def)
  qed
  ultimately have "continues [224 + a] (128 + b)" using c(2) \<open>a < 16\<close>
    by (auto simp: continues_def less_Suc_eq_le [symmetric])
  then have "decode_byte [224 + a] (128 + b) = ([], [224 + a, 128 + b])"
    using \<open>a < 16\<close> by (simp add: decode_byte_def sequence_length_def)
  moreover have "decode_byte [] (224 + a) = ([], [224 + a])"
    using \<open>a < 16\<close> by (simp add: decode_byte_def decode_start_def)
  moreover have "decode_byte [224 + a, 128 + b] (128 + r) = ([c], [])"
    using \<open>a < 16\<close> c(3) e by (simp add: decode_byte_def sequence_length_def continues_def assemble_def)
  ultimately show ?thesis by (simp add: bytes)
qed

lemma decode_four_bytes:
  assumes c: "c = ((z * 64 + a) * 64 + b) * 64 + r" "a < 64" "b < 64" "r < 64"
    and range: "65536 \<le> c" "c < 1114112"
  shows "decode_bytes [] (utf8_char c) = ([c], [])"
proof -
  have q: "c div 64 = (z * 64 + a) * 64 + b" "c mod 64 = r"
    using digit_split [OF c(1,4)] by auto
  have "c div 4096 = c div 64 div 64" by (simp flip: div_mult2_eq)
  then have a: "c div 4096 = z * 64 + a" "c div 64 mod 64 = b"
    using digit_split [OF q(1) c(3)] by auto
  have "c div 262144 = c div 4096 div 64" by (simp flip: div_mult2_eq)
  then have z: "c div 262144 = z" "c div 4096 mod 64 = a"
    using digit_split [OF a(1) c(2)] by auto
  have bytes: "utf8_char c = [240 + z, 128 + a, 128 + b, 128 + r]"
    using range by (simp add: utf8_char_def q(2) a(2) z)
  have e: "c = z * 262144 + a * 4096 + b * 64 + r" by (simp add: c)
  have "z < 5" using e range(2) by simp
  have "z = 0 \<Longrightarrow> 16 \<le> a" using e c(2-4) range(1) by simp
  moreover have "z = 4 \<Longrightarrow> a < 16" using e range(2) by simp
  ultimately have "continues [240 + z] (128 + a)" using c(2) \<open>z < 5\<close>
    by (auto simp: continues_def less_Suc_eq_le [symmetric])
  then have "decode_byte [240 + z] (128 + a) = ([], [240 + z, 128 + a])"
    by (simp add: decode_byte_def sequence_length_def)
  moreover have "decode_byte [] (240 + z) = ([], [240 + z])"
    using \<open>z < 5\<close> by (simp add: decode_byte_def decode_start_def)
  moreover have "decode_byte [240 + z, 128 + a] (128 + b) = ([], [240 + z, 128 + a, 128 + b])"
    using c(3) by (simp add: decode_byte_def sequence_length_def continues_def)
  moreover have "decode_byte [240 + z, 128 + a, 128 + b] (128 + r) = ([c], [])"
    using c(4) e by (simp add: decode_byte_def sequence_length_def continues_def assemble_def)
  ultimately show ?thesis by (simp add: bytes)
qed

lemma decode_utf8_char:
  assumes "c < 1114112" and "\<not> is_surrogate c"
  shows "decode_bytes [] (utf8_char c) = ([c], [])"
proof -
  consider "c < 128" | "128 \<le> c" "c < 2048" | "2048 \<le> c" "c < 65536" | "65536 \<le> c" by linarith
  then show ?thesis
  proof cases
    case 1
    then show ?thesis by (simp add: decode_simps)
  next
    case 2
    then have "2 \<le> c div 64" "c div 64 < 32" by auto
    with 2 show ?thesis by (simp add: decode_simps)
  next
    case 3
    show ?thesis
      by (rule decode_three_bytes [of c "c div 64 div 64" "c div 64 mod 64" "c mod 64"])
        (use 3 assms in auto)
  next
    case 4
    show ?thesis
      by (rule decode_four_bytes [of c "c div 64 div 64 div 64" "c div 64 div 64 mod 64"
            "c div 64 mod 64" "c mod 64"])
        (use 4 assms in auto)
  qed
qed

lemma decode_utf8_encode:
  assumes "is_pystr s" and "utf8_encode s = Inr bs"
  shows "decode_bytes [] bs = (s, [])"
proof -
  have "decode_bytes [] (concat (map utf8_char s)) = (s, [])"
    if "list_all (\<lambda>c. c < 1114112) s" "\<not> list_ex is_surrogate s" for s
    using that
  proof (induction s)
    case (Cons c s)
    then show ?case using decode_utf8_char [of c] by (simp add: decode_bytes_append)
  qed simp
  with assms show ?thesis by (auto simp: is_pystr_def utf8_encode_def split: if_splits)
qed

lemma utf8_roundtrip: "is_pystr s \<Longrightarrow> utf8_encode s = Inr bs \<Longrightarrow> utf8_decode bs = s"
  by (simp add: utf8_decode_def decode_utf8_encode decode_final_def)

text \<open>
  The documents the SDK sends are plain: strings, integers and containers of them. Their text is
  ASCII, since \<open>json.dumps\<close> escapes every other character, so it can always be encoded, also when
  a string holds a lone surrogate.
\<close>

fun json_safe :: "pyval \<Rightarrow> bool" where
  "json_safe PNone = True"
| "json_safe (PScalar s) =
     (case s of SStr _ \<Rightarrow> True | SBool _ \<Rightarrow> True | SInt i \<Rightarrow> \<not> isl (str_of_int i) | SFloat _ \<Rightarrow> False)"
| "json_safe (PList vs) = list_all json_safe vs"
| "json_safe (PTuple vs) = list_all json_safe vs"
| "json_safe (PDict d) =
     list_all (\<lambda>(k, v). (case k of PStr _ \<Rightarrow> True | _ \<Rightarrow> False) \<and> json_safe v) d"
| "json_safe (PObj t s) = False"

abbreviation ascii :: "pystr \<Rightarrow> bool" where
  "ascii t \<equiv> list_all (\<lambda>c. c < 128) t"

lemma ascii_hex4: "ascii (hex4 n)"
proof -
  have "m < 16 \<Longrightarrow> hex_digit m < 128" for m by (simp add: hex_digit_def)
  then show ?thesis by (simp add: hex4_def)
qed

lemma ascii_escape: "ascii (json_escape_char True c)"
  using ascii_hex4 by (simp add: json_escape_char_def unicode_escape_def)

lemma ascii_json_string: "ascii (json_string True s)"
  using ascii_escape by (induction s) (simp_all add: json_string_def)

lemma ascii_nat_str: "ascii (nat_str n)"
  using nat_str_digits [of n] by (auto simp: list_all_iff is_ascii_digit_def)

lemma ascii_join: "ascii sep \<Longrightarrow> list_all ascii ts \<Longrightarrow> ascii (str_join sep ts)"
  by (induction sep ts rule: str_join.induct) auto

lemma ascii_items:
  assumes "\<And>x. x \<in> set xs \<Longrightarrow> \<exists>t. f x = Inr t \<and> ascii t"
  shows "\<exists>ts. mapE f xs = Inr ts \<and> list_all ascii ts"
  using assms
proof (induction xs)
  case (Cons x xs)
  then obtain ts where "mapE f xs = Inr ts" "list_all ascii ts" by auto
  moreover obtain t where "f x = Inr t" "ascii t" using Cons.prems [of x] by auto
  ultimately show ?case by simp
qed simp

lemma default_style_simps [simp]:
  "ensure_ascii default_style = True" "item_separator default_style = py '', ''"
  "key_separator default_style = py '': ''"
  by (simp_all add: default_style_def)

lemma json_safe_dumps: "json_safe v \<Longrightarrow> \<exists>t. json_dumps default_style v = Inr t \<and> ascii t"
proof (induction v rule: json_safe.induct)
  case (2 s)
  then show ?case
    by (auto simp: json_scalar_def ascii_json_string bool_text_def str_of_int_def int_str_def
        ascii_nat_str split: scalar.splits if_splits)
next
  case (3 vs)
  then have "\<exists>ts. mapE (json_dumps default_style) vs = Inr ts \<and> list_all ascii ts"
    by (intro ascii_items) (auto simp: list_all_iff)
  then show ?case using ascii_join [of "py '', ''"] by auto
next
  case (4 vs)
  then have "\<exists>ts. mapE (json_dumps default_style) vs = Inr ts \<and> list_all ascii ts"
    by (intro ascii_items) (auto simp: list_all_iff)
  then show ?case using ascii_join [of "py '', ''"] by auto
next
  case (5 d)
  let ?f = "\<lambda>(k, v). bindE (json_key default_style k) (\<lambda>kt. bindE (json_dumps default_style v)
      (\<lambda>t. Inr (json_string True kt @ py '': '' @ t)))"
  have "\<exists>t. ?f kv = Inr t \<and> ascii t"
    if kv: "kv \<in> set d" for kv
  proof -
    obtain k v where p: "kv = (k, v)" by fastforce
    obtain s where k: "k = PStr s"
      using 5(2) kv p by (auto simp: list_all_iff split: pyval.splits scalar.splits)
    obtain t where "json_dumps default_style v = Inr t" "ascii t"
      using 5(1) [OF kv p [symmetric]] 5(2) kv p by (auto simp: list_all_iff)
    then show ?thesis by (simp add: p k json_key_def ascii_json_string)
  qed
  then have "\<exists>ts. mapE ?f d = Inr ts \<and> list_all ascii ts" by (rule ascii_items)
  then show ?case using ascii_join [of "py '', ''"] by auto
qed simp_all

lemma json_safe_encodes:
  "json_safe v \<Longrightarrow> \<exists>body. bindE (json_dumps default_style v) utf8_encode = Inr body"
  using json_safe_dumps [of v] utf8_encode_ascii by fastforce

end
