(* ===== verification/Telemetry.thy ===== *)
theory Telemetry
  imports Telemetry_Queue Http
begin

text \<open>
  Reporting telemetry: \<open>_telemetry/reporter.py\<close>, \<open>_telemetry/collector.py\<close> and
  \<open>_telemetry/discarding.py\<close>. The collector is a record of the three collections and its flags;
  its methods are functions that return their result together with the new state, so that an
  exception leaves the state it left in the source. The pool and the clock are arguments. The locale
  \<open>telemetry_sink\<close> is what the client relies on (\<open>TelemetryProtocol\<close>).
\<close>

section \<open>The reporter\<close>

record event_report =
  rep_evaluations :: "aggregated_event list"
  rep_dropped_evaluations :: nat
  rep_contexts :: "checked_context list"
  rep_dropped_contexts :: nat
  rep_invalid_contexts :: "invalid_context_entry list"

definition report_is_empty :: "event_report \<Rightarrow> bool" where
  "report_is_empty r \<longleftrightarrow>
     rep_evaluations r = [] \<and> rep_contexts r = [] \<and> rep_invalid_contexts r = [] \<and>
     rep_dropped_evaluations r = 0 \<and> rep_dropped_contexts r = 0"

record reporter_response =
  rr_success :: bool
  rr_fatal :: bool

record reporter =
  rp_server_sdk_key :: pystr
  rp_meta_context :: "(pystr, pystr) dict"
  rp_headers :: "(pystr, pystr) dict"
  rp_url :: pystr
  rp_timeout :: pyfloat
  rp_send_requests :: bool

definition zfill :: "nat \<Rightarrow> nat \<Rightarrow> pystr" where
  "zfill w n = (let t = nat_str n in replicate (w - length t) 48 @ t)"

text \<open>\<open>isoformat(timespec="milliseconds")\<close> of a time in UTC.\<close>

definition iso_milliseconds :: "datetime \<Rightarrow> pystr" where
  "iso_milliseconds t =
     zfill 4 (dt_year t) @ py ''-'' @ zfill 2 (dt_month t) @ py ''-'' @ zfill 2 (dt_day t) @
     py ''T'' @ zfill 2 (dt_hour t) @ py '':'' @ zfill 2 (dt_minute t) @ py '':'' @
     zfill 2 (dt_second t) @ py ''.'' @ zfill 3 (dt_microsecond t div 1000) @ py ''+00:00''"

text \<open>\<open>s.replace(old, new)\<close>\<close>

function str_replace :: "pystr \<Rightarrow> pystr \<Rightarrow> pystr \<Rightarrow> pystr" where
  "str_replace old new [] = []"
| "str_replace old new (c # s) =
     (if old \<noteq> [] \<and> str_startswith (c # s) old
      then new @ str_replace old new (drop (length old) (c # s))
      else c # str_replace old new s)"
  by pat_completeness auto

termination
  by (relation "measure (\<lambda>(old, new, s). length s)") auto

definition timestamp :: "datetime \<Rightarrow> pystr" where
  "timestamp moment = str_replace (py ''+00:00'') (py ''Z'') (iso_milliseconds moment)"

definition aggregated_to_wire :: "aggregated_event \<Rightarrow> pyval" where
  "aggregated_to_wire a =
     PDict [(PStr (py ''startTime''), PStr (timestamp (ag_start_time a))),
            (PStr (py ''endTime''), PStr (timestamp (ag_end_time a))),
            (PStr (py ''count''), PInt (int (ag_count a))),
            (PStr (py ''event''), event_to_wire (ag_event a))]"

definition invalid_context_to_wire :: "invalid_context_entry \<Rightarrow> pyval" where
  "invalid_context_to_wire e =
     PDict [(PStr (py ''startTime''), PStr (timestamp (ice_start_time e))),
            (PStr (py ''endTime''), PStr (timestamp (ice_end_time e))),
            (PStr (py ''count''), PInt (int (ice_count e))),
            (PStr (py ''event''),
               PDict ([(PStr (py ''reason''), PStr (py ''invalid-context-kind''))] @
                 opt_entry ''kindSample'' (ice_kind_sample e)))]"

definition optional :: "pystr option \<Rightarrow> pyval" where
  "optional v = (case v of None \<Rightarrow> PNone | Some s \<Rightarrow> PStr s)"

definition context_to_wire :: "checked_context \<Rightarrow> pyval" where
  "context_to_wire c =
     PDict ([(PStr (py ''id''), optional (ctx_id c)),
             (PStr (py ''kind''), PStr (effective_kind (Some c)))] @
       opt_entry ''name'' (ctx_name c) @
       (if ctx_traits c = PNone then [] else [(PStr (py ''traits''), ctx_traits c)]))"

definition payload :: "reporter \<Rightarrow> event_report \<Rightarrow> pyval" where
  "payload r rep =
     PDict
       [(PStr (py ''serverSdkKey''), PStr (rp_server_sdk_key r)),
        (PStr (py ''metaContext''), PDict (map (\<lambda>(k, v). (PStr k, PStr v)) (rp_meta_context r))),
        (PStr (py ''discreteEvents''),
           PDict [(PStr (py ''capturedContexts''), PList (map context_to_wire (rep_contexts rep)))]),
        (PStr (py ''aggregatedEvents''),
           PDict [(PStr (py ''evaluatedConfig''), PList (map aggregated_to_wire (rep_evaluations rep))),
                  (PStr (py ''invalidContext''),
                     PList (map invalid_context_to_wire (rep_invalid_contexts rep)))]),
        (PStr (py ''droppedEvents''),
           PDict [(PStr (py ''evaluatedConfig''), PInt (int (rep_dropped_evaluations rep))),
                  (PStr (py ''capturedContexts''), PInt (int (rep_dropped_contexts rep)))])]"

definition send_report :: "pool \<Rightarrow> nat list \<Rightarrow> reporter \<Rightarrow> reporter_response result" where
  "send_report pool body r =
     (case http_post pool (rp_url r) body (rp_headers r) (rp_timeout r) of
        Inl e \<Rightarrow>
          if e = ConfigDirectorValidationError then Inr \<lparr>rr_success = False, rr_fatal = True\<rparr>
          else if is_connection_error e then Inr \<lparr>rr_success = False, rr_fatal = False\<rparr>
          else Inl e
      | Inr response \<Rightarrow>
          if is_fatal_status (Some (rs_status response))
          then Inr \<lparr>rr_success = False, rr_fatal = True\<rparr>
          else Inr \<lparr>rr_success = response_ok response, rr_fatal = False\<rparr>)"

definition report :: "pool \<Rightarrow> event_report \<Rightarrow> reporter \<Rightarrow> reporter_response result \<times> reporter" where
  "report pool rep r =
     (if \<not> rp_send_requests r then (Inr \<lparr>rr_success = False, rr_fatal = True\<rparr>, r)
      else if report_is_empty rep then (Inr \<lparr>rr_success = True, rr_fatal = False\<rparr>, r)
      else
        (case bindE (bindE (json_dumps default_style (payload r rep)) utf8_encode)
                (\<lambda>body. send_report pool body r) of
           Inl e \<Rightarrow> (Inl e, r)
         | Inr response \<Rightarrow>
             (Inr response, if rr_fatal response then r\<lparr>rp_send_requests := False\<rparr> else r)))"

section \<open>The collector\<close>

definition evaluation_share :: nat where
  "evaluation_share = 7"

record telemetry_collector =
  tc_reporter :: reporter
  tc_events :: event_queue
  tc_contexts :: context_registry
  tc_invalid_contexts :: invalid_context_submissions
  tc_invalid_contexts_after_stopping :: invalid_context_submissions
  tc_collecting :: bool
  tc_closed :: bool
  tc_stop :: bool

definition new_collector :: "reporter \<Rightarrow> nat \<Rightarrow> telemetry_collector" where
  "new_collector r limit =
     (let evaluation_limit = limit * evaluation_share div 10
      in \<lparr>tc_reporter = r, tc_events = new_event_queue evaluation_limit,
          tc_contexts = new_context_registry (limit - evaluation_limit),
          tc_invalid_contexts = new_invalid_contexts,
          tc_invalid_contexts_after_stopping = new_invalid_contexts,
          tc_collecting = True, tc_closed = False, tc_stop = False\<rparr>)"

text \<open>The identity of a context that may be reported: it has an ID and is not anonymous.\<close>

definition reported_context :: "checked_context option \<Rightarrow> (pystr \<times> pystr \<times> checked_context) option" where
  "reported_context context =
     (case context of
        None \<Rightarrow> None
      | Some c \<Rightarrow>
          (case ctx_id c of
             None \<Rightarrow> None
           | Some i \<Rightarrow>
               if i \<noteq> [] \<and> \<not> ctx_anonymous c then Some (effective_kind (Some c), i, c) else None))"

definition record_evaluation ::
  "printable \<Rightarrow> datetime \<Rightarrow> evaluation_record \<Rightarrow> checked_context option \<Rightarrow>
    telemetry_collector \<Rightarrow> unit result \<times> telemetry_collector" where
  "record_evaluation pr now r context c =
     (if \<not> tc_collecting c then (Inr (), c)
      else
        let who = reported_context context;
            c1 = (case who of
                    None \<Rightarrow> c
                  | Some (k, i, x) \<Rightarrow> c\<lparr>tc_contexts := registry_add k i x (tc_contexts c)\<rparr>)
        in case evaluated_config_event_of pr r (map_option (\<lambda>(k, i, x). i) who)
                  (map_option (\<lambda>(k, i, x). k) who) of
             Inl e \<Rightarrow> (Inl e, c1)
           | Inr event \<Rightarrow> (Inr (), c1\<lparr>tc_events := queue_push now event (tc_events c1)\<rparr>))"

definition record_invalid_context ::
  "datetime \<Rightarrow> pystr \<Rightarrow> telemetry_collector \<Rightarrow> invalid_context_recording \<times> telemetry_collector" where
  "record_invalid_context now sample c =
     (if tc_collecting c then
        (let (r, s) = invalid_record now sample (tc_invalid_contexts c)
         in (r, c\<lparr>tc_invalid_contexts := s\<rparr>))
      else
        (let (r, s) = invalid_record now sample (tc_invalid_contexts_after_stopping c)
         in (r, c\<lparr>tc_invalid_contexts_after_stopping := s\<rparr>)))"

definition clear_all :: "telemetry_collector \<Rightarrow> telemetry_collector" where
  "clear_all c =
     c\<lparr>tc_events := queue_clear (tc_events c), tc_contexts := registry_clear (tc_contexts c),
       tc_invalid_contexts := invalid_clear (tc_invalid_contexts c)\<rparr>"

definition stop_collecting :: "telemetry_collector \<Rightarrow> telemetry_collector" where
  "stop_collecting c =
     (if \<not> tc_collecting c then c else clear_all (c\<lparr>tc_collecting := False, tc_stop := True\<rparr>))"

text \<open>
  The report of a flush: the snapshots of events and contexts are taken before the events are
  compacted and aggregated, the snapshot of the invalid contexts after.
\<close>

definition take_report :: "datetime \<Rightarrow> telemetry_collector \<Rightarrow> event_report result \<times> telemetry_collector" where
  "take_report now c =
     (let (snapshot, q) = queue_take_snapshot now (tc_events c);
          ((contexts, dropped), reg) = registry_take_snapshot (tc_contexts c);
          c1 = c\<lparr>tc_events := q, tc_contexts := reg\<rparr>
      in case bindE (mapE compact_event (snap_events snapshot)) (\<lambda>es.
                aggregate es (snap_start_time snapshot) (snap_end_time snapshot)) of
           Inl e \<Rightarrow> (Inl e, c1)
         | Inr ags \<Rightarrow>
             (let (invalid, s) = invalid_take_snapshot now (tc_invalid_contexts c1)
              in (Inr \<lparr>rep_evaluations = ags, rep_dropped_evaluations = snap_dropped_count snapshot,
                       rep_contexts = contexts, rep_dropped_contexts = dropped,
                       rep_invalid_contexts = invalid\<rparr>,
                  c1\<lparr>tc_invalid_contexts := s\<rparr>)))"

definition flush :: "pool \<Rightarrow> datetime \<Rightarrow> telemetry_collector \<Rightarrow> unit result \<times> telemetry_collector" where
  "flush pool now c =
     (case take_report now c of
        (Inl e, c1) \<Rightarrow> (Inl e, c1)
      | (Inr rep, c1) \<Rightarrow>
          if report_is_empty rep then (Inr (), c1)
          else
            (case report pool rep (tc_reporter c1) of
               (Inl e, r) \<Rightarrow> (Inr (), c1\<lparr>tc_reporter := r\<rparr>)
             | (Inr response, r) \<Rightarrow>
                 (Inr (),
                  if rr_fatal response then stop_collecting (c1\<lparr>tc_reporter := r\<rparr>)
                  else c1\<lparr>tc_reporter := r\<rparr>)))"

definition close_collector ::
  "pool \<Rightarrow> datetime \<Rightarrow> telemetry_collector \<Rightarrow> unit result \<times> telemetry_collector" where
  "close_collector pool now c =
     (if tc_closed c then (Inr (), c)
      else
        let c1 = c\<lparr>tc_closed := True, tc_collecting := False, tc_stop := True\<rparr>
        in if tc_collecting c then
             (case flush pool now c1 of
                (Inl e, c2) \<Rightarrow> (Inl e, c2)
              | (Inr _, c2) \<Rightarrow> (Inr (), clear_all c2))
           else (Inr (), clear_all c1))"

text \<open>
  The flush thread: each element of the list is one expiry of the wait, with the pool and the clock
  at that moment. The result is the list of the delays waited, and whether the thread has ended.
\<close>

fun run_flushes ::
  "pyfloat \<Rightarrow> pyfloat \<Rightarrow> (pool \<times> datetime) list \<Rightarrow> telemetry_collector \<Rightarrow>
    pyfloat list \<times> bool \<times> telemetry_collector" where
  "run_flushes delay interval [] c = ([delay], tc_stop c, c)"
| "run_flushes delay interval ((pool, now) # ticks) c =
     (if tc_stop c then ([delay], True, c)
      else
        (case flush pool now c of
           (Inl e, c1) \<Rightarrow> ([delay], True, c1)
         | (Inr _, c1) \<Rightarrow>
             if \<not> tc_collecting c1 then ([delay], True, c1)
             else (let (ds, r) = run_flushes interval interval ticks c1 in (delay # ds, r))))"

section \<open>Discarding\<close>

datatype telemetry = Discarding | Collecting telemetry_collector

definition telemetry_record ::
  "printable \<Rightarrow> datetime \<Rightarrow> evaluation_record \<Rightarrow> checked_context option \<Rightarrow> telemetry \<Rightarrow>
    unit result \<times> telemetry" where
  "telemetry_record pr now r context t =
     (case t of
        Discarding \<Rightarrow> (Inr (), Discarding)
      | Collecting c \<Rightarrow> (let (x, c') = record_evaluation pr now r context c in (x, Collecting c')))"

definition telemetry_record_invalid ::
  "datetime \<Rightarrow> pystr \<Rightarrow> telemetry \<Rightarrow> invalid_context_recording \<times> telemetry" where
  "telemetry_record_invalid now sample t =
     (case t of
        Discarding \<Rightarrow> (NewKindSample, Discarding)
      | Collecting c \<Rightarrow> (let (x, c') = record_invalid_context now sample c in (x, Collecting c')))"

definition telemetry_close :: "pool \<Rightarrow> datetime \<Rightarrow> telemetry \<Rightarrow> unit result \<times> telemetry" where
  "telemetry_close pool now t =
     (case t of
        Discarding \<Rightarrow> (Inr (), Discarding)
      | Collecting c \<Rightarrow> (let (x, c') = close_collector pool now c in (x, Collecting c')))"

section \<open>The collector as a transition system\<close>

text \<open>What threads of the application, the flush thread and the client can do, one call at a time.\<close>

inductive collector_step :: "printable \<Rightarrow> telemetry_collector \<Rightarrow> telemetry_collector \<Rightarrow> bool"
  for pr where
    records: "collector_step pr c (snd (record_evaluation pr now r context c))"
  | records_invalid: "collector_step pr c (snd (record_invalid_context now sample c))"
  | flushes: "collector_step pr c (snd (flush pool now c))"
  | closes: "collector_step pr c (snd (close_collector pool now c))"

inductive collector_run :: "printable \<Rightarrow> telemetry_collector \<Rightarrow> telemetry_collector \<Rightarrow> bool"
  for pr where
    start: "collector_run pr c c"
  | further: "collector_run pr c d \<Longrightarrow> collector_step pr d e \<Longrightarrow> collector_run pr c e"

inductive_cases collector_stepE: "collector_step pr c d"

definition reportable :: "(pystr \<times> pystr) \<times> checked_context \<Rightarrow> bool" where
  "reportable p =
     (case p of ((k, i), x) \<Rightarrow>
        k = effective_kind (Some x) \<and> ctx_id x = Some i \<and> i \<noteq> [] \<and> \<not> ctx_anonymous x)"

definition collector_inv :: "telemetry_collector \<Rightarrow> bool" where
  "collector_inv c \<longleftrightarrow>
     queue_ok (eq_limit (tc_events c)) (tc_events c) \<and>
     registry_ok (reg_limit (tc_contexts c)) (tc_contexts c) \<and>
     list_all reportable (reg_contexts (tc_contexts c)) \<and>
     (\<not> tc_collecting c \<longrightarrow> eq_events (tc_events c) = [] \<and> reg_contexts (tc_contexts c) = []) \<and>
     (\<not> rp_send_requests (tc_reporter c) \<longrightarrow> \<not> tc_collecting c) \<and>
     (tc_closed c \<longrightarrow> \<not> tc_collecting c)"

lemma reported_context_reportable:
  "reported_context context = Some (k, i, x) \<Longrightarrow> reportable ((k, i), x)"
  by (auto simp: reported_context_def reportable_def split: option.splits if_splits)

lemma registry_add_inv:
  assumes "registry_ok (reg_limit r) r" and "list_all reportable (reg_contexts r)" and "reportable ((k, i), x)"
  shows "registry_ok (reg_limit r) (registry_add k i x r) \<and>
    list_all reportable (reg_contexts (registry_add k i x r)) \<and>
    reg_limit (registry_add k i x r) = reg_limit r"
proof -
  have "list_all reportable (dict_set (k, i) x (reg_contexts r))"
    by (rule list_all_dict_set) (use assms in auto)
  then show ?thesis
    using assms contexts.record_ok [of "reg_limit r" r "((k, i), x)"]
    by (auto simp: registry_add_eq list_all_iff dest: in_set_dropD)
qed

lemma queue_push_ok: "queue_ok (eq_limit q) q \<Longrightarrow> queue_ok (eq_limit q) (queue_push now e q)"
  using eventq.record_ok [of "eq_limit q" q "(now, e)"] by simp

lemma record_evaluation_inv:
  assumes "collector_inv c"
  shows "collector_inv (snd (record_evaluation pr now r context c))"
proof (cases "tc_collecting c")
  case True
  note inv = assms [unfolded collector_inv_def]
  show ?thesis
  proof (cases "reported_context context")
    case None
    with True inv show ?thesis
      by (auto simp: record_evaluation_def collector_inv_def Let_def queue_push_ok split: sum.splits)
  next
    case (Some t)
    obtain k i x where t: "t = (k, i, x)" by (cases t) auto
    have "reportable ((k, i), x)" using Some t by (simp add: reported_context_reportable)
    with registry_add_inv [of "tc_contexts c" k i x] inv Some True show ?thesis
      by (auto simp: record_evaluation_def collector_inv_def Let_def queue_push_ok t split: sum.splits)
  qed
qed (use assms in \<open>simp add: record_evaluation_def\<close>)

lemma record_invalid_inv:
  "collector_inv c \<Longrightarrow> collector_inv (snd (record_invalid_context now sample c))"
  by (auto simp: record_invalid_context_def collector_inv_def split_def Let_def)

lemma reset_simps [simp]:
  "eq_events (queue_reset q) = []" "eq_limit (queue_reset q) = eq_limit q"
  "reg_contexts (registry_reset g) = []" "reg_limit (registry_reset g) = reg_limit g"
  by (simp_all add: queue_reset_def registry_reset_def)

text \<open>What a report leaves behind: empty collections and the flags as they were.\<close>

lemma take_report_state:
  "eq_events (tc_events (snd (take_report now c))) = [] \<and>
   reg_contexts (tc_contexts (snd (take_report now c))) = [] \<and>
   tc_collecting (snd (take_report now c)) = tc_collecting c \<and>
   tc_closed (snd (take_report now c)) = tc_closed c \<and>
   tc_stop (snd (take_report now c)) = tc_stop c \<and>
   tc_reporter (snd (take_report now c)) = tc_reporter c"
  by (auto simp: take_report_def queue_take_snapshot_def registry_take_snapshot_def Let_def split_def
      split: sum.splits)

lemma empty_inv:
  "eq_events (tc_events c) = [] \<Longrightarrow> reg_contexts (tc_contexts c) = [] \<Longrightarrow>
   (\<not> rp_send_requests (tc_reporter c) \<longrightarrow> \<not> tc_collecting c) \<Longrightarrow>
   (tc_closed c \<longrightarrow> \<not> tc_collecting c) \<Longrightarrow> collector_inv c"
  by (simp add: collector_inv_def queue_ok_def registry_ok_def)

lemma stop_collecting_state:
  "eq_events (tc_events c) = [] \<Longrightarrow> reg_contexts (tc_contexts c) = [] \<Longrightarrow>
   eq_events (tc_events (stop_collecting c)) = [] \<and>
   reg_contexts (tc_contexts (stop_collecting c)) = [] \<and>
   \<not> tc_collecting (stop_collecting c) \<and> tc_closed (stop_collecting c) = tc_closed c \<and>
   tc_reporter (stop_collecting c) = tc_reporter c"
  by (simp add: stop_collecting_def clear_all_def queue_clear_def registry_clear_def)

lemma report_stops:
  "\<not> rp_send_requests (snd (report pool rep r)) \<Longrightarrow>
   \<exists>x. fst (report pool rep r) = Inr x \<and> rr_fatal x \<or> \<not> rp_send_requests r"
  by (auto simp: report_def split: sum.splits if_splits)

lemma report_stopped: "\<not> rp_send_requests r \<Longrightarrow> report pool rep r = (Inr \<lparr>rr_success = False, rr_fatal = True\<rparr>, r)"
  by (simp add: report_def)

text \<open>A flush leaves the collections empty, whatever happens, and stops when the reporter has.\<close>

lemma flush_state:
  assumes "\<not> rp_send_requests (tc_reporter c) \<longrightarrow> \<not> tc_collecting c"
  shows "eq_events (tc_events (snd (flush pool now c))) = [] \<and>
   reg_contexts (tc_contexts (snd (flush pool now c))) = [] \<and>
   (\<not> rp_send_requests (tc_reporter (snd (flush pool now c))) \<longrightarrow> \<not> tc_collecting (snd (flush pool now c))) \<and>
   (\<not> tc_collecting c \<longrightarrow> \<not> tc_collecting (snd (flush pool now c))) \<and>
   tc_closed (snd (flush pool now c)) = tc_closed c"
proof (cases "take_report now c")
  case (Pair res c1)
  note c1 = take_report_state [of now c, unfolded Pair snd_conv]
  show ?thesis
  proof (cases res)
    case (Inl e)
    with Pair c1 assms show ?thesis by (simp add: flush_def)
  next
    case (Inr rep)
    obtain x r where rp: "report pool rep (tc_reporter c1) = (x, r)" by fastforce
    have "\<not> rp_send_requests r \<Longrightarrow> (\<exists>y. x = Inr y \<and> rr_fatal y) \<or> \<not> rp_send_requests (tc_reporter c1)"
      using report_stops [of pool rep "tc_reporter c1"] rp by auto
    with Pair Inr c1 assms rp stop_collecting_state [of "c1\<lparr>tc_reporter := r\<rparr>"] show ?thesis
      by (auto simp: flush_def split: sum.splits)
  qed
qed

lemma clear_all_state [simp]:
  "eq_events (tc_events (clear_all c)) = []" "reg_contexts (tc_contexts (clear_all c)) = []"
  "tc_collecting (clear_all c) = tc_collecting c" "tc_closed (clear_all c) = tc_closed c"
  "tc_reporter (clear_all c) = tc_reporter c"
  by (simp_all add: clear_all_def queue_clear_def registry_clear_def)

lemma close_state:
  "\<not> tc_closed c \<Longrightarrow>
   eq_events (tc_events (snd (close_collector pool now c))) = [] \<and>
   reg_contexts (tc_contexts (snd (close_collector pool now c))) = [] \<and>
   \<not> tc_collecting (snd (close_collector pool now c)) \<and> tc_closed (snd (close_collector pool now c))"
  using flush_state [of "c\<lparr>tc_closed := True, tc_collecting := False, tc_stop := True\<rparr>" pool now]
  by (auto simp: close_collector_def Let_def split: prod.splits sum.splits)

lemma collector_step_inv: "collector_step pr c d \<Longrightarrow> collector_inv c \<Longrightarrow> collector_inv d"
proof (erule collector_stepE)
  fix pool now
  assume c: "collector_inv c" and "d = snd (flush pool now c)"
  with flush_state [of c pool now] show "collector_inv d"
    by (intro empty_inv) (auto simp: collector_inv_def)
next
  fix pool now
  assume c: "collector_inv c" and d: "d = snd (close_collector pool now c)"
  show "collector_inv d"
  proof (cases "tc_closed c")
    case True
    with c d show ?thesis by (simp add: close_collector_def)
  next
    case False
    with close_state [OF False, of pool now] d show ?thesis by (intro empty_inv) auto
  qed
qed (simp_all add: record_evaluation_inv record_invalid_inv)

lemma new_collector_inv: "rp_send_requests r \<Longrightarrow> collector_inv (new_collector r limit)"
  by (simp add: new_collector_def Let_def collector_inv_def queue_ok_def registry_ok_def
      new_event_queue_def new_context_registry_def)

lemma collector_run_inv: "collector_run pr c d \<Longrightarrow> collector_inv c \<Longrightarrow> collector_inv d"
  by (induction rule: collector_run.induct) (auto intro: collector_step_inv)

section \<open>What the client relies on\<close>

locale telemetry_sink =
  fixes record_item :: "'e \<Rightarrow> 't \<Rightarrow> unit result \<times> 't"
    and close :: "'w \<Rightarrow> 't \<Rightarrow> unit result \<times> 't"
    and is_closed :: "'t \<Rightarrow> bool"
    and ok :: "'t \<Rightarrow> bool"
  assumes record_ok: "ok t \<Longrightarrow> ok (snd (record_item e t))"
    and close_ok: "ok t \<Longrightarrow> ok (snd (close w t))"
    and closes: "ok t \<Longrightarrow> is_closed (snd (close w t))"
    and closed_close: "is_closed t \<Longrightarrow> close w t = (Inr (), t)"
    and closed_record: "is_closed t \<Longrightarrow> record_item e t = (Inr (), t)"
begin

abbreviation records :: "'e list \<Rightarrow> 't \<Rightarrow> 't" where
  "records es t \<equiv> fold (\<lambda>e t. snd (record_item e t)) es t"

lemma records_ok: "ok t \<Longrightarrow> ok (records es t)"
  by (induction es arbitrary: t) (auto intro: record_ok)

lemma records_closed: "is_closed t \<Longrightarrow> records es t = t"
  by (induction es) (simp_all add: closed_record)

lemma closed_for_good:
  "ok t \<Longrightarrow> records es' (snd (close w (records es t))) = snd (close w (records es t)) \<and>
    close v (snd (close w (records es t))) = (Inr (), snd (close w (records es t)))"
  using closes [OF records_ok] by (simp add: records_closed closed_close)

end

definition telemetry_is_closed :: "telemetry \<Rightarrow> bool" where
  "telemetry_is_closed t =
     (case t of Discarding \<Rightarrow> True | Collecting c \<Rightarrow> tc_closed c \<and> \<not> tc_collecting c)"

definition telemetry_ok :: "telemetry \<Rightarrow> bool" where
  "telemetry_ok t = (case t of Discarding \<Rightarrow> True | Collecting c \<Rightarrow> collector_inv c)"

lemma telemetry_record_ok: "telemetry_ok t \<Longrightarrow> telemetry_ok (snd (telemetry_record pr now r context t))"
  by (auto simp: telemetry_ok_def telemetry_record_def split_def Let_def record_evaluation_inv
      split: telemetry.splits)

lemma telemetry_record_invalid_ok:
  "telemetry_ok t \<Longrightarrow> telemetry_ok (snd (telemetry_record_invalid now sample t))"
  by (auto simp: telemetry_ok_def telemetry_record_invalid_def split_def Let_def record_invalid_inv
      split: telemetry.splits)

lemma telemetry_close_ok: "telemetry_ok t \<Longrightarrow> telemetry_ok (snd (telemetry_close pool now t))"
  by (auto simp: telemetry_ok_def telemetry_close_def split_def Let_def
      intro: collector_step_inv [OF collector_step.closes] split: telemetry.splits)

lemma telemetry_closes: "telemetry_ok t \<Longrightarrow> telemetry_is_closed (snd (telemetry_close pool now t))"
proof (cases t)
  case (Collecting c)
  assume "telemetry_ok t"
  with Collecting close_state [of c pool now] show ?thesis
    by (cases "tc_closed c")
      (auto simp: telemetry_ok_def telemetry_close_def telemetry_is_closed_def collector_inv_def
        close_collector_def [of pool now c] split_def Let_def)
qed (simp add: telemetry_close_def telemetry_is_closed_def)

interpretation sink: telemetry_sink
  "\<lambda>(pr, now, r, context). telemetry_record pr now r context"
  "\<lambda>(pool, now). telemetry_close pool now" telemetry_is_closed telemetry_ok
  by unfold_locales
    (auto simp: telemetry_record_ok telemetry_close_ok telemetry_closes,
     auto simp: telemetry_close_def telemetry_record_def telemetry_is_closed_def close_collector_def
       record_evaluation_def split: telemetry.splits)

section \<open>Properties\<close>

lemma anonymous_context: "ctx_anonymous x \<or> ctx_id x = None \<or> ctx_id x = Some [] \<Longrightarrow> reported_context (Some x) = None"
  by (auto simp: reported_context_def split: option.splits)

lemma take_report_contexts:
  "fst (take_report now c) = Inr rep \<Longrightarrow> rep_contexts rep = map snd (reg_contexts (tc_contexts c))"
  by (auto simp: take_report_def queue_take_snapshot_def registry_take_snapshot_def Let_def split_def
      dict_values_def split: sum.splits)


definition sample_reporter :: reporter where
  "sample_reporter = \<lparr>rp_server_sdk_key = py ''key'', rp_meta_context = [], rp_headers = [],
     rp_url = py ''https://t/'', rp_timeout = Finite 5, rp_send_requests = True\<rparr>"

definition sample_record :: evaluation_record where
  "sample_record = \<lparr>er_key = py ''flag'', er_default = PStr (py ''off''), er_value = PStr (py ''on''),
     er_used_default = False, er_reason = FoundMatch, er_config_type = PStr (py ''string''),
     er_value_id = None\<rparr>"

definition sample_user :: checked_context where
  "sample_user = empty_context\<lparr>ctx_id := Some (py ''u1'')\<rparr>"

lemma sample_event_of:
  "evaluated_config_event_of pr sample_record i k =
     Inr \<lparr>ece_key = py ''flag'',
       ece_default_value = \<lparr>tv_value = Some (py ''off''), tv_value_id = None, tv_type = PNone\<rparr>,
       ece_evaluated_value = \<lparr>tv_value = Some (py ''on''), tv_value_id = None, tv_type = PNone\<rparr>,
       ece_requested_type = py ''str'', ece_used_default = False, ece_evaluation_reason = FoundMatch,
       ece_context_id = i, ece_context_kind = k, ece_type = PStr (py ''string''),
       ece_evaluated_value_id = None\<rparr>"
  by (simp add: evaluated_config_event_of_def sample_record_def telemetry_value_of_def is_json_def
      render_value_def json_string_of_def config_value_max_length_def requested_type_of_def)

definition sample_collector :: telemetry_collector where
  "sample_collector =
     snd (record_evaluation (\<lambda>_. True) midnight sample_record (Some sample_user)
       (new_collector sample_reporter 10))"

lemma sample_collector_run: "collector_run pr (new_collector sample_reporter 10) sample_collector"
proof -
  have "sample_collector = snd (record_evaluation pr midnight sample_record (Some sample_user)
      (new_collector sample_reporter 10))"
    by (simp add: sample_collector_def record_evaluation_def sample_event_of)
  then show ?thesis by (metis collector_run.intros collector_step.records)
qed

lemma sample_report:
  "\<exists>rep. fst (take_report midnight sample_collector) = Inr rep \<and> rep_contexts rep = [sample_user] \<and>
     length (rep_evaluations rep) = 1"
proof -
  have ctx: "reported_context (Some sample_user) = Some (py ''user'', py ''u1'', sample_user)"
    by (simp add: reported_context_def sample_user_def empty_context_def effective_kind_def default_kind_def)
  show ?thesis
    by (simp add: sample_collector_def record_evaluation_def ctx sample_event_of new_collector_def Let_def
        registry_add_def new_context_registry_def dict_set_def evaluation_share_def take_report_def
        queue_take_snapshot_def registry_take_snapshot_def dict_values_def queue_push_def
        new_event_queue_def deque_append_def compact_event_def compact_value_def
        config_value_max_length_def aggregate_def hash_event_def split_def)
qed


text \<open>Both values of an evaluation can be written as text.\<close>

definition renders :: "printable \<Rightarrow> evaluation_record \<Rightarrow> bool" where
  "renders pr r \<longleftrightarrow>
     \<not> isl (telemetry_value_of pr (er_default r) None (er_config_type r)) \<and>
     \<not> isl (telemetry_value_of pr (er_value r) (er_value_id r) (er_config_type r))"

lemma renders_event: "renders pr r \<Longrightarrow> \<exists>e. evaluated_config_event_of pr r i k = Inr e"
  by (cases "telemetry_value_of pr (er_default r) None (er_config_type r)";
      cases "telemetry_value_of pr (er_value r) (er_value_id r) (er_config_type r)")
    (auto simp: renders_def evaluated_config_event_of_def)

lemma record_evaluation_tally:
  fixes now cx
  assumes "renders pr r" and "tc_collecting c"
    and "queue_ok (eq_limit (tc_events c)) (tc_events c)"
  defines "d \<equiv> snd (record_evaluation pr now r cx c)"
  shows "tc_collecting d \<and> eq_limit (tc_events d) = eq_limit (tc_events c) \<and>
    queue_ok (eq_limit (tc_events d)) (tc_events d) \<and>
    length (eq_events (tc_events d)) + eq_dropped_count (tc_events d) =
      Suc (length (eq_events (tc_events c)) + eq_dropped_count (tc_events c))"
proof -
  define c1 where "c1 = (case (reported_context cx) of None \<Rightarrow> c
      | Some (k, i, x) \<Rightarrow> c\<lparr>tc_contexts := registry_add k i x (tc_contexts c)\<rparr>)"
  have c1: "tc_events c1 = tc_events c" "tc_collecting c1" using assms(2)
    by (auto simp: c1_def split: option.splits)
  obtain e where "d = c1\<lparr>tc_events := queue_push now e (tc_events c1)\<rparr>"
    using renders_event [OF assms(1), of "map_option (\<lambda>(k, i, x). i) ((reported_context cx))"
        "map_option (\<lambda>(k, i, x). k) ((reported_context cx))"] assms(2)
    by (auto simp: d_def record_evaluation_def Let_def c1_def [symmetric])
  then show ?thesis using c1 assms(3) eventq.tally_exact [OF assms(3), of "(now, e)"]
    by (simp add: queue_push_ok)
qed

lemma take_report_sum:
  "fst (take_report now c) = Inr rep \<Longrightarrow>
   sum_list (map ag_count (rep_evaluations rep)) + rep_dropped_evaluations rep =
     length (eq_events (tc_events c)) + eq_dropped_count (tc_events c)"
  by (auto simp: take_report_def queue_take_snapshot_def registry_take_snapshot_def Let_def split_def
      bindE_Inr_iff mapE_eq_Inr dest!: sum_aggregate dest: list_all2_lengthD split: sum.splits)

abbreviation record_all ::
  "printable \<Rightarrow> (datetime \<times> evaluation_record \<times> checked_context option) list \<Rightarrow>
    telemetry_collector \<Rightarrow> telemetry_collector" where
  "record_all pr recs c \<equiv> fold (\<lambda>(now, r, cx) c. snd (record_evaluation pr now r cx c)) recs c"

lemma record_all_tally:
  assumes "list_all (\<lambda>(now, r, cx). renders pr r) recs" and "tc_collecting c"
    and "queue_ok (eq_limit (tc_events c)) (tc_events c)"
  shows "length (eq_events (tc_events (record_all pr recs c))) +
      eq_dropped_count (tc_events (record_all pr recs c)) =
      length recs + (length (eq_events (tc_events c)) + eq_dropped_count (tc_events c))"
  using assms
proof (induction recs arbitrary: c)
  case (Cons rec recs)
  obtain now r cx where rec: "rec = (now, r, cx)" by (cases rec) auto
  let ?d = "snd (record_evaluation pr now r cx c)"
  have "renders pr r" using Cons.prems(1) by (simp add: rec)
  note d = record_evaluation_tally [OF this Cons.prems(2,3), of now cx]
  have "length (eq_events (tc_events (record_all pr recs ?d))) +
      eq_dropped_count (tc_events (record_all pr recs ?d)) =
      length recs + (length (eq_events (tc_events ?d)) + eq_dropped_count (tc_events ?d))"
    by (rule Cons.IH) (use d Cons.prems(1) in \<open>auto simp: rec\<close>)
  with d show ?case by (simp add: rec)
qed simp



lemma flush_off:
  "\<not> rp_send_requests (tc_reporter c) \<Longrightarrow> \<not> rp_send_requests (tc_reporter (snd (flush pool now c)))"
  using take_report_state [of now c]
  by (auto simp: flush_def report_stopped stop_collecting_def split: prod.splits sum.splits)

lemma flush_off_silent:
  "\<not> rp_send_requests (tc_reporter c) \<Longrightarrow> flush pool now c = flush pool' now c"
  using take_report_state [of now c]
  by (auto simp: flush_def report_stopped split: prod.splits sum.splits)

lemma collector_step_off:
  "collector_step pr c d \<Longrightarrow> \<not> rp_send_requests (tc_reporter c) \<Longrightarrow> \<not> rp_send_requests (tc_reporter d)"
proof (erule collector_stepE)
  fix now r cx
  assume "\<not> rp_send_requests (tc_reporter c)" "d = snd (record_evaluation pr now r cx c)"
  then show "\<not> rp_send_requests (tc_reporter d)"
    by (auto simp: record_evaluation_def Let_def split: option.splits sum.splits)
next
  fix pool now
  assume off: "\<not> rp_send_requests (tc_reporter c)" "d = snd (close_collector pool now c)"
  then show "\<not> rp_send_requests (tc_reporter d)"
    using flush_off [of "c\<lparr>tc_closed := True, tc_collecting := False, tc_stop := True\<rparr>" pool now]
    by (auto simp: close_collector_def Let_def split: prod.splits sum.splits)
qed (auto simp: record_invalid_context_def split_def Let_def flush_off)

lemma collector_run_off:
  "collector_run pr c d \<Longrightarrow> \<not> rp_send_requests (tc_reporter c) \<Longrightarrow> \<not> rp_send_requests (tc_reporter d)"
  by (induction rule: collector_run.induct) (auto dest: collector_step_off)

lemma fatal_report:
  "pool \<lparr>rq_url = rp_url r, rq_body = body, rq_headers = rp_headers r, rq_timeout = rp_timeout r\<rparr> =
     PoolResponse status (Inr bytes) \<Longrightarrow> length bytes \<le> max_response_bytes \<Longrightarrow>
   is_fatal_status (Some status) \<Longrightarrow> send_report pool body r = Inr \<lparr>rr_success = False, rr_fatal = True\<rparr>"
  by (simp add: send_report_def http_post_def read_response_text_def Let_def)

text \<open>
  Once the endpoint has answered a report with a fatal status (4xx,
  but not 429), the collector stops collecting and its buffers are empty, and in every later state,
  whatever is recorded, flushed or closed, a flush does not depend on the network any more: no
  request is ever sent again.
\<close>

theorem rejected_reporter_silent:
  assumes "collector_inv c" and "take_report now c = (Inr rep, c1)" and "\<not> report_is_empty rep"
    and "rp_send_requests (tc_reporter c)"
    and "bindE (json_dumps default_style (payload (tc_reporter c) rep)) utf8_encode = Inr body"
    and "pool \<lparr>rq_url = rp_url (tc_reporter c), rq_body = body, rq_headers = rp_headers (tc_reporter c),
           rq_timeout = rp_timeout (tc_reporter c)\<rparr> = PoolResponse status (Inr bytes)"
    and "length bytes \<le> max_response_bytes" and "is_fatal_status (Some status)"
    and "collector_run pr (snd (flush pool now c)) d"
  shows "\<not> tc_collecting d \<and> eq_events (tc_events d) = [] \<and> reg_contexts (tc_contexts d) = [] \<and>
    flush pool' later d = flush pool'' later d"
proof -
  have rp: "tc_reporter c1 = tc_reporter c" using take_report_state [of now c] assms(2) by simp
  have "report pool rep (tc_reporter c) =
      (Inr \<lparr>rr_success = False, rr_fatal = True\<rparr>, (tc_reporter c)\<lparr>rp_send_requests := False\<rparr>)"
    using assms(3-5) fatal_report [of pool "tc_reporter c" body status bytes] assms(6-8) by (simp add: report_def)
  then have "\<not> rp_send_requests (tc_reporter (snd (flush pool now c)))"
    using assms(2,3) by (simp add: flush_def rp stop_collecting_def)
  then have off: "\<not> rp_send_requests (tc_reporter d)" by (rule collector_run_off [OF assms(9)])
  have "collector_inv d"
    by (rule collector_run_inv [OF assms(9) collector_step_inv [OF collector_step.flushes assms(1)]])
  with off show ?thesis using flush_off_silent [OF off] by (simp add: collector_inv_def)
qed

definition odd_collector :: telemetry_collector where
  "odd_collector = snd (record_invalid_context midnight (py ''?'') (new_collector sample_reporter 10))"

definition odd_report :: event_report where
  "odd_report = \<lparr>rep_evaluations = [], rep_dropped_evaluations = 0, rep_contexts = [],
     rep_dropped_contexts = 0, rep_invalid_contexts = [\<lparr>ice_start_time = midnight,
       ice_end_time = midnight, ice_count = 1, ice_kind_sample = Some (py ''?'')\<rparr>]\<rparr>"

lemma odd_body:
  "\<exists>body. bindE (json_dumps default_style (payload sample_reporter odd_report)) utf8_encode = Inr body"
  by (rule json_safe_encodes)
    (simp add: payload_def sample_reporter_def odd_report_def invalid_context_to_wire_def opt_entry_def
      str_of_int_def int_max_str_digits_def nat_str.simps)

lemma odd_take_report: "\<exists>c1. take_report midnight odd_collector = (Inr odd_report, c1)"
  by (simp add: odd_collector_def odd_report_def record_invalid_context_def new_collector_def Let_def
      invalid_record_def new_invalid_contexts_def kind_sample_limit_def take_report_def
      queue_take_snapshot_def registry_take_snapshot_def new_event_queue_def new_context_registry_def
      dict_values_def dict_set_def aggregate_def invalid_take_snapshot_def)

lemma odd_collector_state:
  "tc_reporter odd_collector = sample_reporter \<and> collector_inv odd_collector"
  using record_invalid_inv [OF new_collector_inv [of sample_reporter 10]]
  by (simp add: odd_collector_def sample_reporter_def record_invalid_context_def new_collector_def Let_def
      split_def)

theorem rejected_reporter_silent_witness:
  "\<not> tc_collecting (snd (flush (\<lambda>_. PoolResponse 401 (Inr [])) midnight odd_collector))"
proof -
  obtain c1 where c1: "take_report midnight odd_collector = (Inr odd_report, c1)"
    using odd_take_report by blast
  obtain body where body: "bindE (json_dumps default_style (payload sample_reporter odd_report)) utf8_encode = Inr body"
    using odd_body by blast
  show ?thesis
    using rejected_reporter_silent [OF _ c1, of body "\<lambda>_. PoolResponse 401 (Inr [])" 401 "[]" "\<lambda>_. True"
        "snd (flush (\<lambda>_. PoolResponse 401 (Inr [])) midnight odd_collector)"] body odd_collector_state
    by (simp add: collector_run.start report_is_empty_def odd_report_def sample_reporter_def is_fatal_status_def)
qed

text \<open>
  An evaluation of a config whose type is a list, which a bundle
  can bring, ends the flush thread at its next turn, although the collector still collects: nothing
  is reported any more, and the queue is not emptied again until the client is closed.
\<close>

theorem unhashable_type_ends_flushing:
  fixes rp limit now vs n
  defines "c \<equiv> (new_collector rp limit)\<lparr>tc_events := queue_push now (sample_event (PList vs)) (new_event_queue n)\<rparr>"
  assumes "0 < n"
  shows "fst (snd (run_flushes delay interval ((pool, now) # ticks) c)) \<and>
    tc_collecting (snd (snd (run_flushes delay interval ((pool, now) # ticks) c))) \<and>
    length (fst (run_flushes delay interval ((pool, now) # ticks) c)) = 1"
proof -
  have "counter [sample_event (PList vs)] [] = Inl TypeError"
    by (rule counter_raises) (simp add: hash_event_def sample_event_def Let_def)
  moreover have "compact_event (sample_event (PList vs)) = Inr (sample_event (PList vs))"
    by (simp add: compact_event_def sample_event_def Let_def compact_value_def config_value_max_length_def)
  ultimately have "fst (take_report now c) = Inl TypeError"
    using assms(2) by (simp add: c_def take_report_def queue_take_snapshot_def registry_take_snapshot_def
        Let_def split_def queue_push_def new_event_queue_def deque_append_def aggregate_def)
  then obtain c1 where t: "take_report now c = (Inl TypeError, c1)" by (cases "take_report now c") auto
  have "tc_collecting c1" "\<not> tc_stop c"
    using take_report_state [of now c] t by (simp_all add: c_def new_collector_def Let_def)
  with t show ?thesis by (simp add: flush_def)
qed

definition no_network :: pool where
  "no_network rq = PoolRaises HTTPError"

theorem unhashable_type_ends_flushing_witness:
  "fst (snd (run_flushes (Finite 5) (Finite 30) [(no_network, midnight)]
     ((new_collector sample_reporter 100)\<lparr>tc_events :=
        queue_push midnight (sample_event (PList [])) (new_event_queue 70)\<rparr>)))"
  using unhashable_type_ends_flushing [of 70 "Finite 5" "Finite 30" no_network midnight "[]"] by simp



end
