(* ===== verification/Connections.thy ===== *)
theory Connections
  imports Http Values
begin

text \<open>
  How a client gets its config state: the plan (\<open>_connection_plan.py\<close>), the offline transport
  (\<open>_transport/offline.py\<close>) and the polling transport (\<open>_transport/polling.py\<close>). A transport
  returns the bundle that the source hands to its callback. \<open>urlparse\<close>, the reading of a file and
  the decoding of its bytes are arguments, as is the network; \<open>urljoin\<close> and \<open>uuid4\<close> are not
  modelled, so that a transport is given its URL and its session.
\<close>

section \<open>The connection plan\<close>

record connection_options =
  co_mode :: pyval
  co_polling_interval :: "pyfloat option"
  co_timeout :: pyfloat
  co_url :: "pystr option"
  co_file :: "pystr option"
  co_values :: "(pyval \<times> pyval) list option"

definition default_connection :: connection_options where
  "default_connection = \<lparr>co_mode = PStr (py ''streaming''), co_polling_interval = None,
     co_timeout = Finite 3, co_url = None, co_file = None, co_values = None\<rparr>"

datatype live_mode = Streaming | Polling

definition live_mode_name :: "live_mode \<Rightarrow> pystr" where
  "live_mode_name m = (case m of Streaming \<Rightarrow> py ''streaming'' | Polling \<Rightarrow> py ''polling'')"

datatype offline_source =
    InCodeDefaults
  | OfflineFile pystr
  | InlineValues "(pyval \<times> pyval) list"
  | RejectedSource pystr

record connect_plan =
  cp_mode :: live_mode
  cp_server_sdk_key :: pystr
  cp_base_url :: pystr

datatype connection_plan = Connect connect_plan | StayOffline offline_source

definition default_base_url :: pystr where
  "default_base_url = py ''https://server-sdk-api.configdirector.com''"

definition live_mode_of :: "pyval \<Rightarrow> live_mode result" where
  "live_mode_of mode =
     (if mode = PStr (py ''streaming'') then Inr Streaming
      else if mode = PStr (py ''polling'') then Inr Polling
      else Inl ConfigDirectorValidationError)"

definition offline_source_of :: "connection_options \<Rightarrow> offline_source" where
  "offline_source_of co =
     (case (co_file co, co_values co) of
        (Some _, Some _) \<Rightarrow>
          RejectedSource (py ''An offline connection takes either 'file' or 'values', not both.'')
      | (Some f, None) \<Rightarrow> OfflineFile f
      | (None, Some vs) \<Rightarrow> InlineValues vs
      | (None, None) \<Rightarrow> InCodeDefaults)"

text \<open>\<open>urlparse\<close> gives the scheme and the network location, or raises.\<close>

type_synonym url_parser = "pystr \<Rightarrow> (pystr \<times> pystr) result"

definition base_url_of :: "url_parser \<Rightarrow> pystr option \<Rightarrow> pystr result" where
  "base_url_of urlparse url =
     (case url of
        None \<Rightarrow> Inr default_base_url
      | Some u \<Rightarrow>
          bindE (urlparse u) (\<lambda>(scheme, netloc).
            if scheme = [] \<or> netloc = [] then Inl ConfigDirectorValidationError else Inr u))"

definition plan_connection :: "url_parser \<Rightarrow> pyval \<Rightarrow> connection_options \<Rightarrow> connection_plan result" where
  "plan_connection urlparse server_sdk_key co =
     (if co_mode co = PStr (py ''offline'') then Inr (StayOffline (offline_source_of co))
      else
        bindE (live_mode_of (co_mode co)) (\<lambda>mode.
        bindE (validated_server_sdk_key server_sdk_key) (\<lambda>key.
          if co_file co \<noteq> None \<or> co_values co \<noteq> None then
            Inr (StayOffline (RejectedSource
              (py ''The connection options 'file' and 'values' apply only when the connection mode is '' @
               [39] @ py ''offline', but the mode is '' @ [39] @ live_mode_name mode @ [39, 46])))
          else
            bindE (base_url_of urlparse (co_url co)) (\<lambda>url.
              Inr (Connect \<lparr>cp_mode = mode, cp_server_sdk_key = key, cp_base_url = url\<rparr>)))))"

section \<open>Offline\<close>

record offline_transport =
  ot_source :: offline_source
  ot_connected :: bool

text \<open>\<open>read_file\<close> gives no bytes when opening or reading raises; \<open>decode\<close> is the decoding of JSON bytes.\<close>

definition values_in_file ::
  "(pystr \<Rightarrow> nat list option) \<Rightarrow> (nat list \<Rightarrow> pystr option) \<Rightarrow> pystr \<Rightarrow> (pyval \<times> pyval) list result" where
  "values_in_file read_file decode path =
     (case read_file path of
        None \<Rightarrow> Inl ConfigDirectorInitializationError
      | Some bytes \<Rightarrow>
          (case decode bytes of
             None \<Rightarrow> Inl ConfigDirectorInitializationError
           | Some document \<Rightarrow>
               (case json_loads document of
                  Inl e \<Rightarrow> Inl (if is_value_error e then ConfigDirectorInitializationError else e)
                | Inr (PDict d) \<Rightarrow> Inr d
                | Inr _ \<Rightarrow> Inl ConfigDirectorInitializationError)))"

text \<open>The key of an entry is the key of its config, which is a string.\<close>

definition offline_config :: "printable \<Rightarrow> pyval \<times> pyval \<Rightarrow> (pystr \<times> config) result" where
  "offline_config pr kv =
     bindE (py_str pr (fst kv)) (\<lambda>key_text.
     bindE (unconditional_config (fst kv) (snd kv) (py ''offline:'' @ key_text) None) (\<lambda>cfg.
       Inr (cfg_key cfg, cfg)))"

definition unconditional_configs :: "printable \<Rightarrow> (pyval \<times> pyval) list \<Rightarrow> (pystr, config) dict result" where
  "unconditional_configs pr vs =
     (case mapE (offline_config pr) vs of
        Inl e \<Rightarrow>
          Inl (if e = ConfigDirectorTypeError \<or> e = ConfigDirectorValidationError
               then ConfigDirectorInitializationError else e)
      | Inr cs \<Rightarrow> Inr (dict_update [] cs))"

definition offline_configs ::
  "printable \<Rightarrow> (pystr \<Rightarrow> nat list option) \<Rightarrow> (nat list \<Rightarrow> pystr option) \<Rightarrow> offline_source \<Rightarrow>
    (pystr, config) dict result" where
  "offline_configs pr read_file decode source =
     (case source of
        InCodeDefaults \<Rightarrow> Inr []
      | OfflineFile path \<Rightarrow> bindE (values_in_file read_file decode path) (unconditional_configs pr)
      | InlineValues vs \<Rightarrow> unconditional_configs pr vs
      | RejectedSource message \<Rightarrow> Inl ConfigDirectorInitializationError)"

definition offline_connect ::
  "printable \<Rightarrow> (pystr \<Rightarrow> nat list option) \<Rightarrow> (nat list \<Rightarrow> pystr option) \<Rightarrow> offline_transport \<Rightarrow>
    config_bundle result \<times> offline_transport" where
  "offline_connect pr read_file decode t =
     (case offline_configs pr read_file decode (ot_source t) of
        Inl e \<Rightarrow> (Inl e, t)
      | Inr configs \<Rightarrow>
          (Inr \<lparr>cb_configs = configs, cb_segments = [], cb_kind = Full, cb_unreadable_keys = [],
                cb_environment_id = Some (py ''offline''), cb_project_id = Some (py ''offline''),
                cb_timestamp = None\<rparr>,
           t\<lparr>ot_connected := True\<rparr>))"

definition offline_close :: "offline_transport \<Rightarrow> offline_transport" where
  "offline_close t = t\<lparr>ot_connected := False\<rparr>"

section \<open>Polling\<close>

text \<open>\<open>pl_thread\<close> is whether the transport holds a thread, \<open>pl_alive\<close> whether that thread runs.\<close>

record polling =
  pl_server_sdk_key :: pystr
  pl_meta_context :: "(pystr, pystr) dict"
  pl_headers :: "(pystr, pystr) dict"
  pl_url :: pystr
  pl_session_id :: pystr
  pl_interval :: pyfloat
  pl_last_update_timestamp :: "pystr option"
  pl_fatal :: bool
  pl_stop :: bool
  pl_thread :: bool
  pl_alive :: bool

text \<open>\<open>max(polling_interval, 0.0)\<close>\<close>

definition new_polling ::
  "pystr \<Rightarrow> (pystr, pystr) dict \<Rightarrow> sdk_identity \<Rightarrow> pystr \<Rightarrow> pystr \<Rightarrow> pyfloat \<Rightarrow> polling" where
  "new_polling key meta identity url session interval =
     \<lparr>pl_server_sdk_key = key, pl_meta_context = meta, pl_headers = request_headers identity,
      pl_url = url, pl_session_id = session,
      pl_interval = (if fl_less interval (Finite 0) then Finite 0 else interval),
      pl_last_update_timestamp = None, pl_fatal = False, pl_stop = False, pl_thread = False,
      pl_alive = False\<rparr>"

definition polling_close :: "polling \<Rightarrow> polling" where
  "polling_close p = p\<lparr>pl_thread := False, pl_stop := True\<rparr>"

definition fail_fatally :: "exn \<Rightarrow> polling \<Rightarrow> 'a result \<times> polling" where
  "fail_fatally e p = (Inl e, polling_close (p\<lparr>pl_fatal := True\<rparr>))"

definition polling_body :: "polling \<Rightarrow> nat list result" where
  "polling_body p =
     json_body
       [(py ''serverSdkKey'', PStr (pl_server_sdk_key p)),
        (py ''metaContext'', PDict (map (\<lambda>(k, v). (PStr k, PStr v)) (pl_meta_context p))),
        (py ''lastUpdateTimestamp'',
           case pl_last_update_timestamp p of None \<Rightarrow> PNone | Some t \<Rightarrow> PStr t),
        (py ''sessionId'', PStr (pl_session_id p))]"

definition polling_post :: "pool \<Rightarrow> pyfloat \<Rightarrow> polling \<Rightarrow> http_response result \<times> polling" where
  "polling_post pool timeout p =
     (case polling_body p of
        Inl e \<Rightarrow> (Inl e, p)
      | Inr body \<Rightarrow>
          (case http_post pool (pl_url p) body (pl_headers p) timeout of
             Inl e \<Rightarrow>
               if e = ConfigDirectorValidationError
               then fail_fatally (ConfigDirectorConnectionError None) p else (Inl e, p)
           | Inr response \<Rightarrow> (Inr response, p)))"

definition polling_fetch ::
  "printable \<Rightarrow> pool \<Rightarrow> pyfloat \<Rightarrow> polling \<Rightarrow> config_bundle option result \<times> polling" where
  "polling_fetch pr pool timeout p =
     (if pl_fatal p then (Inr None, p)
      else
        case polling_post pool timeout p of
          (Inl e, p1) \<Rightarrow> (Inl e, p1)
        | (Inr response, p1) \<Rightarrow>
            if \<not> response_ok response then
              (if is_fatal_status (Some (rs_status response))
               then fail_fatally (fatal_status_error (Some (rs_status response))) p1
               else (Inl (ConfigDirectorConnectionError (Some (rs_status response))), p1))
            else if rs_status response \<noteq> 200 then (Inr None, p1)
            else
              (case parse_bundle pr (rs_body response) of
                 Inl e \<Rightarrow> (Inl (if is_value_error e then ConfigDirectorConnectionError None else e), p1)
               | Inr bundle \<Rightarrow>
                   (Inr (Some bundle),
                    case cb_timestamp bundle of
                      None \<Rightarrow> p1 | Some t \<Rightarrow> p1\<lparr>pl_last_update_timestamp := Some t\<rparr>)))"

definition start_polling :: "polling \<Rightarrow> polling" where
  "start_polling p =
     (if fl_less (pl_interval p) (Finite 0) \<or> pl_interval p = Finite 0 \<or> pl_thread p then p
      else p\<lparr>pl_stop := False, pl_thread := True, pl_alive := True\<rparr>)"

definition polling_connect ::
  "printable \<Rightarrow> pool \<Rightarrow> pyfloat \<Rightarrow> polling \<Rightarrow> config_bundle option result \<times> polling" where
  "polling_connect pr pool timeout p =
     (let (r, p1) = polling_fetch pr pool timeout p
      in (r, if pl_fatal p1 then p1 else start_polling p1))"

definition polling_is_connected :: "polling \<Rightarrow> bool" where
  "polling_is_connected p \<longleftrightarrow> pl_thread p \<and> pl_alive p"

text \<open>One expiry of the wait of the polling thread, and a sequence of them.\<close>

definition poll_tick :: "printable \<Rightarrow> pyfloat \<Rightarrow> pool \<Rightarrow> polling \<Rightarrow> config_bundle option \<times> polling" where
  "poll_tick pr timeout pool p =
     (if \<not> pl_alive p then (None, p)
      else if pl_stop p then (None, p\<lparr>pl_alive := False\<rparr>)
      else
        case polling_fetch pr pool timeout p of
          (Inl e, p1) \<Rightarrow>
            if \<not> is_connection_error e \<or> pl_fatal p1 then (None, p1\<lparr>pl_alive := False\<rparr>)
            else (None, p1)
        | (Inr b, p1) \<Rightarrow> (b, if pl_fatal p1 then p1\<lparr>pl_alive := False\<rparr> else p1))"

fun poll_loop ::
  "printable \<Rightarrow> pyfloat \<Rightarrow> pool list \<Rightarrow> polling \<Rightarrow> config_bundle list \<times> polling" where
  "poll_loop pr timeout [] p = ([], p)"
| "poll_loop pr timeout (pool # pools) p =
     (let (b, p1) = poll_tick pr timeout pool p; (bs, p2) = poll_loop pr timeout pools p1
      in (case b of None \<Rightarrow> bs | Some x \<Rightarrow> x # bs, p2))"

section \<open>Runs of the polling transport\<close>

inductive polling_step :: "printable \<Rightarrow> polling \<Rightarrow> polling \<Rightarrow> bool" for pr where
    connects: "polling_step pr p (snd (polling_connect pr pool timeout p))"
  | ticks: "polling_step pr p (snd (poll_tick pr timeout pool p))"
  | closes: "polling_step pr p (polling_close p)"

inductive polling_run :: "printable \<Rightarrow> polling \<Rightarrow> polling \<Rightarrow> bool" for pr where
    start: "polling_run pr p p"
  | further: "polling_run pr p q \<Longrightarrow> polling_step pr q r \<Longrightarrow> polling_run pr p r"

inductive_cases polling_stepE: "polling_step pr p q"

lemma polling_body_ok: "\<exists>body. polling_body p = Inr body"
  unfolding polling_body_def json_body_def
  by (rule json_safe_encodes) (auto simp: list_all_iff split: option.splits)

text \<open>A transport that has failed for good asks nothing, and starts no thread again.\<close>

definition failed :: "polling \<Rightarrow> bool" where
  "failed p \<longleftrightarrow> pl_fatal p \<and> \<not> pl_thread p"

lemma failed_fetch: "pl_fatal p \<Longrightarrow> polling_fetch pr pool timeout p = (Inr None, p)"
  by (simp add: polling_fetch_def)

lemma failed_connect: "pl_fatal p \<Longrightarrow> polling_connect pr pool timeout p = (Inr None, p)"
  by (simp add: polling_connect_def failed_fetch)

lemma failed_tick:
  "pl_fatal p \<Longrightarrow> fst (poll_tick pr timeout pool p) = None \<and>
    pl_fatal (snd (poll_tick pr timeout pool p)) \<and>
    pl_thread (snd (poll_tick pr timeout pool p)) = pl_thread p"
  by (simp add: poll_tick_def failed_fetch)

lemma failed_step: "polling_step pr p q \<Longrightarrow> failed p \<Longrightarrow> failed q"
  by (erule polling_stepE) (auto simp: failed_def failed_connect failed_tick polling_close_def)

lemma failed_run: "polling_run pr p q \<Longrightarrow> failed p \<Longrightarrow> failed q"
  by (induction rule: polling_run.induct) (auto intro: failed_step)

lemma failed_loop: "pl_fatal p \<Longrightarrow> fst (poll_loop pr timeout pools p) = []"
  by (induction pools arbitrary: p) (auto simp: split_def Let_def failed_tick)

lemma read_response_text_ok: "length bytes \<le> max_response_bytes \<Longrightarrow> read_response_text (Inr bytes) = Inr (utf8_decode bytes)"
  by (simp add: read_response_text_def Let_def)

text \<open>The answer of a server that refuses the request, within the size limit.\<close>

definition refuses :: "pool_answer \<Rightarrow> bool" where
  "refuses a =
     (case a of
        PoolRaises e \<Rightarrow> e = LocationValueError
      | PoolResponse status body \<Rightarrow>
          is_fatal_status (Some status) \<and>
          (case body of Inr bytes \<Rightarrow> length bytes \<le> max_response_bytes | Inl _ \<Rightarrow> False))"

lemma refused_fetch:
  assumes "refuses a" and "\<not> pl_fatal p"
  shows "\<exists>e. polling_fetch pr (\<lambda>_. a) timeout p = (Inl e, polling_close (p\<lparr>pl_fatal := True\<rparr>)) \<and> is_connection_error e"
proof -
  obtain body where body: "polling_body p = Inr body" using polling_body_ok by blast
  show ?thesis
  proof (cases a)
    case (PoolRaises e)
    with assms body show ?thesis
      by (simp add: refuses_def polling_fetch_def polling_post_def http_post_def fail_fatally_def
          is_connection_error_def)
  next
    case (PoolResponse status r)
    then obtain bytes where "r = Inr bytes" "length bytes \<le> max_response_bytes"
      and status: "is_fatal_status (Some status)" using assms(1) by (cases r) (auto simp: refuses_def)
    moreover have "\<not> (200 \<le> status \<and> status < 300)" using status by (auto simp: is_fatal_status_def)
    ultimately show ?thesis using PoolResponse assms(2) body
      by (auto simp: polling_fetch_def polling_post_def http_post_def read_response_text_ok response_ok_def
          fail_fatally_def fatal_status_error_def is_connection_error_def)
  qed
qed

section \<open>Properties\<close>

text \<open>
  C25 (refusal_ends_polling). When the server refuses a request of \<open>connect\<close> for good (a 4xx other than
  429) or the URL is unusable, \<open>connect\<close> raises a connection error and the transport is done: in every
  later state, whatever is called and whatever the network would answer, no request is made, no
  thread runs, and no bundle is delivered.
\<close>

theorem refusal_ends_polling:
  assumes "refuses a" and "\<not> pl_fatal p"
    and "polling_run pr (snd (polling_connect pr (\<lambda>_. a) timeout p)) q"
  shows "(\<exists>e. fst (polling_connect pr (\<lambda>_. a) timeout p) = Inl e \<and> is_connection_error e) \<and>
    \<not> polling_is_connected q \<and> polling_connect pr pool timeout' q = (Inr None, q) \<and>
    fst (poll_loop pr timeout' pools q) = []"
proof -
  obtain e where e: "polling_fetch pr (\<lambda>_. a) timeout p = (Inl e, polling_close (p\<lparr>pl_fatal := True\<rparr>))"
    "is_connection_error e" using refused_fetch [OF assms(1,2)] by blast
  then have c: "polling_connect pr (\<lambda>_. a) timeout p = (Inl e, polling_close (p\<lparr>pl_fatal := True\<rparr>))"
    by (simp add: polling_connect_def polling_close_def)
  then have "failed (snd (polling_connect pr (\<lambda>_. a) timeout p))"
    by (simp add: failed_def polling_close_def)
  then have "failed q" by (rule failed_run [OF assms(3)])
  moreover note c
  ultimately show ?thesis using e(2)
    by (simp add: failed_def polling_is_connected_def failed_connect failed_loop)
qed

definition sample_polling :: polling where
  "sample_polling = new_polling (py ''key'') [] \<lparr>sdk_name = py ''sdk'', sdk_version = py ''1''\<rparr>
     (py ''https://p/'') (py ''s'') (Finite 60)"

theorem refusal_ends_polling_witness:
  "polling_connect (\<lambda>_. True) (\<lambda>_. PoolRaises HTTPError) (Finite 1)
       (snd (polling_connect (\<lambda>_. True) (\<lambda>_. PoolResponse 401 (Inr [])) (Finite 3) sample_polling)) =
     (Inr None, snd (polling_connect (\<lambda>_. True) (\<lambda>_. PoolResponse 401 (Inr [])) (Finite 3) sample_polling))"
  using refusal_ends_polling [of "PoolResponse 401 (Inr [])" sample_polling "\<lambda>_. True" "Finite 3"
      "snd (polling_connect (\<lambda>_. True) (\<lambda>_. PoolResponse 401 (Inr [])) (Finite 3) sample_polling)"
      "\<lambda>_. PoolRaises HTTPError" "Finite 1"]
  by (simp add: refuses_def is_fatal_status_def sample_polling_def new_polling_def polling_run.start)

text \<open>An answer that is a failure worth retrying, or a response that can be read.\<close>

definition harmless :: "printable \<Rightarrow> pool_answer \<Rightarrow> bool" where
  "harmless pr a =
     (case a of
        PoolRaises e \<Rightarrow> is_http_error e \<and> e \<noteq> LocationValueError
      | PoolResponse status body \<Rightarrow>
          \<not> is_fatal_status (Some status) \<and>
          (case body of
             Inl _ \<Rightarrow> False
           | Inr bytes \<Rightarrow>
               (case parse_bundle pr (utf8_decode bytes) of Inl e \<Rightarrow> is_value_error e | Inr _ \<Rightarrow> True)))"

definition running :: "polling \<Rightarrow> bool" where
  "running p \<longleftrightarrow> pl_alive p \<and> \<not> pl_stop p \<and> \<not> pl_fatal p"

lemma harmless_fetch:
  assumes "harmless pr a" and "running p"
  shows "running (snd (polling_fetch pr (\<lambda>_. a) timeout p)) \<and>
    (\<forall>e. fst (polling_fetch pr (\<lambda>_. a) timeout p) = Inl e \<longrightarrow> is_connection_error e)"
proof -
  obtain body where body: "polling_body p = Inr body" using polling_body_ok by blast
  show ?thesis
  proof (cases a)
    case (PoolRaises e)
    with assms body show ?thesis
      by (auto simp: harmless_def running_def polling_fetch_def polling_post_def http_post_def
          is_connection_error_def)
  next
    case (PoolResponse status r)
    with assms(1) obtain bytes where r: "r = Inr bytes" "\<not> is_fatal_status (Some status)"
      by (cases r) (auto simp: harmless_def)
    show ?thesis
    proof (cases "length bytes \<le> max_response_bytes")
      case True
      with assms PoolResponse r body show ?thesis
        by (auto simp: harmless_def running_def polling_fetch_def polling_post_def http_post_def
            read_response_text_ok is_connection_error_def split: sum.splits option.splits)
    next
      case False
      then have "read_response_text (Inr bytes) = Inl (ConfigDirectorConnectionError None)"
        by (simp add: read_response_text_def Let_def)
      with assms PoolResponse r body show ?thesis
        by (simp add: running_def polling_fetch_def polling_post_def http_post_def is_connection_error_def)
    qed
  qed
qed

lemma harmless_tick:
  assumes "harmless pr a" and "running p"
  shows "running (snd (poll_tick pr timeout (\<lambda>_. a) p))"
  using harmless_fetch [OF assms, of timeout] assms(2)
  by (cases "polling_fetch pr (\<lambda>_. a) timeout p") (auto simp: poll_tick_def running_def split: sum.splits)

lemma harmless_loop:
  "list_all (harmless pr) as \<Longrightarrow> running p \<Longrightarrow> running (snd (poll_loop pr timeout (map (\<lambda>a _. a) as) p))"
  by (induction as arbitrary: p) (simp_all add: split_def Let_def harmless_tick)

lemma good_answer_delivered:
  assumes "running p" and "parse_bundle pr (utf8_decode bytes) = Inr b" and "length bytes \<le> max_response_bytes"
  shows "fst (poll_tick pr timeout (\<lambda>_. PoolResponse 200 (Inr bytes)) p) = Some b"
proof -
  obtain body where "polling_body p = Inr body" using polling_body_ok by blast
  with assms show ?thesis
    by (simp add: poll_tick_def running_def polling_fetch_def polling_post_def http_post_def
        read_response_text_ok response_ok_def)
qed

text \<open>
  C10 (polling_survives_failures). However many requests fail in the ways the client expects (refused
  and timed out connections, 5xx and 429, responses that are not JSON or too long), the polling thread
  keeps running, and the first good response after them is delivered.
\<close>

theorem polling_survives_failures:
  assumes "list_all (harmless pr) as" and "running p"
    and "parse_bundle pr (utf8_decode bytes) = Inr b" and "length bytes \<le> max_response_bytes"
  shows "running (snd (poll_loop pr timeout (map (\<lambda>a _. a) as) p)) \<and>
    fst (poll_tick pr timeout (\<lambda>_. PoolResponse 200 (Inr bytes))
      (snd (poll_loop pr timeout (map (\<lambda>a _. a) as) p))) = Some b"
  using harmless_loop [OF assms(1,2)] good_answer_delivered [OF _ assms(3,4)] by blast

definition empty_bundle_bytes :: "nat list" where
  "empty_bundle_bytes = [123, 34, 99, 111, 110, 102, 105, 103, 115, 34, 58, 123, 125, 125]"

lemma empty_bundle_parses: "\<exists>b. parse_bundle pr (utf8_decode empty_bundle_bytes) = Inr b"
proof -
  let ?doc = "PDict [(PStr (py ''configs''), PDict [])]"
  have "json_dumps value_style ?doc = Inr empty_bundle_bytes"
    by (simp add: json_key_def json_string_def json_escape_char_def empty_bundle_bytes_def)
  then have "json_loads empty_bundle_bytes = Inr ?doc"
    by (intro json_roundtrip) (simp_all add: dict_ok_def)
  moreover have "utf8_decode empty_bundle_bytes = empty_bundle_bytes"
    by (rule utf8_roundtrip)
      (simp_all add: is_pystr_def utf8_encode_ascii empty_bundle_bytes_def)
  ultimately show ?thesis
    by (simp add: parse_bundle_def doc_get_def pdict_get_def parse_configs_def parse_segments_def)
qed

theorem polling_survives_failures_witness:
  "running (snd (poll_loop (\<lambda>_. True) (Finite 3) (map (\<lambda>a _. a) [PoolRaises HTTPError])
     (start_polling sample_polling)))"
proof -
  obtain b where "parse_bundle (\<lambda>_. True) (utf8_decode empty_bundle_bytes) = Inr b"
    using empty_bundle_parses by blast
  then show ?thesis
    using polling_survives_failures [of "\<lambda>_. True" "[PoolRaises HTTPError]" "start_polling sample_polling"
        empty_bundle_bytes b "Finite 3"]
    by (simp add: harmless_def is_http_error_def running_def start_polling_def sample_polling_def
        new_polling_def empty_bundle_bytes_def max_response_bytes_def)
qed

text \<open>
  A failure while the body of a response is read (a read timeout, a
  connection that breaks) is not translated by the HTTP client, so it ends the polling thread for
  good although the transport has not failed fatally: no later answer is asked for.
\<close>

theorem body_failure_ends_polling:
  fixes pr timeout p e
  assumes "running p" and "e \<in> {ReadTimeoutError, ProtocolError}"
  defines "q \<equiv> snd (poll_tick pr timeout (\<lambda>_. PoolResponse 200 (Inl e)) p)"
  shows "\<not> pl_fatal q \<and> \<not> polling_is_connected q \<and> fst (poll_loop pr timeout pools q) = []"
proof -
  obtain body where "polling_body p = Inr body" using polling_body_ok by blast
  then have q: "\<not> pl_alive q" "\<not> pl_fatal q" using assms
    by (auto simp: poll_tick_def running_def polling_fetch_def polling_post_def http_post_def
        read_response_text_def is_connection_error_def)
  have "fst (poll_loop pr timeout pools r) = []" if "\<not> pl_alive r" for r
    using that by (induction pools arbitrary: r) (simp_all add: poll_tick_def)
  with q show ?thesis by (simp add: polling_is_connected_def)
qed

theorem body_failure_ends_polling_witness:
  "fst (poll_loop (\<lambda>_. True) (Finite 3) [\<lambda>_. PoolResponse 200 (Inr empty_bundle_bytes)]
     (snd (poll_tick (\<lambda>_. True) (Finite 3) (\<lambda>_. PoolResponse 200 (Inl ReadTimeoutError))
       (start_polling sample_polling)))) = []"
  using body_failure_ends_polling [where p = "start_polling sample_polling" and e = ReadTimeoutError
      and pr = "\<lambda>_. True" and timeout = "Finite 3"
      and pools = "[\<lambda>_. PoolResponse 200 (Inr empty_bundle_bytes)]"]
  by (simp add: running_def start_polling_def sample_polling_def new_polling_def)

end
