(* ===== verification/Sse_Client.thy ===== *)
theory Sse_Client
  imports Sse_Parser Connections
begin

text \<open>
  The reader of an event stream: \<open>_eventsource/client.py\<close>. The client carries the state of whoever
  supplies its handlers (\<open>es_user\<close>); a handler is a function on that state that may raise. One
  attempt of the connection loop is given by a script of what the network answers and of the moments
  at which \<open>close()\<close> takes effect in another thread or in a handler: while the request is in flight, between
  the response and its first read, before a chunk is looked at, at the end, when a failure is being
  handled, and during the wait for the next attempt.
\<close>

section \<open>State\<close>

datatype ready_state = CONNECTING | OPEN | CLOSED

record reconnection_state =
  rc_attempt :: nat
  rc_server_reconnect_delay :: pyfloat
  rc_status :: "int option"
  rc_error :: "exn option"

record stream_failure =
  fl_status :: "int option"
  fl_error :: "exn option"

record stream_request =
  sr_url :: pystr
  sr_method :: pystr
  sr_headers :: "(pystr, pystr) dict"
  sr_body :: "nat list option"
  sr_connect_timeout :: "pyfloat option"
  sr_read_timeout :: "pyfloat option"
  sr_follow_redirects :: bool

text \<open>
  The handlers; \<open>hd_body\<close> is the body of a request, which is computed for every attempt.
\<close>

record 's stream_handlers =
  hd_body :: "'s \<Rightarrow> nat list option result \<times> 's"
  hd_connect :: "('s \<Rightarrow> unit result \<times> 's) option"
  hd_disconnect :: "('s \<Rightarrow> unit result \<times> 's) option"
  hd_message :: "(event_source_message \<Rightarrow> 's \<Rightarrow> unit result \<times> 's) option"
  hd_comment :: "(pystr \<Rightarrow> 's \<Rightarrow> unit result \<times> 's) option"
  hd_error :: "(exn \<Rightarrow> 's \<Rightarrow> unit result \<times> 's) option"
  hd_should_reconnect :: "(reconnection_state \<Rightarrow> 's \<Rightarrow> bool result \<times> 's) option"
  hd_reconnect_delay :: "(reconnection_state \<Rightarrow> 's \<Rightarrow> pyval result \<times> 's) option"

record 's es_client =
  es_url :: pystr
  es_method :: pystr
  es_headers :: "(pystr, pystr) dict"
  es_last_event_id :: "pystr option"
  es_connect_timeout :: "pyfloat option"
  es_read_timeout :: "pyfloat option"
  es_follow_redirects :: bool
  es_handlers :: "'s stream_handlers"
  es_max_line_chars :: nat
  es_max_event_chars :: nat
  es_ready_state :: ready_state
  es_attempt :: nat
  es_server_delay :: pyfloat
  es_stop :: bool
  es_response :: bool
  es_user :: 's

definition default_server_delay :: pyfloat where
  "default_server_delay = Finite 2"

definition min_reconnect_delay :: pyfloat where
  "min_reconnect_delay = round_double (1 / 1000)"

definition max_reconnect_delay :: pyfloat where
  "max_reconnect_delay = Finite 3600"

definition new_es_client ::
  "pystr \<Rightarrow> pystr \<Rightarrow> (pystr, pystr) dict \<Rightarrow> pyfloat option \<Rightarrow> 's stream_handlers \<Rightarrow> 's \<Rightarrow> 's es_client" where
  "new_es_client url meth headers read_timeout h s =
     \<lparr>es_url = url, es_method = meth,
      es_headers = dict_update [(py ''Accept'', py ''text/event-stream'')] headers,
      es_last_event_id = None, es_connect_timeout = Some (Finite 10), es_read_timeout = read_timeout,
      es_follow_redirects = True, es_handlers = h, es_max_line_chars = default_max_line_chars,
      es_max_event_chars = default_max_event_chars, es_ready_state = CLOSED, es_attempt = 0,
      es_server_delay = default_server_delay, es_stop = True, es_response = False, es_user = s\<rparr>"

section \<open>Lifecycle and callbacks\<close>

definition es_connect :: "'s es_client \<Rightarrow> 's es_client" where
  "es_connect c =
     (if es_ready_state c \<noteq> CLOSED then c
      else c\<lparr>es_ready_state := CONNECTING, es_attempt := 0, es_stop := False\<rparr>)"

definition es_close :: "'s es_client \<Rightarrow> 's es_client" where
  "es_close c = c\<lparr>es_ready_state := CLOSED, es_stop := True\<rparr>"

definition land_close :: "bool \<Rightarrow> 's es_client \<Rightarrow> 's es_client" where
  "land_close b c = (if b then es_close c else c)"

definition set_state :: "ready_state \<Rightarrow> 's es_client \<Rightarrow> 's es_client" where
  "set_state s c = (if es_stop c then c else c\<lparr>es_ready_state := s\<rparr>)"

definition notify :: "('s \<Rightarrow> unit result \<times> 's) option \<Rightarrow> 's es_client \<Rightarrow> 's es_client" where
  "notify callback c =
     (case callback of None \<Rightarrow> c | Some f \<Rightarrow> c\<lparr>es_user := snd (f (es_user c))\<rparr>)"

definition ask :: "('s \<Rightarrow> 'r result \<times> 's) option \<Rightarrow> 'r \<Rightarrow> 's es_client \<Rightarrow> 'r \<times> 's es_client" where
  "ask callback default_answer c =
     (case callback of
        None \<Rightarrow> (default_answer, c)
      | Some f \<Rightarrow>
          (case f (es_user c) of
             (Inl e, s) \<Rightarrow> (default_answer, c\<lparr>es_user := s\<rparr>)
           | (Inr v, s) \<Rightarrow> (v, c\<lparr>es_user := s\<rparr>)))"

definition apply_to :: "('a \<Rightarrow> 'b \<Rightarrow> 'c) option \<Rightarrow> 'a \<Rightarrow> ('b \<Rightarrow> 'c) option" where
  "apply_to f x = map_option (\<lambda>g. g x) f"

definition disconnected :: "'s es_client \<Rightarrow> 's es_client" where
  "disconnected c =
     notify (hd_disconnect (es_handlers c)) (c\<lparr>es_ready_state := CLOSED, es_stop := True\<rparr>)"

definition as_seconds :: "pyval \<Rightarrow> pyfloat option result" where
  "as_seconds v =
     (case v of
        PInt i \<Rightarrow> bindE (float_of_int i) (\<lambda>f. Inr (Some f))
      | PFloat f \<Rightarrow> Inr (if fl_is_finite f then Some f else None)
      | _ \<Rightarrow> Inr None)"

definition in_delay_range :: "pyfloat \<Rightarrow> bool" where
  "in_delay_range d \<longleftrightarrow>
     \<not> fl_less d min_reconnect_delay \<and> \<not> fl_less max_reconnect_delay d"

definition reconnect_delay ::
  "reconnection_state \<Rightarrow> 's es_client \<Rightarrow> pyfloat result \<times> 's es_client" where
  "reconnect_delay st c =
     (let (v, c1) = ask (apply_to (hd_reconnect_delay (es_handlers c)) st) (PFloat (es_server_delay c)) c;
          fallback = (Inr (es_server_delay c1),
                      notify (apply_to (hd_error (es_handlers c1)) ValueOutOfRangeError) c1)
      in case as_seconds v of
           Inl e \<Rightarrow> (Inl e, c1)
         | Inr None \<Rightarrow> fallback
         | Inr (Some d) \<Rightarrow> if in_delay_range d then (Inr d, c1) else fallback)"

section \<open>Reading a stream\<close>

definition handle_event :: "event_source_message \<Rightarrow> 's es_client \<Rightarrow> 's es_client" where
  "handle_event m c =
     (let c1 = (case msg_id m of None \<Rightarrow> c | Some i \<Rightarrow> c\<lparr>es_last_event_id := Some i\<rparr>)
      in notify (apply_to (hd_message (es_handlers c1)) m) c1)"

definition handle_retry :: "int \<Rightarrow> 's es_client \<Rightarrow> unit result \<times> 's es_client" where
  "handle_retry milliseconds c =
     (case float_of_int milliseconds of
        Inr (Finite x) \<Rightarrow> (Inr (), c\<lparr>es_server_delay := fl_div_finite x 1000\<rparr>)
      | _ \<Rightarrow> (Inl OverflowError, c))"

fun handle_calls :: "sse_call list \<Rightarrow> 's es_client \<Rightarrow> unit result \<times> 's es_client" where
  "handle_calls [] c = (Inr (), c)"
| "handle_calls (OnEvent m # cs) c = handle_calls cs (handle_event m c)"
| "handle_calls (OnComment t # cs) c =
     handle_calls cs (notify (apply_to (hd_comment (es_handlers c)) t) c)"
| "handle_calls (OnRetry n # cs) c =
     (case handle_retry n c of (Inl e, c1) \<Rightarrow> (Inl e, c1) | (Inr _, c1) \<Rightarrow> handle_calls cs c1)"

text \<open>
  \<open>parser.feed\<close> with the handlers called as the parser reaches them: the calls a feed adds are
  handled in order, the first exception ends the stream and with it the parser.
\<close>

definition feed_handled ::
  "pystr \<Rightarrow> sse_parser \<Rightarrow> 's es_client \<Rightarrow> sse_parser result \<times> 's es_client" where
  "feed_handled t p c =
     (let step = feed t p; p' = state_after step
      in case handle_calls (drop (length (ps_calls p)) (ps_calls p')) c of
           (Inl e, c1) \<Rightarrow> (Inl e, c1)
         | (Inr _, c1) \<Rightarrow> (case step of Inl (e, _) \<Rightarrow> (Inl e, c1) | Inr q \<Rightarrow> (Inr q, c1)))"

datatype read_end = Stopped | Failed exn | Drained "nat list" sse_parser

fun read_chunks ::
  "(bool \<times> nat list) list \<Rightarrow> nat list \<Rightarrow> sse_parser \<Rightarrow> 's es_client \<Rightarrow> read_end \<times> 's es_client" where
  "read_chunks [] pending p c = (Drained pending p, c)"
| "read_chunks ((closing, chunk) # chunks) pending p c =
     (let c1 = land_close closing c
      in if es_stop c1 then (Stopped, c1)
         else
           (let (t, pending') = decode_bytes pending chunk
            in case feed_handled t p c1 of
                 (Inl e, c2) \<Rightarrow> (Failed e, c2)
               | (Inr p', c2) \<Rightarrow> read_chunks chunks pending' p' c2))"

record attempt_script =
  at_close_in_flight :: bool
  at_answer :: "stream_request \<Rightarrow> int result"
  at_close_in_gap :: bool
  at_chunks :: "(bool \<times> nat list) list"
  at_chunk_error :: "exn option"
  at_close_at_end :: bool
  at_close_on_failure :: bool
  at_close_while_waiting :: bool

definition new_stream_parser :: "'s es_client \<Rightarrow> sse_parser" where
  "new_stream_parser c = new_parser True True True (es_max_line_chars c) (es_max_event_chars c)"

definition read_stream :: "attempt_script \<Rightarrow> 's es_client \<Rightarrow> unit result \<times> 's es_client" where
  "read_stream a c =
     (case read_chunks (at_chunks a) [] (new_stream_parser c) c of
        (Stopped, c1) \<Rightarrow> (Inr (), c1)
      | (Failed e, c1) \<Rightarrow> (Inl e, c1)
      | (Drained pending p, c1) \<Rightarrow>
          (case at_chunk_error a of
             Some e \<Rightarrow> (Inl e, c1)
           | None \<Rightarrow>
               let c2 = land_close (at_close_at_end a) c1
               in if es_stop c2 then (Inr (), c2)
                  else (case feed_handled (decode_final pending) p c2 of
                          (Inl e, c3) \<Rightarrow> (Inl e, c3)
                        | (Inr _, c3) \<Rightarrow> (Inr (), c3))))"

section \<open>Attempts\<close>

definition stream_request_of :: "nat list option \<Rightarrow> 's es_client \<Rightarrow> stream_request" where
  "stream_request_of body c =
     \<lparr>sr_url = es_url c, sr_method = es_method c,
      sr_headers = (case es_last_event_id c of
                      None \<Rightarrow> es_headers c
                    | Some i \<Rightarrow> dict_set (py ''Last-Event-ID'') i (es_headers c)),
      sr_body = body, sr_connect_timeout = es_connect_timeout c,
      sr_read_timeout = es_read_timeout c, sr_follow_redirects = es_follow_redirects c\<rparr>"

definition open_stream :: "attempt_script \<Rightarrow> 's es_client \<Rightarrow> int result \<times> 's es_client" where
  "open_stream a c =
     (let (b, s) = hd_body (es_handlers c) (es_user c); c1 = c\<lparr>es_user := s\<rparr>
      in case bindE b (\<lambda>body. at_answer a (stream_request_of body c1)) of
           Inl e \<Rightarrow> (Inl e, land_close (at_close_in_flight a) c1)
         | Inr status \<Rightarrow>
             let c2 = land_close (at_close_in_flight a) c1
             in if es_stop c2 then (Inl StreamClosedError, c2) else (Inr status, c2))"

definition begin_stream :: "'s es_client \<Rightarrow> 's es_client" where
  "begin_stream c =
     (let c1 = (set_state OPEN c)\<lparr>es_attempt := 0\<rparr> in notify (hd_connect (es_handlers c1)) c1)"

text \<open>What the \<open>except\<close> clauses do: nothing after a close, otherwise report and fail.\<close>

definition failed_attempt ::
  "attempt_script \<Rightarrow> int option \<Rightarrow> exn \<Rightarrow> 's es_client \<Rightarrow> stream_failure option \<times> 's es_client" where
  "failed_attempt a status e c =
     (let c1 = land_close (at_close_on_failure a) c
      in if es_stop c1 then (None, c1)
         else (Some \<lparr>fl_status = status, fl_error = Some e\<rparr>,
               notify (apply_to (hd_error (es_handlers c1)) e) c1))"

definition release :: "'a \<times> 's es_client \<Rightarrow> 'a \<times> 's es_client" where
  "release r = (fst r, (snd r)\<lparr>es_response := False\<rparr>)"

definition connect_once :: "attempt_script \<Rightarrow> 's es_client \<Rightarrow> stream_failure option \<times> 's es_client" where
  "connect_once a c =
     (case open_stream a c of
        (Inl e, c1) \<Rightarrow> failed_attempt a None e c1
      | (Inr status, c1) \<Rightarrow>
          release
            (if status = 204 then (None, disconnected c1)
             else if 400 \<le> status then (Some \<lparr>fl_status = Some status, fl_error = None\<rparr>, c1)
             else
               (let c2 = land_close (at_close_in_gap a) (c1\<lparr>es_response := True\<rparr>)
                in if es_stop c2 then (None, c2)
                   else
                     (case read_stream a (begin_stream c2) of
                        (Inl e, c3) \<Rightarrow> failed_attempt a (Some status) e c3
                      | (Inr _, c3) \<Rightarrow>
                          if es_stop c3 then (None, c3)
                          else (Some \<lparr>fl_status = Some status, fl_error = Some StreamClosedError\<rparr>, c3)))))"

datatype run_end = Ended | Crashed exn | Unfinished

definition reconnection_of :: "stream_failure \<Rightarrow> 's es_client \<Rightarrow> reconnection_state" where
  "reconnection_of f c =
     \<lparr>rc_attempt = es_attempt c, rc_server_reconnect_delay = es_server_delay c,
      rc_status = fl_status f, rc_error = fl_error f\<rparr>"

text \<open>The connection loop over the scripts of its attempts, with the delays it waited.\<close>

fun run_loop :: "attempt_script list \<Rightarrow> 's es_client \<Rightarrow> run_end \<times> pyfloat list \<times> 's es_client" where
  "run_loop [] c = (Unfinished, [], c)"
| "run_loop (a # as) c =
     (case connect_once a c of
        (None, c1) \<Rightarrow> (Ended, [], c1)
      | (Some f, c1) \<Rightarrow>
          if es_stop c1 then (Ended, [], c1)
          else
            let c2 = c1\<lparr>es_attempt := es_attempt c1 + 1\<rparr>;
                st = reconnection_of f c2;
                (go, c3) = ask (apply_to (hd_should_reconnect (es_handlers c2)) st) True c2
            in if \<not> go then (Ended, [], disconnected c3)
               else
                 (case reconnect_delay st (set_state CONNECTING c3) of
                    (Inl e, c4) \<Rightarrow> (Crashed e, [], c4\<lparr>es_ready_state := CLOSED\<rparr>)
                  | (Inr d, c4) \<Rightarrow>
                      let c5 = land_close (at_close_while_waiting a) c4
                      in if es_stop c5 then (Ended, [d], c5)
                         else (let (r, ds, c6) = run_loop as c5 in (r, d # ds, c6))))"

section \<open>A stopped client is closed\<close>

definition es_ok :: "'s es_client \<Rightarrow> bool" where
  "es_ok c \<longleftrightarrow> (es_stop c \<longrightarrow> es_ready_state c = CLOSED)"

text \<open>What handlers leave alone.\<close>

definition same_control :: "'s es_client \<Rightarrow> 's es_client \<Rightarrow> bool" where
  "same_control c d \<longleftrightarrow> es_stop d = es_stop c \<and> es_ready_state d = es_ready_state c \<and>
     es_attempt d = es_attempt c \<and> es_handlers d = es_handlers c"

lemma same_control_trans: "same_control b c \<Longrightarrow> same_control c d \<Longrightarrow> same_control b d"
  by (simp add: same_control_def)

lemma same_control_refl [simp]: "same_control c c"
  by (simp add: same_control_def)

lemma same_control_notify [simp]: "same_control c (notify f c)"
  by (simp add: same_control_def notify_def split: option.splits)

lemma same_control_ask: "ask f d c = (v, c') \<Longrightarrow> same_control c c'"
  by (auto simp: ask_def same_control_def split: option.splits prod.splits sum.splits)

lemma same_control_event [simp]: "same_control c (handle_event m c)"
  unfolding handle_event_def Let_def
  by (rule same_control_trans [OF _ same_control_notify]) (simp add: same_control_def split: option.splits)

lemma same_control_retry: "same_control c (snd (handle_retry n c))"
  by (simp add: handle_retry_def same_control_def split: sum.splits pyfloat.splits)

lemma same_control_calls: "same_control c (snd (handle_calls cs c))"
proof (induction cs c rule: handle_calls.induct)
  case (2 m cs c)
  then show ?case using same_control_trans [OF same_control_event] by simp
next
  case (3 t cs c)
  then show ?case using same_control_trans [OF same_control_notify] by simp
next
  case (4 n cs c)
  obtain r c1 where r: "handle_retry n c = (r, c1)" by fastforce
  then have "same_control c c1" using same_control_retry [of c n] by simp
  with 4 [OF r [symmetric]] r show ?case by (cases r) (auto intro: same_control_trans)
qed simp

lemma same_control_feed: "same_control c (snd (feed_handled t p c))"
  using same_control_calls [of c "drop (length (ps_calls p)) (ps_calls (state_after (feed t p)))"]
  by (auto simp: feed_handled_def Let_def split: prod.splits sum.splits)

lemma same_control_ok: "same_control c d \<Longrightarrow> es_ok c \<Longrightarrow> es_ok d"
  by (simp add: same_control_def es_ok_def)

lemma land_close_ok [simp]: "es_ok c \<Longrightarrow> es_ok (land_close b c)"
  by (simp add: land_close_def es_close_def es_ok_def)

lemma land_close_handlers [simp]: "es_handlers (land_close b c) = es_handlers c"
  by (simp add: land_close_def es_close_def)

lemma same_control_closed:
  "same_control (land_close b c) d \<Longrightarrow> es_ok c \<Longrightarrow> es_ok d \<and> es_handlers d = es_handlers c"
  using same_control_ok [OF _ land_close_ok] by (auto simp: same_control_def)

lemma read_chunks_ok:
  "es_ok c \<Longrightarrow> es_ok (snd (read_chunks chunks pending p c)) \<and>
   es_handlers (snd (read_chunks chunks pending p c)) = es_handlers c"
proof (induction chunks pending p c rule: read_chunks.induct)
  case (2 closing chunk chunks pending p c)
  let ?c1 = "land_close closing c"
  show ?case
  proof (cases "es_stop ?c1")
    case True
    with 2(2) show ?thesis by simp
  next
    case False
    obtain t pending' where d: "decode_bytes pending chunk = (t, pending')" by fastforce
    obtain r c2 where f: "feed_handled t p ?c1 = (r, c2)" by fastforce
    then have sc: "same_control ?c1 c2" using same_control_feed [of ?c1 t p] by simp
    then have ok: "es_ok c2" "es_handlers c2 = es_handlers c"
      using same_control_closed [OF sc 2(2)] by auto
    show ?thesis
    proof (cases r)
      case (Inr p')
      from 2(1) [OF HOL.refl False d [symmetric] HOL.refl f [unfolded Inr, symmetric] HOL.refl ok(1)] ok show ?thesis
        using False by (simp add: Let_def d f Inr)
    qed (use False ok in \<open>simp add: Let_def d f\<close>)
  qed
qed simp

lemma read_stream_ok:
  assumes "es_ok c"
  shows "es_ok (snd (read_stream a c)) \<and> es_handlers (snd (read_stream a c)) = es_handlers c"
proof -
  obtain r c1 where r: "read_chunks (at_chunks a) [] (new_stream_parser c) c = (r, c1)" by fastforce
  have c1: "es_ok c1" "es_handlers c1 = es_handlers c"
    using read_chunks_ok [OF assms, of "at_chunks a" "[]" "new_stream_parser c"] r by simp_all
  show ?thesis
  proof (cases r)
    case (Drained pending p)
    let ?c2 = "land_close (at_close_at_end a) c1"
    have "same_control ?c2 (snd (feed_handled (decode_final pending) p ?c2))" by (rule same_control_feed)
    then have "es_ok (snd (feed_handled (decode_final pending) p ?c2)) \<and>
        es_handlers (snd (feed_handled (decode_final pending) p ?c2)) = es_handlers c"
      using same_control_closed [OF _ c1(1)] c1(2) by metis
    with Drained r c1 show ?thesis
      by (auto simp: read_stream_def Let_def split: option.splits prod.splits sum.splits)
  qed (use r c1 in \<open>simp_all add: read_stream_def\<close>)
qed

lemma open_stream_ok:
  "es_ok c \<Longrightarrow> es_ok (snd (open_stream a c)) \<and> es_handlers (snd (open_stream a c)) = es_handlers c"
  by (auto simp: open_stream_def Let_def split_def es_ok_def land_close_def es_close_def split: sum.splits)

lemma failed_attempt_ok:
  assumes "es_ok c"
  shows "es_ok (snd (failed_attempt a st e c)) \<and> es_handlers (snd (failed_attempt a st e c)) = es_handlers c \<and>
    (fst (failed_attempt a st e c) = None \<longrightarrow> es_stop (snd (failed_attempt a st e c)))"
proof -
  have "same_control (land_close (at_close_on_failure a) c)
      (notify (apply_to (hd_error (es_handlers c)) e) (land_close (at_close_on_failure a) c))" by simp
  with assms show ?thesis
    by (auto simp: failed_attempt_def Let_def same_control_def es_ok_def land_close_def es_close_def)
qed

lemma disconnected_ok [simp]:
  "es_ok (disconnected c)" "es_handlers (disconnected c) = es_handlers c" "es_stop (disconnected c)"
  "es_ready_state (disconnected c) = CLOSED"
  by (auto simp: disconnected_def es_ok_def notify_def split: option.splits)

lemma begin_stream_ok: "es_ok c \<Longrightarrow> es_ok (begin_stream c) \<and> es_handlers (begin_stream c) = es_handlers c"
  by (auto simp: begin_stream_def Let_def es_ok_def set_state_def notify_def split: option.splits)

lemma release_simps [simp]:
  "fst (release r) = fst r" "es_ok (snd (release r)) = es_ok (snd r)"
  "es_stop (snd (release r)) = es_stop (snd r)" "es_handlers (snd (release r)) = es_handlers (snd r)"
  by (simp_all add: release_def es_ok_def)

lemma connect_once_ok:
  assumes "es_ok c"
  shows "es_ok (snd (connect_once a c)) \<and> es_handlers (snd (connect_once a c)) = es_handlers c \<and>
    (fst (connect_once a c) = None \<longrightarrow> es_stop (snd (connect_once a c)))"
proof -
  obtain r c1 where r: "open_stream a c = (r, c1)" by fastforce
  have c1: "es_ok c1" "es_handlers c1 = es_handlers c" using open_stream_ok [OF assms, of a] r by simp_all
  show ?thesis
  proof (cases r)
    case (Inl e)
    with r c1 failed_attempt_ok [OF c1(1), of a None e] show ?thesis by (simp add: connect_once_def)
  next
    case (Inr status)
    define c2 where "c2 = land_close (at_close_in_gap a) (c1\<lparr>es_response := True\<rparr>)"
    have c2: "es_ok c2" "es_handlers c2 = es_handlers c"
      using c1 by (auto simp: c2_def es_ok_def land_close_def es_close_def)
    obtain q c3 where q: "read_stream a (begin_stream c2) = (q, c3)" by fastforce
    have c3: "es_ok c3" "es_handlers c3 = es_handlers c"
      using read_stream_ok [of "begin_stream c2" a] begin_stream_ok [OF c2(1)] c2(2) q by simp_all
    show ?thesis
      using r Inr c1 c2 q c3 failed_attempt_ok [OF c3(1), of a "Some status"]
      by (auto simp: connect_once_def c2_def [symmetric] Let_def split: sum.splits)
  qed
qed

lemma set_state_ok [simp]: "es_ok c \<Longrightarrow> es_ok (set_state s c)" "es_handlers (set_state s c) = es_handlers c"
  "es_attempt (set_state s c) = es_attempt c"
  by (simp_all add: set_state_def es_ok_def)

lemma same_control_delay: "same_control c (snd (reconnect_delay st c))"
proof -
  obtain v c1 where "ask (apply_to (hd_reconnect_delay (es_handlers c)) st) (PFloat (es_server_delay c)) c = (v, c1)"
    by fastforce
  moreover from same_control_ask [OF this] have "same_control c c1"
    "same_control c (notify (apply_to (hd_error (es_handlers c1)) ValueOutOfRangeError) c1)"
    using same_control_trans [OF _ same_control_notify] by auto
  ultimately show ?thesis by (auto simp: reconnect_delay_def Let_def split: sum.splits option.splits)
qed

lemma run_loop_ok:
  "es_ok c \<Longrightarrow> run_loop as c = (r, ds, c') \<Longrightarrow> r \<noteq> Unfinished \<Longrightarrow> es_ready_state c' = CLOSED"
proof (induction as arbitrary: c ds)
  case (Cons a as)
  obtain f c1 where f: "connect_once a c = (f, c1)" by fastforce
  have c1: "es_ok c1" "f = None \<Longrightarrow> es_stop c1" using connect_once_ok [OF Cons.prems(1), of a] f by auto
  show ?case
  proof (cases "f = None \<or> es_stop c1")
    case True
    with f c1 Cons.prems(2) show ?thesis by (auto simp: es_ok_def split: option.splits)
  next
    case False
    then obtain x where x: "f = Some x" "\<not> es_stop c1" by auto
    define c2 where "c2 = c1\<lparr>es_attempt := es_attempt c1 + 1\<rparr>"
    define st where "st = reconnection_of x c2"
    obtain go c3 where go: "ask (apply_to (hd_should_reconnect (es_handlers c2)) st) True c2 = (go, c3)" by fastforce
    have c3: "es_ok c3" using same_control_ask [OF go] c1(1) x
      by (auto simp: c2_def es_ok_def same_control_def)
    obtain d c4 where d: "reconnect_delay st (set_state CONNECTING c3) = (d, c4)" by fastforce
    have c4: "es_ok c4" using same_control_delay [of "set_state CONNECTING c3" st] c3 d same_control_ok by force
    define c5 where "c5 = land_close (at_close_while_waiting a) c4"
    have c5: "es_ok c5" using c4 by (simp add: c5_def)
    note unfolded = Cons.prems(2) [simplified f x option.case Let_def c2_def [symmetric] st_def [symmetric]
        go d run_loop.simps prod.case if_False c5_def [symmetric]]
    show ?thesis
      using unfolded Cons.IH [OF c5] c5 Cons.prems(3) x
      by (auto simp: es_ok_def f c5_def split: sum.splits if_splits prod.splits)
  qed
qed simp

lemma run_loop_append:
  "run_loop (as @ bs) c =
     (case run_loop as c of
        (Unfinished, ds, c1) \<Rightarrow> (let (r, ds', c2) = run_loop bs c1 in (r, ds @ ds', c2))
      | ended \<Rightarrow> ended)"
proof (induction as arbitrary: c)
  case (Cons a as)
  show ?case
    by (simp add: Cons Let_def split_def split: option.split prod.split sum.split run_end.split)
qed (simp add: split_def)

section \<open>The chunks of a stream are invisible\<close>

interpretation utf8_stream: chunked
  "\<lambda>(t, pending) bs. let (u, pending') = decode_bytes pending bs in (t @ u, pending')"
  by unfold_locales (auto simp: decode_bytes_append Let_def split: prod.splits)

fun decode_chunks :: "nat list \<Rightarrow> nat list list \<Rightarrow> pystr list \<times> nat list" where
  "decode_chunks pending [] = ([], pending)"
| "decode_chunks pending (b # bs) =
     (let (t, p) = decode_bytes pending b; (ts, q) = decode_chunks p bs in (t # ts, q))"

lemma decode_chunks_fold:
  "fold (\<lambda>bs (t, pending). let (u, pending') = decode_bytes pending bs in (t @ u, pending')) bss (t, pending) =
     (t @ concat (fst (decode_chunks pending bss)), snd (decode_chunks pending bss))"
  by (induction bss arbitrary: t pending) (auto simp: Let_def split: prod.splits)

lemma decode_chunks_concat:
  "decode_bytes pending (concat bss) =
     (concat (fst (decode_chunks pending bss)), snd (decode_chunks pending bss))"
  using utf8_stream.absorb_concat [of bss "([], pending)"] decode_chunks_fold [of bss "[]" pending]
  by (simp add: Let_def split_def case_prod_unfold)

lemma read_char_calls: "\<exists>x. rd_calls (read_char h ch r) = rd_calls r @ x"
  by (auto simp: read_char_def read_line_def Let_def read_blank_def read_field_def)

lemma read_text_calls: "\<exists>x. rd_calls (read_text h r t) = rd_calls r @ x"
proof (induction t arbitrary: r)
  case (Cons ch t)
  obtain x y where "rd_calls (read_char h ch r) = rd_calls r @ x"
    "rd_calls (read_text h (read_char h ch r) t) = rd_calls (read_char h ch r) @ y"
    using read_char_calls Cons by metis
  then show ?case by (simp add: read_text_def)
qed (simp add: read_text_def)

lemma reader_calls [simp]: "rd_calls (reader_of p) = ps_calls p"
  by (simp add: reader_of_def)

definition fresh_ok :: "sse_parser \<Rightarrow> bool" where
  "fresh_ok p \<longleftrightarrow> (first_chunk p \<longrightarrow> \<not> pending_lf p)"

lemma feed_calls:
  assumes "feed t p = Inr q" and "fresh_ok p"
  shows "(\<exists>x. ps_calls q = ps_calls p @ x) \<and> fresh_ok q"
proof (cases "first_chunk p")
  case True
  then have "feed (strip_bom t) (p\<lparr>first_chunk := False\<rparr>) = Inr q"
    using assms feed_first [of p t] by (simp add: fresh_ok_def)
  from feed_refines [OF this] show ?thesis
    using read_text_calls [of "handlers_of (p\<lparr>first_chunk := False\<rparr>)"
        "reader_of (p\<lparr>first_chunk := False\<rparr>)" "strip_bom t"]
    by (metis fresh_ok_def reader_calls sse_parser.select_convs(14) sse_parser.simps(6)
        sse_parser.surjective sse_parser.update_convs(6))
next
  case False
  from feed_refines [OF assms(1) this] show ?thesis
    using read_text_calls [of "handlers_of p" "reader_of p" t] by (metis fresh_ok_def reader_calls)
qed

lemma handle_calls_append:
  "handle_calls (xs @ ys) c =
     (case handle_calls xs c of (Inl e, c1) \<Rightarrow> (Inl e, c1) | (Inr _, c1) \<Rightarrow> handle_calls ys c1)"
  by (induction xs c rule: handle_calls.induct) (auto split: prod.splits sum.splits)

lemma feed_handled_Inr:
  assumes "feed_handled t p c = (Inr q, c')" and "fresh_ok p"
  shows "feed t p = Inr q \<and> fresh_ok q \<and>
    (\<exists>new. ps_calls q = ps_calls p @ new \<and> handle_calls new c = (Inr (), c'))"
proof -
  have f: "feed t p = Inr q" using assms(1)
    by (auto simp: feed_handled_def Let_def split: prod.splits sum.splits)
  then obtain new where "ps_calls q = ps_calls p @ new" "fresh_ok q" using feed_calls [OF f assms(2)] by auto
  with f assms(1) show ?thesis by (auto simp: feed_handled_def Let_def split: prod.splits sum.splits)
qed

lemma read_chunks_drained:
  assumes "read_chunks (map (Pair False) bss) pending p c = (Drained pending' p', c')"
    and "fresh_ok p"
  shows "feed_all (fst (decode_chunks pending bss)) p = Inr p' \<and> fresh_ok p' \<and>
    pending' = snd (decode_chunks pending bss) \<and>
    (\<exists>new. ps_calls p' = ps_calls p @ new \<and> handle_calls new c = (Inr (), c'))"
  using assms
proof (induction bss arbitrary: pending p c)
  case (Cons b bss)
  have run: "\<not> es_stop c" using Cons.prems(1) by (auto simp: land_close_def split: if_splits)
  obtain t pend where d: "decode_bytes pending b = (t, pend)" by fastforce
  with Cons.prems(1) run obtain q c1 where f: "feed_handled t p c = (Inr q, c1)"
    and r: "read_chunks (map (Pair False) bss) pend q c1 = (Drained pending' p', c')"
    by (auto simp: land_close_def Let_def split: prod.splits sum.splits)
  obtain new where q: "feed t p = Inr q" "fresh_ok q" "ps_calls q = ps_calls p @ new"
    "handle_calls new c = (Inr (), c1)" using feed_handled_Inr [OF f Cons.prems(2)] by auto
  from Cons.IH [OF r q(2)] obtain new' where "ps_calls p' = ps_calls q @ new'"
    "handle_calls new' c1 = (Inr (), c')" by auto
  then have "ps_calls p' = ps_calls p @ new @ new' \<and> handle_calls (new @ new') c = (Inr (), c')"
    using q by (simp add: handle_calls_append)
  with Cons.IH [OF r q(2)] q(1) d show ?case by (auto simp: Let_def split: prod.splits)
qed simp

text \<open>An attempt that is answered with a status and the bytes of a stream, undisturbed.\<close>

definition delivery :: "int \<Rightarrow> nat list list \<Rightarrow> attempt_script" where
  "delivery status bss =
     \<lparr>at_close_in_flight = False, at_answer = (\<lambda>_. Inr status), at_close_in_gap = False,
      at_chunks = map (Pair False) bss, at_chunk_error = None, at_close_at_end = False,
      at_close_on_failure = False, at_close_while_waiting = False\<rparr>"

lemma feed_all_append:
  "feed_all (xs @ ys) p = (case feed_all xs p of Inl e \<Rightarrow> Inl e | Inr q \<Rightarrow> feed_all ys q)"
  by (induction xs arbitrary: p) (auto split: sum.splits)

lemma new_stream_parser_fresh [simp]: "fresh_ok (new_stream_parser c)" "ps_calls (new_stream_parser c) = []"
  by (simp_all add: fresh_ok_def new_stream_parser_def new_parser_def)

lemma delivered_calls:
  assumes "read_stream (delivery status bss) c = (Inr (), c')" and "\<not> es_stop c"
  shows "\<exists>p. feed_all (fst (decode_chunks [] bss) @ [decode_final (snd (decode_chunks [] bss))])
      (new_stream_parser c) = Inr p \<and> handle_calls (ps_calls p) c = (Inr (), c')"
proof -
  let ?p0 = "new_stream_parser c"
  obtain r c1 where r: "read_chunks (map (Pair False) bss) [] ?p0 c = (r, c1)" by fastforce
  have never: "r \<noteq> Stopped"
  proof -
    have "fst (read_chunks (map (Pair False) bss) pending p d) \<noteq> Stopped" if "\<not> es_stop d" for pending p and d :: "'a es_client"
      using that
    proof (induction bss arbitrary: pending p d)
      case (Cons b bss)
      obtain t pend where d: "decode_bytes pending b = (t, pend)" by fastforce
      obtain q d1 where f: "feed_handled t p d = (q, d1)" by fastforce
      have "\<not> es_stop d1" using same_control_feed [of d t p] f Cons.prems by (simp add: same_control_def)
      with Cons f d show ?case by (cases q) (auto simp: land_close_def Let_def)
    qed simp
    from this [OF assms(2)] r show ?thesis by (metis fst_conv)
  qed
  with assms(1) r obtain pend p1 where dr: "r = Drained pend p1"
    by (cases r) (auto simp: read_stream_def delivery_def)
  note fed = read_chunks_drained [OF r [unfolded dr], simplified]
  have "\<not> es_stop c1"
  proof -
    obtain new where "handle_calls new c = (Inr (), c1)" using fed by auto
    with same_control_calls [of c new] assms(2) show ?thesis by (simp add: same_control_def)
  qed
  with assms(1) r dr obtain p where f: "feed_handled (decode_final pend) p1 c1 = (Inr p, c')"
    by (auto simp: read_stream_def delivery_def land_close_def split: prod.splits sum.splits)
  obtain new where new: "feed (decode_final pend) p1 = Inr p" "ps_calls p = ps_calls p1 @ new"
    "handle_calls new c1 = (Inr (), c')" using feed_handled_Inr [OF f] fed by auto
  have "handle_calls (ps_calls p1 @ new) c = (Inr (), c')"
    using fed new(3) by (simp add: handle_calls_append)
  with fed new(1,2) show ?thesis by (simp add: feed_all_append)
qed

lemma stream_calls:
  assumes "feed_all (t # ts) (new_stream_parser c) = Inr p" and "3 \<le> length t"
  shows "ps_calls p = rd_calls (read_text \<lparr>on_event = True, on_retry = True, on_comment = True\<rparr>
    (reader_of (new_stream_parser c)) (strip_bom (concat (t # ts))))"
proof -
  let ?p = "(new_stream_parser c)\<lparr>first_chunk := False\<rparr>"
  have "feed t (new_stream_parser c) = feed (strip_bom t) ?p"
    by (rule feed_first) (simp_all add: new_stream_parser_def new_parser_def)
  then have "feed_all (strip_bom t # ts) ?p = Inr p" using assms(1) by simp
  from feed_all_refines [OF this] have "rd_calls (reader_of p) =
      rd_calls (read_text (handlers_of ?p) (reader_of ?p) (concat (strip_bom t # ts)))" by simp
  then show ?thesis using strip_bom_append [OF assms(2)]
    by (simp add: reader_of_def handlers_of_def new_stream_parser_def new_parser_def)
qed

section \<open>Streams that are read to their end\<close>

lemma feed_all_calls:
  assumes "feed_all ts p = Inr q" and "fresh_ok p"
  shows "\<exists>x. ps_calls q = ps_calls p @ x"
  using assms
proof (induction ts arbitrary: p)
  case (Cons t ts)
  then obtain r where r: "feed t p = Inr r" "feed_all ts r = Inr q" by (auto split: sum.splits)
  from feed_calls [OF r(1) Cons.prems(2)] Cons.IH [OF r(2)] show ?case by fastforce
qed simp

lemma feed_handled_ok:
  assumes "feed t p = Inr q" and "ps_calls q = ps_calls p @ new" and "handle_calls new c = (Inr (), c')"
  shows "feed_handled t p c = (Inr q, c')"
  using assms by (simp add: feed_handled_def)

lemma handle_calls_split:
  assumes "handle_calls (xs @ ys) c = (Inr (), c')"
  obtains c1 where "handle_calls xs c = (Inr (), c1)" and "handle_calls ys c1 = (Inr (), c')"
  using assms by (auto simp: handle_calls_append split: prod.splits sum.splits)

lemma read_chunks_total:
  assumes "feed_all (fst (decode_chunks pending bss)) p = Inr p'" and "fresh_ok p" and "\<not> es_stop c"
    and "ps_calls p' = ps_calls p @ new" and "handle_calls new c = (Inr (), c')"
  shows "read_chunks (map (Pair False) bss) pending p c = (Drained (snd (decode_chunks pending bss)) p', c')"
  using assms
proof (induction bss arbitrary: pending p c new)
  case (Cons b bss)
  obtain t pend where d: "decode_bytes pending b = (t, pend)" by fastforce
  from Cons.prems(1) d obtain q where q: "feed t p = Inr q" "feed_all (fst (decode_chunks pend bss)) q = Inr p'"
    by (auto simp: Let_def split_def split: sum.splits)
  obtain x where x: "ps_calls q = ps_calls p @ x" "fresh_ok q" using feed_calls [OF q(1) Cons.prems(2)] by auto
  obtain y where y: "ps_calls p' = ps_calls q @ y" using feed_all_calls [OF q(2) x(2)] by blast
  have "handle_calls (x @ y) c = (Inr (), c')" using Cons.prems(4,5) x(1) y by simp
  then obtain c1 where c1: "handle_calls x c = (Inr (), c1)" "handle_calls y c1 = (Inr (), c')"
    by (rule handle_calls_split)
  have "\<not> es_stop c1" using same_control_calls [of c x] c1(1) Cons.prems(3) by (simp add: same_control_def)
  from Cons.IH [OF q(2) x(2) this y c1(2)] feed_handled_ok [OF q(1) x(1) c1(1)] Cons.prems(3) d
  show ?case by (simp add: land_close_def Let_def split_def)
qed simp

lemma delivery_read:
  assumes "feed_all (fst (decode_chunks [] bss) @ [decode_final (snd (decode_chunks [] bss))])
      (new_stream_parser c) = Inr p"
    and "handle_calls (ps_calls p) c = (Inr (), c')" and "\<not> es_stop c"
  shows "read_stream (delivery status bss) c = (Inr (), c')"
proof -
  let ?p0 = "new_stream_parser c" and ?last = "decode_final (snd (decode_chunks [] bss))"
  obtain q where q: "feed_all (fst (decode_chunks [] bss)) ?p0 = Inr q" "feed ?last q = Inr p"
    using assms(1) by (auto simp: feed_all_append split: sum.splits)
  obtain x where x: "ps_calls q = ps_calls ?p0 @ x" using feed_all_calls [OF q(1)] by auto
  have "feed_all (fst (decode_chunks [] bss)) ?p0 = Inr q \<Longrightarrow> fresh_ok q"
  proof -
    have "fresh_ok r" if "feed_all ts s = Inr r" "fresh_ok s" for ts s r
      using that by (induction ts arbitrary: s) (auto split: sum.splits dest: feed_calls)
    then show ?thesis using q(1) by simp
  qed
  then have "fresh_ok q" using q(1) .
  then obtain y where y: "ps_calls p = ps_calls q @ y" using feed_calls [OF q(2)] by auto
  have "handle_calls (x @ y) c = (Inr (), c')" using assms(2) x y by simp
  then obtain c1 where c1: "handle_calls x c = (Inr (), c1)" "handle_calls y c1 = (Inr (), c')"
    by (rule handle_calls_split)
  have run: "\<not> es_stop c1" using same_control_calls [of c x] c1(1) assms(3) by (simp add: same_control_def)
  have "read_chunks (map (Pair False) bss) [] ?p0 c = (Drained (snd (decode_chunks [] bss)) q, c1)"
    by (rule read_chunks_total [OF q(1) _ assms(3) x c1(1)]) simp
  with feed_handled_ok [OF q(2) y c1(2)] run show ?thesis
    by (simp add: read_stream_def delivery_def land_close_def)
qed

lemma sse_encode_head: "\<exists>s. sse_encode t ls = 101 # s"
  by (simp add: sse_encode_def sse_line_def)

lemma encoded_event_delivered:
  assumes "utf8_encode (sse_encode t ls) = Inr (concat bss)" and "is_pystr (sse_encode t ls)"
    and "list_all one_line ls" and "one_line t" and "str_join [10] ls \<noteq> []"
    and "length (sse_encode t ls) \<le> es_max_line_chars c" and "length (sse_encode t ls) \<le> es_max_event_chars c"
    and "\<not> es_stop c"
  shows "read_stream (delivery status bss) c =
    (Inr (), handle_event \<lparr>msg_data = str_join [10] ls, msg_type = Some t, msg_id = None\<rparr> c)"
proof -
  let ?p = "(new_stream_parser c)\<lparr>first_chunk := False\<rparr>"
  let ?cs = "fst (decode_chunks [] bss) @ [decode_final (snd (decode_chunks [] bss))]"
  have "concat (fst (decode_chunks [] bss)) = sse_encode t ls" "snd (decode_chunks [] bss) = []"
    using decode_chunks_concat [of "[]" bss] decode_utf8_encode [OF assms(2,1)] by simp_all
  then have content: "concat ?cs = sse_encode t ls" by (simp add: decode_final_def)
  obtain s where "concat ?cs = 101 # s" using sse_encode_head content by metis
  then have bom: "feed_all ?cs (new_stream_parser c) = feed_all ?cs ?p" by (rule feed_all_no_bom) simp_all
  have "roomy (length (concat ?cs)) ?p"
    using assms(6,7) unfolding content by (simp add: roomy_def new_stream_parser_def new_parser_def)
  moreover have "safe_text (concat (line_parts ?p)) (concat ?cs)"
    using safe_text_encoded [OF assms(3,4)] unfolding content by (simp add: new_stream_parser_def new_parser_def)
  ultimately obtain q where q: "feed_all ?cs ?p = Inr q" using feed_all_safe [of ?cs ?p] by auto
  have "ps_calls q = ps_calls ?p @
      [OnEvent \<lparr>msg_data = str_join [10] ls, msg_type = Some t, msg_id = sse_parser.last_event_id ?p\<rparr>]"
    by (rule encoded_calls [OF q content assms(3,5,4)]) (simp_all add: new_stream_parser_def new_parser_def)
  then have "ps_calls q = [OnEvent \<lparr>msg_data = str_join [10] ls, msg_type = Some t, msg_id = None\<rparr>]"
    by (simp add: new_stream_parser_def new_parser_def)
  then show ?thesis using delivery_read [of bss c q] q bom assms(8) by simp
qed

section \<open>Properties\<close>


definition quiet_handlers :: "unit stream_handlers" where
  "quiet_handlers = \<lparr>hd_body = (\<lambda>s. (Inr None, s)), hd_connect = None, hd_disconnect = None,
     hd_message = None, hd_comment = None, hd_error = None, hd_should_reconnect = None,
     hd_reconnect_delay = None\<rparr>"

definition quiet_client :: "unit es_client" where
  "quiet_client = es_connect (new_es_client [] [] [] None quiet_handlers ())"

lemma quiet_delivery:
  "fst (read_stream (delivery 200 [[105, 100, 58, 55, 10]]) quiet_client) = Inr ()"
  "fst (read_stream (delivery 200 [[105, 100, 58], [55, 10]]) quiet_client) = Inr ()"
  by (simp_all add: read_stream_def delivery_def quiet_client_def es_connect_def new_es_client_def
      land_close_def decode_byte_def decode_start_def decode_final_def feed_handled_def
      new_stream_parser_def new_parser_def feed_def strip_bom_def str_startswith_def buffer_line_def
      default_max_line_chars_def finish_line_def dispatch_line_def apply_field_def field_value_def)


text \<open>
  When the connection loop ends, by a close at any moment, by a 204, by a
  handler that does not want to reconnect or by an exception, the client is closed: it never claims
  to be open or connecting without a reader.
\<close>

theorem finished_loop_closed:
  assumes "run_loop scripts (es_connect (new_es_client url meth headers timeout h s)) = (r, delays, c)"
    and "r \<noteq> Unfinished"
  shows "es_ready_state c = CLOSED"
  using run_loop_ok [OF _ assms] by (simp add: es_ok_def es_connect_def new_es_client_def)

theorem finished_loop_closed_witness:
  "es_ready_state (snd (snd (run_loop [delivery 204 []] quiet_client))) = CLOSED"
proof -
  have "fst (run_loop [delivery 204 []] quiet_client) = Ended"
    by (simp add: quiet_client_def es_connect_def new_es_client_def connect_once_def open_stream_def
        delivery_def quiet_handlers_def land_close_def release_def)
  then show ?thesis
    using finished_loop_closed [of "[delivery 204 []]" "[]" "[]" "[]" None quiet_handlers "()"]
    by (cases "run_loop [delivery 204 []] quiet_client") (auto simp: quiet_client_def)
qed

end
