(* ===== verification/Sse_Transport.thy ===== *)
theory Sse_Transport
  imports Sse_Client
begin

text \<open>
  The network side of an event stream: \<open>_eventsource/transport.py\<close>. What \<open>urllib3\<close> answers is data: the
  successive results of \<open>read1\<close>, bytes or an exception. \<open>cancel\<close> and \<open>close\<close> act on sockets only; a
  close of the client is part of the scripts of \<open>Sse_Client\<close>.
\<close>

text \<open>The arguments of \<open>PoolManager.request\<close>, with the limits of its \<open>Retry\<close>.\<close>

record pool_call =
  pc_method :: pystr
  pc_url :: pystr
  pc_body :: "nat list option"
  pc_headers :: "(pystr, pystr) dict"
  pc_connect_timeout :: "pyfloat option"
  pc_read_timeout :: "pyfloat option"
  pc_redirect :: bool
  pc_connect_retries :: nat
  pc_read_retries :: nat
  pc_status_retries :: nat
  pc_other_retries :: nat
  pc_redirect_retries :: nat

definition no_attempts :: nat where
  "no_attempts = 0"

definition max_redirects :: nat where
  "max_redirects = 5"

definition open_call :: "stream_request \<Rightarrow> pool_call" where
  "open_call r =
     \<lparr>pc_method = sr_method r, pc_url = sr_url r, pc_body = sr_body r, pc_headers = sr_headers r,
      pc_connect_timeout = sr_connect_timeout r, pc_read_timeout = sr_read_timeout r,
      pc_redirect = sr_follow_redirects r, pc_connect_retries = no_attempts, pc_read_retries = no_attempts,
      pc_status_retries = no_attempts, pc_other_retries = no_attempts,
      pc_redirect_retries = (if sr_follow_redirects r then max_redirects else no_attempts)\<rparr>"

definition translated :: "exn \<Rightarrow> exn" where
  "translated e =
     (if e = ReadTimeoutError then StreamStalledError
      else if e = ProtocolError then StreamClosedError else e)"

text \<open>
  The chunks an iteration yields and the exception that ends it, if one does. The list holds the reads
  up to the end of the stream; an empty read is the end.
\<close>

fun stream_chunks :: "nat list result list \<Rightarrow> nat list list \<times> exn option" where
  "stream_chunks [] = ([], None)"
| "stream_chunks (Inl e # rs) = ([], Some (translated e))"
| "stream_chunks (Inr data # rs) =
     (if data = [] then ([], None) else (let (cs, e) = stream_chunks rs in (data # cs, e)))"

text \<open>An attempt over a pool: what it answers to a call and the reads of its response, undisturbed.\<close>

definition network_attempt :: "(pool_call \<Rightarrow> int result) \<Rightarrow> nat list result list \<Rightarrow> attempt_script" where
  "network_attempt answer reads =
     (delivery 200 (fst (stream_chunks reads)))\<lparr>at_answer := \<lambda>r. answer (open_call r),
        at_chunk_error := snd (stream_chunks reads)\<rparr>"

lemma network_attempt_simps [simp]:
  "at_close_in_flight (network_attempt answer reads) = False" "at_close_in_gap (network_attempt answer reads) = False"
  "at_close_at_end (network_attempt answer reads) = False" "at_close_on_failure (network_attempt answer reads) = False"
  "at_close_while_waiting (network_attempt answer reads) = False"
  "at_answer (network_attempt answer reads) r = answer (open_call r)"
  "at_chunks (network_attempt answer reads) = map (Pair False) (fst (stream_chunks reads))"
  by (simp_all add: network_attempt_def delivery_def)

text \<open>Reading never stops a client that runs, whatever it reads.\<close>

lemma read_chunks_runs:
  "\<not> es_stop c \<Longrightarrow> \<not> es_stop (snd (read_chunks (map (Pair False) bss) pending p c)) \<and>
     es_handlers (snd (read_chunks (map (Pair False) bss) pending p c)) = es_handlers c \<and>
     fst (read_chunks (map (Pair False) bss) pending p c) \<noteq> Stopped"
proof (induction bss arbitrary: pending p c)
  case (Cons b bss)
  obtain t pend where d: "decode_bytes pending b = (t, pend)" by fastforce
  obtain q c1 where f: "feed_handled t p c = (q, c1)" by fastforce
  have "\<not> es_stop c1" "es_handlers c1 = es_handlers c"
    using same_control_feed [of c t p] f Cons.prems by (simp_all add: same_control_def)
  with Cons f d show ?case by (cases q) (auto simp: land_close_def Let_def)
qed simp

lemma read_stream_runs:
  assumes "\<not> es_stop c"
  shows "\<not> es_stop (snd (read_stream (network_attempt answer reads) c)) \<and>
    es_handlers (snd (read_stream (network_attempt answer reads) c)) = es_handlers c"
proof -
  obtain r c1 where r: "read_chunks (map (Pair False) (fst (stream_chunks reads))) [] (new_stream_parser c) c = (r, c1)"
    by fastforce
  have c1: "\<not> es_stop c1" "es_handlers c1 = es_handlers c" "r \<noteq> Stopped"
    using read_chunks_runs [OF assms, of "fst (stream_chunks reads)" "[]" "new_stream_parser c"] r by simp_all
  show ?thesis
  proof (cases r)
    case (Drained pending p)
    obtain q c2 where f: "feed_handled (decode_final pending) p c1 = (q, c2)" by fastforce
    have "\<not> es_stop c2" "es_handlers c2 = es_handlers c"
      using same_control_feed [of c1 "decode_final pending" p] f c1 by (simp_all add: same_control_def)
    then show ?thesis using c1 f r Drained
      by (auto simp: read_stream_def land_close_def split: option.splits sum.splits)
  qed (use c1 r in \<open>simp_all add: read_stream_def\<close>)
qed

end
