(* ===== verification/Streaming.thy ===== *)
theory Streaming
  imports Sse_Transport
begin

text \<open>
  The streaming transport: \<open>_transport/streaming.py\<close>, on top of the event source client. Its handlers
  act on the record \<open>streaming\<close>; a bundle they hand to the client is appended to \<open>sg_delivered\<close>.
  The session IDs that \<open>uuid4\<close> makes are a sequence the transport draws from.
\<close>

section \<open>The handlers\<close>

record streaming =
  sg_server_sdk_key :: pystr
  sg_meta_context :: "(pystr, pystr) dict"
  sg_uuid :: "nat \<Rightarrow> pystr"
  sg_uuids_drawn :: nat
  sg_session_id :: "pystr option"
  sg_settled :: bool
  sg_fatal_error :: "exn option"
  sg_delivered :: "config_bundle list"

definition build_request_body :: "streaming \<Rightarrow> nat list option result \<times> streaming" where
  "build_request_body s =
     (let session = sg_uuid s (sg_uuids_drawn s);
          s1 = s\<lparr>sg_uuids_drawn := sg_uuids_drawn s + 1, sg_session_id := Some session\<rparr>
      in (bindE (json_body
            [(py ''serverSdkKey'', PStr (sg_server_sdk_key s)),
             (py ''metaContext'', PDict (map (\<lambda>(k, v). (PStr k, PStr v)) (sg_meta_context s))),
             (py ''sessionId'', PStr session)]) (\<lambda>b. Inr (Some b)),
          s1))"

definition streaming_on_connect :: "streaming \<Rightarrow> unit result \<times> streaming" where
  "streaming_on_connect s = (Inr (), s\<lparr>sg_settled := True\<rparr>)"

definition streaming_on_disconnect :: "streaming \<Rightarrow> unit result \<times> streaming" where
  "streaming_on_disconnect s = (Inr (), s)"

definition streaming_on_error :: "exn \<Rightarrow> streaming \<Rightarrow> unit result \<times> streaming" where
  "streaming_on_error e s = (Inr (), s)"

definition streaming_on_message ::
  "printable \<Rightarrow> event_source_message \<Rightarrow> streaming \<Rightarrow> unit result \<times> streaming" where
  "streaming_on_message pr m s =
     (case parse_bundle pr (msg_data m) of
        Inl e \<Rightarrow> if e = NotAConfigBundleError \<or> is_value_error e then (Inr (), s) else (Inl e, s)
      | Inr bundle \<Rightarrow> (Inr (), s\<lparr>sg_delivered := sg_delivered s @ [bundle]\<rparr>))"

definition streaming_should_reconnect :: "reconnection_state \<Rightarrow> streaming \<Rightarrow> bool result \<times> streaming" where
  "streaming_should_reconnect st s =
     (if \<not> is_fatal_status (rc_status st) then (Inr True, s)
      else (Inr False, s\<lparr>sg_fatal_error := Some (fatal_status_error (rc_status st)), sg_settled := True\<rparr>))"

definition max_backoff_exponent :: nat where
  "max_backoff_exponent = 9"

definition streaming_reconnect_delay :: "reconnection_state \<Rightarrow> streaming \<Rightarrow> pyval result \<times> streaming" where
  "streaming_reconnect_delay st s = (Inr (PFloat (Finite (2 ^ min (rc_attempt st) max_backoff_exponent))), s)"

definition streaming_handlers :: "printable \<Rightarrow> streaming stream_handlers" where
  "streaming_handlers pr =
     \<lparr>hd_body = build_request_body, hd_connect = Some streaming_on_connect,
      hd_disconnect = Some streaming_on_disconnect, hd_message = Some (streaming_on_message pr),
      hd_comment = None, hd_error = Some streaming_on_error,
      hd_should_reconnect = Some streaming_should_reconnect,
      hd_reconnect_delay = Some streaming_reconnect_delay\<rparr>"

section \<open>The transport\<close>

text \<open>\<open>sm_state\<close> is the state of the handlers while no event source client holds it.\<close>

record streaming_transport =
  sm_url :: pystr
  sm_heartbeat_url :: pystr
  sm_headers :: "(pystr, pystr) dict"
  sm_read_timeout :: "pyfloat option"
  sm_heartbeat_interval :: pyfloat
  sm_client :: "streaming es_client option"
  sm_heartbeat_stop :: bool
  sm_heartbeat_thread :: bool
  sm_state :: streaming

definition new_streaming ::
  "pystr \<Rightarrow> pystr \<Rightarrow> sdk_identity \<Rightarrow> pystr \<Rightarrow> (pystr, pystr) dict \<Rightarrow> (nat \<Rightarrow> pystr) \<Rightarrow> streaming_transport" where
  "new_streaming url heartbeat_url identity key meta uuid =
     \<lparr>sm_url = url, sm_heartbeat_url = heartbeat_url, sm_headers = request_headers identity,
      sm_read_timeout = Some (Finite 45), sm_heartbeat_interval = Finite 90, sm_client = None,
      sm_heartbeat_stop = True, sm_heartbeat_thread = False,
      sm_state = \<lparr>sg_server_sdk_key = key, sg_meta_context = meta, sg_uuid = uuid, sg_uuids_drawn = 0,
        sg_session_id = None, sg_settled = False, sg_fatal_error = None, sg_delivered = []\<rparr>\<rparr>"

definition current_state :: "streaming_transport \<Rightarrow> streaming" where
  "current_state t = (case sm_client t of None \<Rightarrow> sm_state t | Some c \<Rightarrow> es_user c)"

definition streaming_close :: "streaming_transport \<Rightarrow> streaming_transport" where
  "streaming_close t =
     t\<lparr>sm_heartbeat_stop := True, sm_heartbeat_thread := False, sm_client := None,
       sm_state := current_state t\<rparr>"

definition start_heartbeat :: "streaming_transport \<Rightarrow> streaming_transport" where
  "start_heartbeat t = t\<lparr>sm_heartbeat_stop := False, sm_heartbeat_thread := True\<rparr>"

text \<open>\<open>connect\<close> up to its wait, and what it does once the wait is over.\<close>

definition streaming_connect :: "printable \<Rightarrow> streaming_transport \<Rightarrow> streaming_transport" where
  "streaming_connect pr t =
     (let t1 = streaming_close t;
          s = (sm_state t1)\<lparr>sg_settled := False, sg_fatal_error := None\<rparr>
      in start_heartbeat (t1\<lparr>sm_client := Some (es_connect (new_es_client (sm_url t1) (py ''POST'')
           (sm_headers t1) (sm_read_timeout t1) (streaming_handlers pr) s))\<rparr>))"

definition connect_result :: "streaming_transport \<Rightarrow> unit result" where
  "connect_result t =
     (case sg_fatal_error (current_state t) of None \<Rightarrow> Inr () | Some e \<Rightarrow> Inl e)"

definition streaming_work ::
  "attempt_script list \<Rightarrow> streaming_transport \<Rightarrow> pyfloat list \<times> streaming_transport" where
  "streaming_work scripts t =
     (case sm_client t of
        None \<Rightarrow> ([], t)
      | Some c \<Rightarrow> (let (r, delays, c') = run_loop scripts c in (delays, t\<lparr>sm_client := Some c'\<rparr>)))"

definition streaming_is_connected :: "streaming_transport \<Rightarrow> bool" where
  "streaming_is_connected t =
     (case sm_client t of None \<Rightarrow> False | Some c \<Rightarrow> es_ready_state c = OPEN)"

text \<open>The heartbeat: whether a request was made, its answer being ignored.\<close>

definition heartbeat_body :: "streaming_transport \<Rightarrow> pystr \<Rightarrow> nat list result" where
  "heartbeat_body t session =
     json_body [(py ''serverSdkKey'', PStr (sg_server_sdk_key (current_state t))), (py ''sessionId'', PStr session)]"

definition send_heartbeat :: "pool \<Rightarrow> streaming_transport \<Rightarrow> bool result" where
  "send_heartbeat pool t =
     (case sg_session_id (current_state t) of
        None \<Rightarrow> Inr False
      | Some session \<Rightarrow>
          if \<not> streaming_is_connected t then Inr False
          else
            bindE (heartbeat_body t session) (\<lambda>body.
              case http_post pool (sm_heartbeat_url t) body (sm_headers t) (sm_heartbeat_interval t) of
                Inl _ \<Rightarrow> Inr True | Inr _ \<Rightarrow> Inr True))"

fun heartbeat_loop :: "pool list \<Rightarrow> streaming_transport \<Rightarrow> bool list result" where
  "heartbeat_loop [] t = Inr []"
| "heartbeat_loop (pool # pools) t =
     (if sm_heartbeat_stop t then Inr []
      else bindE (send_heartbeat pool t) (\<lambda>b. bindE (heartbeat_loop pools t) (\<lambda>bs. Inr (b # bs))))"

section \<open>Backoff\<close>

text \<open>What failed attempts leave alone.\<close>

definition as_before :: "streaming es_client \<Rightarrow> streaming es_client \<Rightarrow> bool" where
  "as_before c d \<longleftrightarrow> sg_fatal_error (es_user d) = sg_fatal_error (es_user c) \<and>
     sg_delivered (es_user d) = sg_delivered (es_user c) \<and> es_max_line_chars d = es_max_line_chars c \<and>
     es_max_event_chars d = es_max_event_chars c"

text \<open>
  An attempt whose request raises or is answered with a status and no stream; the failures worth
  retrying.
\<close>

definition answered :: "int result \<Rightarrow> attempt_script" where
  "answered r = (delivery 200 [])\<lparr>at_answer := (\<lambda>_. r)\<rparr>"

definition transient :: "int result \<Rightarrow> bool" where
  "transient r =
     (case r of Inl _ \<Rightarrow> True | Inr status \<Rightarrow> 400 \<le> status \<and> \<not> is_fatal_status (Some status))"

definition backoff :: "nat \<Rightarrow> pyfloat" where
  "backoff n = Finite (2 ^ min n max_backoff_exponent)"

lemma build_request_body_ok: "\<exists>b. fst (build_request_body s) = Inr (Some b)"
proof -
  have "\<exists>b. json_body
      [(py ''serverSdkKey'', PStr (sg_server_sdk_key s)),
       (py ''metaContext'', PDict (map (\<lambda>(k, v). (PStr k, PStr v)) (sg_meta_context s))),
       (py ''sessionId'', PStr (sg_uuid s (sg_uuids_drawn s)))] = Inr b"
    unfolding json_body_def by (rule json_safe_encodes) (auto simp: list_all_iff)
  then show ?thesis by (auto simp: build_request_body_def Let_def)
qed

lemma build_request_body_state:
  "sg_fatal_error (snd (build_request_body s)) = sg_fatal_error s"
  "sg_settled (snd (build_request_body s)) = sg_settled s"
  "sg_delivered (snd (build_request_body s)) = sg_delivered s"
  by (simp_all add: build_request_body_def Let_def)

lemma min_reconnect_delay_value: "min_reconnect_delay = Finite (1152921504606847 / 1152921504606846976)"
  by code_simp

lemma in_delay_rangeI: "1 \<le> x \<Longrightarrow> x \<le> 512 \<Longrightarrow> in_delay_range (Finite x)"
  by (simp add: in_delay_range_def max_reconnect_delay_def min_reconnect_delay_value)

lemma backoff_in_range: "in_delay_range (backoff n)"
proof -
  have "(2 :: rat) ^ min n 9 \<le> 2 ^ 9" by (rule power_increasing) auto
  then show ?thesis by (simp add: backoff_def max_backoff_exponent_def in_delay_rangeI)
qed

lemma streaming_delay:
  "es_handlers c = streaming_handlers pr \<Longrightarrow> reconnect_delay st c = (Inr (backoff (rc_attempt st)), c)"
  using backoff_in_range [of "rc_attempt st"]
  by (simp add: reconnect_delay_def Let_def ask_def apply_to_def streaming_handlers_def
      streaming_reconnect_delay_def as_seconds_def fl_is_finite_def backoff_def)

lemma answered_once:
  assumes "es_handlers c = streaming_handlers pr" and "\<not> es_stop c"
    and "case r of Inl _ \<Rightarrow> True | Inr status \<Rightarrow> 400 \<le> status"
  shows "\<exists>f c1. connect_once (answered r) c = (Some f, c1) \<and>
    fl_status f = (case r of Inl _ \<Rightarrow> None | Inr status \<Rightarrow> Some status) \<and>
    es_handlers c1 = streaming_handlers pr \<and> \<not> es_stop c1 \<and> es_attempt c1 = es_attempt c \<and>
    as_before c c1"
proof -
  obtain b where "fst (build_request_body (es_user c)) = Inr (Some b)" using build_request_body_ok by blast
  then obtain s where b: "build_request_body (es_user c) = (Inr (Some b), s)"
    "sg_fatal_error s = sg_fatal_error (es_user c)" "sg_delivered s = sg_delivered (es_user c)"
    using build_request_body_state [of "es_user c"] by (cases "build_request_body (es_user c)") auto
  with assms show ?thesis
    by (cases r) (auto simp: connect_once_def open_stream_def answered_def delivery_def land_close_def
        streaming_handlers_def failed_attempt_def notify_def apply_to_def streaming_on_error_def release_def as_before_def)
qed

lemma transient_run:
  assumes "list_all transient rs" and "es_handlers c = streaming_handlers pr" and "\<not> es_stop c"
  shows "\<exists>c'. run_loop (map answered rs) c =
      (Unfinished, map backoff [Suc (es_attempt c)..<Suc (es_attempt c) + length rs], c') \<and>
    as_before c c' \<and> es_handlers c' = streaming_handlers pr \<and>
    \<not> es_stop c'"
  using assms
proof (induction rs arbitrary: c)
  case (Cons r rs)
  have "case r of Inl _ \<Rightarrow> True | Inr status \<Rightarrow> 400 \<le> status"
    using Cons.prems(1) by (simp add: transient_def split: sum.splits)
  from answered_once [OF Cons.prems(2,3) this] obtain f c1 where c1: "connect_once (answered r) c = (Some f, c1)"
    "fl_status f = (case r of Inl _ \<Rightarrow> None | Inr status \<Rightarrow> Some status)"
    "es_handlers c1 = streaming_handlers pr" "\<not> es_stop c1" "es_attempt c1 = es_attempt c"
    "as_before c c1" by blast
  define c3 where "c3 = set_state CONNECTING (c1\<lparr>es_attempt := Suc (es_attempt c)\<rparr>)"
  have c3: "es_handlers c3 = streaming_handlers pr" "\<not> es_stop c3" "es_attempt c3 = Suc (es_attempt c)"
    "as_before c c3"
    using c1 by (simp_all add: c3_def set_state_def as_before_def)
  have "\<not> is_fatal_status (fl_status f)"
    using Cons.prems(1) c1(2) by (auto simp: transient_def is_fatal_status_def split: sum.splits)
  then have go: "ask (apply_to (hd_should_reconnect (streaming_handlers pr)) (reconnection_of f d)) True d = (True, d)" for d
    by (simp add: ask_def apply_to_def streaming_handlers_def streaming_should_reconnect_def reconnection_of_def)
  have wait: "land_close (at_close_while_waiting (answered r)) c3 = c3"
    by (simp add: land_close_def answered_def delivery_def)
  obtain c' where run: "run_loop (map answered rs) c3 =
      (Unfinished, map backoff [Suc (Suc (es_attempt c))..<Suc (Suc (es_attempt c)) + length rs], c')"
    "as_before c c'" "es_handlers c' = streaming_handlers pr" "\<not> es_stop c'"
    using Cons.IH [of c3] Cons.prems(1) c3 by (auto simp: as_before_def)
  have delay: "reconnect_delay (reconnection_of f d) c3 = (Inr (backoff (es_attempt d)), c3)" for d :: "streaming es_client"
    by (simp add: streaming_delay [OF c3(1)] reconnection_of_def)
  show ?case
    using c1 c3 run
    by (simp add: c1(1) Let_def go c3_def [symmetric] delay wait upt_conv_Cons del: upt_Suc)
qed (simp add: as_before_def)

lemma fatal_run:
  assumes "is_fatal_status (Some status)" and "es_handlers c = streaming_handlers pr" and "\<not> es_stop c"
  shows "\<exists>c'. (\<forall>later. run_loop (answered (Inr status) # later) c = (Ended, [], c')) \<and>
    sg_fatal_error (es_user c') = Some (ConfigDirectorConnectionError (Some status)) \<and>
    sg_settled (es_user c') \<and> es_ready_state c' = CLOSED"
proof -
  have "400 \<le> status" using assms(1) by (simp add: is_fatal_status_def)
  with answered_once [OF assms(2,3), of "Inr status"] obtain f c1 where
    c1: "connect_once (answered (Inr status)) c = (Some f, c1)" "fl_status f = Some status"
      "es_handlers c1 = streaming_handlers pr" "\<not> es_stop c1" by auto
  define c3 where "c3 = c1\<lparr>es_attempt := Suc (es_attempt c1), es_user := (es_user c1)\<lparr>sg_fatal_error :=
    Some (ConfigDirectorConnectionError (Some status)), sg_settled := True\<rparr>\<rparr>"
  have "ask (apply_to (hd_should_reconnect (streaming_handlers pr)) (reconnection_of f d)) True
      (c1\<lparr>es_attempt := Suc (es_attempt c1)\<rparr>) = (False, c3)" for d :: "streaming es_client"
    using c1(2) assms(1)
    by (simp add: ask_def apply_to_def streaming_handlers_def streaming_should_reconnect_def
        reconnection_of_def fatal_status_error_def c3_def)
  then have "run_loop (answered (Inr status) # later) c = (Ended, [], disconnected c3)" for later
    using c1 by (simp add: Let_def)
  moreover have "es_handlers c3 = streaming_handlers pr" using c1 by (simp add: c3_def)
  then have "es_user (disconnected c3) = es_user c3"
    by (simp add: disconnected_def notify_def streaming_handlers_def streaming_on_disconnect_def)
  ultimately show ?thesis by (auto simp: c3_def)
qed

section \<open>A stream that begins\<close>

lemma delivery_once:
  assumes "es_handlers c = streaming_handlers pr" and "\<not> es_stop c" and "status < 400" and "status \<noteq> 204"
    and "\<And>d :: streaming es_client. es_max_line_chars d = es_max_line_chars c \<Longrightarrow> es_max_event_chars d = es_max_event_chars c \<Longrightarrow> \<not> es_stop d \<Longrightarrow>
      read_stream (delivery status bss) d = (Inr (), handle_event m d)"
    and "msg_id m = None" and "parse_bundle pr (msg_data m) = Inr b"
  shows "\<exists>c'. run_loop [delivery status bss] c = (Unfinished, [backoff 1], c') \<and> sg_settled (es_user c') \<and>
    sg_delivered (es_user c') = sg_delivered (es_user c) @ [b] \<and> sg_fatal_error (es_user c') = sg_fatal_error (es_user c)"
proof -
  obtain body where "fst (build_request_body (es_user c)) = Inr (Some body)" using build_request_body_ok by blast
  then obtain s where b: "build_request_body (es_user c) = (Inr (Some body), s)"
    "sg_fatal_error s = sg_fatal_error (es_user c)" "sg_delivered s = sg_delivered (es_user c)"
    using build_request_body_state [of "es_user c"] by (cases "build_request_body (es_user c)") auto
  define d where "d = begin_stream (c\<lparr>es_user := s, es_response := True\<rparr>)"
  have d: "es_max_line_chars d = es_max_line_chars c" "es_max_event_chars d = es_max_event_chars c" "\<not> es_stop d"
    "es_handlers d = streaming_handlers pr" "es_attempt d = 0" "es_user d = s\<lparr>sg_settled := True\<rparr>"
    using assms(1,2) by (simp_all add: d_def begin_stream_def set_state_def Let_def notify_def streaming_handlers_def
        streaming_on_connect_def)
  define e where "e = (handle_event m d)\<lparr>es_response := False\<rparr>"
  have e: "\<not> es_stop e" "es_handlers e = streaming_handlers pr" "es_attempt e = 0"
    "es_user e = s\<lparr>sg_settled := True, sg_delivered := sg_delivered s @ [b]\<rparr>"
    using d assms(6,7) by (simp_all add: e_def handle_event_def notify_def apply_to_def streaming_handlers_def
        streaming_on_message_def)
  have once: "connect_once (delivery status bss) c =
      (Some \<lparr>fl_status = Some status, fl_error = Some StreamClosedError\<rparr>, e)"
    using assms(1-4) assms(5) [OF d(1-3)] e(1) b(1)
    by (simp add: connect_once_def open_stream_def delivery_def [of status bss] land_close_def streaming_handlers_def
        d_def [symmetric] e_def release_def)
  define g where "g = set_state CONNECTING (e\<lparr>es_attempt := Suc 0\<rparr>)"
  have g: "\<not> es_stop g" "es_handlers g = streaming_handlers pr" "es_user g = es_user e"
    using e by (simp_all add: g_def set_state_def)
  have go: "ask (apply_to (hd_should_reconnect (streaming_handlers pr)) st) True y = (True, y)"
    if "rc_status st = Some status" for st and y :: "streaming es_client"
    using assms(3) that by (simp add: ask_def apply_to_def streaming_handlers_def streaming_should_reconnect_def
        is_fatal_status_def)
  have "\<not> at_close_while_waiting (delivery status bss)" by (simp add: delivery_def)
  then have "run_loop [delivery status bss] c = (Unfinished, [backoff 1], g)"
    using e g streaming_delay [OF g(2)]
    by (simp add: once Let_def go g_def [symmetric] reconnection_of_def land_close_def)
  with g e b show ?thesis by simp
qed

section \<open>Attempts that are worth repeating\<close>

definition enduring :: "(pool_call \<Rightarrow> int result) \<Rightarrow> bool" where
  "enduring answer \<longleftrightarrow>
     (\<forall>r. case answer r of Inl _ \<Rightarrow> True | Inr status \<Rightarrow> status \<noteq> 204 \<and> \<not> is_fatal_status (Some status))"

lemma notify_runs [simp]: "es_stop (notify f c) = es_stop c" "es_handlers (notify f c) = es_handlers c"
  by (simp_all add: notify_def split: option.splits)

lemma begin_stream_runs [simp]:
  "es_stop (begin_stream c) = es_stop c" "es_handlers (begin_stream c) = es_handlers c"
  by (simp_all add: begin_stream_def Let_def set_state_def)

lemma enduring_once:
  assumes "enduring answer" and "es_handlers c = streaming_handlers pr" and "\<not> es_stop c"
  shows "\<exists>f c1. connect_once (network_attempt answer reads) c = (Some f, c1) \<and> \<not> es_stop c1 \<and>
    es_handlers c1 = streaming_handlers pr \<and> \<not> is_fatal_status (fl_status f)"
proof -
  let ?a = "network_attempt answer reads"
  obtain body s where b: "build_request_body (es_user c) = (Inr (Some body), s)"
    using build_request_body_ok [of "es_user c"] by (cases "build_request_body (es_user c)") auto
  let ?c = "c\<lparr>es_user := s\<rparr>"
  have failed: "\<exists>c1. failed_attempt ?a st e d = (Some \<lparr>fl_status = st, fl_error = Some e\<rparr>, c1) \<and> \<not> es_stop c1 \<and>
      es_handlers c1 = es_handlers d" if "\<not> es_stop d" for st e and d :: "streaming es_client"
    using that by (simp add: failed_attempt_def land_close_def)
  show ?thesis
  proof (cases "answer (open_call (stream_request_of (Some body) ?c))")
    case (Inl e)
    then have "open_stream ?a c = (Inl e, ?c)"
      using assms(2) b by (simp add: open_stream_def streaming_handlers_def land_close_def)
    with failed [of ?c None e] assms show ?thesis by (auto simp: connect_once_def is_fatal_status_def)
  next
    case (Inr status)
    with assms(1) have st: "status \<noteq> 204" "\<not> is_fatal_status (Some status)" by (auto simp: enduring_def split: sum.splits)
    have o: "open_stream ?a c = (Inr status, ?c)"
      using assms(2,3) b Inr by (simp add: open_stream_def streaming_handlers_def land_close_def)
    show ?thesis
    proof (cases "400 \<le> status")
      case True
      with o st assms(2,3) show ?thesis by (simp add: connect_once_def release_def)
    next
      case False
      let ?d = "begin_stream (?c\<lparr>es_response := True\<rparr>)"
      obtain x c3 where r: "read_stream ?a ?d = (x, c3)" by fastforce
      have c3: "\<not> es_stop c3" "es_handlers c3 = streaming_handlers pr"
        using read_stream_runs [of ?d answer reads] assms(2,3) r by simp_all
      show ?thesis
      proof (cases x)
        case (Inl e)
        obtain c4 where "failed_attempt ?a (Some status) e c3 = (Some \<lparr>fl_status = Some status, fl_error = Some e\<rparr>, c4)"
          "\<not> es_stop c4" "es_handlers c4 = es_handlers c3" using failed [OF c3(1)] by blast
        with o st False assms(2,3) r c3 Inl show ?thesis by (simp add: connect_once_def land_close_def release_def)
      next
        case (Inr u)
        with o st False assms(2,3) r c3 show ?thesis by (simp add: connect_once_def land_close_def release_def)
      qed
    qed
  qed
qed

lemma enduring_run:
  assumes "list_all (\<lambda>(answer, reads). enduring answer) as" and "es_handlers c = streaming_handlers pr" and "\<not> es_stop c"
  shows "\<exists>ns c'. run_loop (map (\<lambda>(answer, reads). network_attempt answer reads) as) c = (Unfinished, map backoff ns, c') \<and>
    length ns = length as \<and> \<not> es_stop c' \<and> (as \<noteq> [] \<longrightarrow> es_ready_state c' = CONNECTING)"
  using assms
proof (induction as arbitrary: c)
  case Nil
  then show ?case by (intro exI [of _ "[]"]) simp
next
  case (Cons a as)
  obtain answer reads where a: "a = (answer, reads)" by fastforce
  obtain f c1 where c1: "connect_once (network_attempt answer reads) c = (Some f, c1)" "\<not> es_stop c1"
    "es_handlers c1 = streaming_handlers pr" "\<not> is_fatal_status (fl_status f)"
    using enduring_once [of answer c pr reads] Cons.prems a by auto
  define c3 where "c3 = set_state CONNECTING (c1\<lparr>es_attempt := Suc (es_attempt c1)\<rparr>)"
  have c3: "es_handlers c3 = streaming_handlers pr" "\<not> es_stop c3" "es_ready_state c3 = CONNECTING"
    using c1 by (simp_all add: c3_def set_state_def)
  have go: "ask (apply_to (hd_should_reconnect (streaming_handlers pr)) st) True y = (True, y)"
    if "rc_status st = fl_status f" for st and y :: "streaming es_client"
    using c1(4) that by (simp add: ask_def apply_to_def streaming_handlers_def streaming_should_reconnect_def)
  obtain ns c' where run: "run_loop (map (\<lambda>(answer, reads). network_attempt answer reads) as) c3 = (Unfinished, map backoff ns, c')"
    "length ns = length as" "\<not> es_stop c'" "as \<noteq> [] \<longrightarrow> es_ready_state c' = CONNECTING"
    using Cons.IH [OF _ c3(1,2)] Cons.prems(1) a by auto
  have "run_loop (map (\<lambda>(answer, reads). network_attempt answer reads) (a # as)) c =
      (Unfinished, map backoff (Suc (es_attempt c1) # ns), c')"
    using c1 c3 run
    by (simp add: a go c3_def [symmetric] streaming_delay [OF c3(1)] reconnection_of_def land_close_def)
  moreover have "es_ready_state c' = CONNECTING" using run c3(3) by (cases as) auto
  ultimately show ?case using run(2,3) by (metis length_Cons)
qed

section \<open>Properties\<close>

text \<open>
  C13 (streaming_backoff). However many attempts fail in a row before a stream begins, with exceptions
  or with statuses that are not fatal, the transport keeps retrying, after 2, 4, 8, ... seconds, never
  more than 512, and \<open>connect\<close> raises nothing.
\<close>

theorem streaming_backoff:
  assumes "list_all transient rs"
  shows "fst (streaming_work (map answered rs) (streaming_connect pr t)) =
      map (\<lambda>n. Finite (2 ^ min n 9)) [1..<Suc (length rs)] \<and>
    connect_result (snd (streaming_work (map answered rs) (streaming_connect pr t))) = Inr ()"
proof -
  obtain c where c: "sm_client (streaming_connect pr t) = Some c" "es_handlers c = streaming_handlers pr"
    "\<not> es_stop c" "es_attempt c = 0" "sg_fatal_error (es_user c) = None"
    by (simp add: streaming_connect_def Let_def start_heartbeat_def es_connect_def new_es_client_def)
  from transient_run [OF assms c(2,3)] c show ?thesis
    by (auto simp: as_before_def streaming_work_def connect_result_def current_state_def backoff_def
        max_backoff_exponent_def simp del: upt_Suc)
qed

definition sample_streaming :: streaming_transport where
  "sample_streaming = new_streaming [] [] \<lparr>sdk_name = [], sdk_version = []\<rparr> [] [] (\<lambda>_. [])"

theorem streaming_backoff_witness:
  "fst (streaming_work (map answered [Inl HTTPError, Inr 503, Inr 429]) (streaming_connect (\<lambda>_. True) sample_streaming)) =
     [Finite 2, Finite 4, Finite 8]"
  using streaming_backoff [of "[Inl HTTPError, Inr 503, Inr 429]" "\<lambda>_. True" sample_streaming]
  by (simp add: transient_def is_fatal_status_def upt_rec)

text \<open>
  C12 (streaming_endures). Nothing a server or a network does ends streaming but a 204 and a fatal status:
  whatever the other attempts are answered, whatever bytes a stream carries (bad UTF-8, lines without
  end, bundles that cannot be read) and however it is cut off, every attempt is followed by a wait of
  at most 512 seconds and a new attempt.
\<close>

theorem streaming_endures:
  fixes pr t as
  assumes "list_all (\<lambda>(answer, reads). enduring answer) as"
  defines "r \<equiv> streaming_work (map (\<lambda>(answer, reads). network_attempt answer reads) as) (streaming_connect pr t)"
  shows "length (fst r) = length as \<and> list_all (\<lambda>d. \<exists>n. d = Finite (2 ^ min n 9)) (fst r) \<and>
    (\<exists>c. sm_client (snd r) = Some c \<and> \<not> es_stop c \<and> es_ready_state c = CONNECTING)"
proof -
  obtain c where c: "sm_client (streaming_connect pr t) = Some c" "es_handlers c = streaming_handlers pr"
    "\<not> es_stop c" "es_ready_state c = CONNECTING"
    by (simp add: streaming_connect_def Let_def start_heartbeat_def es_connect_def new_es_client_def)
  from enduring_run [OF assms(1) c(2,3)] obtain ns c' where
    run: "run_loop (map (\<lambda>(answer, reads). network_attempt answer reads) as) c = (Unfinished, map backoff ns, c')"
    "length ns = length as" "\<not> es_stop c'" "as \<noteq> [] \<longrightarrow> es_ready_state c' = CONNECTING" by blast
  have "es_ready_state c' = CONNECTING" using run c(4) by (cases as) auto
  with run c(1) show ?thesis
    by (auto simp: r_def streaming_work_def backoff_def max_backoff_exponent_def list_all_iff)
qed

theorem streaming_endures_witness:
  "length (fst (streaming_work (map (\<lambda>(answer, reads). network_attempt answer reads)
      [(\<lambda>_. Inl HTTPError, []), (\<lambda>_. Inr 200, [Inr [255], Inl ReadTimeoutError])])
     (streaming_connect (\<lambda>_. True) sample_streaming))) = 2"
proof -
  have "list_all (\<lambda>(answer, reads). enduring answer)
      [(\<lambda>_. Inl HTTPError, []), (\<lambda>_. Inr 200, [Inr [255], Inl ReadTimeoutError])]"
    by (simp add: enduring_def is_fatal_status_def)
  from streaming_endures [OF this, of "\<lambda>_. True" sample_streaming] show ?thesis by simp
qed

text \<open>
  C24 (fatal_status_ends_streaming). An answer with a fatal status ends the connection loop at once,
  after any number of retries: the client is closed, \<open>connect\<close> is released and raises a connection error
  with that status, and no further attempt is made.
\<close>

theorem fatal_status_ends_streaming:
  fixes pr t rs status later
  assumes "list_all transient rs" and "is_fatal_status (Some status)"
  defines "t' \<equiv> snd (streaming_work (map answered rs @ answered (Inr status) # later) (streaming_connect pr t))"
  shows "connect_result t' = Inl (ConfigDirectorConnectionError (Some status)) \<and>
    sg_settled (current_state t') \<and> \<not> streaming_is_connected t' \<and>
    t' = snd (streaming_work (map answered rs @ [answered (Inr status)]) (streaming_connect pr t))"
proof -
  obtain c where c: "sm_client (streaming_connect pr t) = Some c" "es_handlers c = streaming_handlers pr"
    "\<not> es_stop c"
    by (simp add: streaming_connect_def Let_def start_heartbeat_def es_connect_def new_es_client_def)
  from transient_run [OF assms(1) c(2,3)] obtain ds c1 where c1: "run_loop (map answered rs) c = (Unfinished, ds, c1)"
    "es_handlers c1 = streaming_handlers pr" "\<not> es_stop c1" by blast
  from fatal_run [OF assms(2) c1(2,3)] obtain c2 where c2:
    "\<And>later. run_loop (answered (Inr status) # later) c1 = (Ended, [], c2)"
    "sg_fatal_error (es_user c2) = Some (ConfigDirectorConnectionError (Some status))"
    "sg_settled (es_user c2)" "es_ready_state c2 = CLOSED" by blast
  have "streaming_work (map answered rs @ answered (Inr status) # later) (streaming_connect pr t) =
      (ds, (streaming_connect pr t)\<lparr>sm_client := Some c2\<rparr>)" for later
    by (simp add: streaming_work_def c(1) run_loop_append c1(1) c2(1) del: run_loop.simps)
  then show ?thesis
    by (simp add: t'_def connect_result_def current_state_def c2 streaming_is_connected_def)
qed

theorem fatal_status_ends_streaming_witness:
  "connect_result (snd (streaming_work (map answered [Inr 503] @ answered (Inr 401) # [answered (Inr 503)])
     (streaming_connect (\<lambda>_. True) sample_streaming))) = Inl (ConfigDirectorConnectionError (Some 401))"
  by (rule fatal_status_ends_streaming [THEN conjunct1]) (simp_all add: transient_def is_fatal_status_def)

text \<open>
  C11 (streaming_delivers). However many attempts fail first, a stream that begins and carries a bundle
  delivers it: the bundle written as one event, in UTF-8 and up to the line limit, reaches the client
  exactly once, however the network cuts its bytes; \<open>connect\<close> is released and raises nothing, and when
  the stream ends the loop goes on with the shortest delay.
\<close>

theorem streaming_delivers:
  fixes pr t rs status bss ty ls b
  assumes "list_all transient rs" and "status < 400" and "status \<noteq> 204"
    and "utf8_encode (sse_encode ty ls) = Inr (concat bss)" and "is_pystr (sse_encode ty ls)"
    and "list_all one_line ls" and "one_line ty"
    and "length (sse_encode ty ls) \<le> default_max_line_chars"
    and "str_join [10] ls \<noteq> []" and "parse_bundle pr (str_join [10] ls) = Inr b"
  defines "t0 \<equiv> snd (streaming_work (map answered rs) (streaming_connect pr t))"
  defines "t1 \<equiv> snd (streaming_work [delivery status bss] t0)"
  shows "sg_delivered (current_state t1) = sg_delivered (current_state t) @ [b] \<and>
    sg_settled (current_state t1) \<and> connect_result t1 = Inr () \<and>
    fst (streaming_work [delivery status bss] t0) = [Finite 2]"
proof -
  obtain c where c: "sm_client (streaming_connect pr t) = Some c" "es_handlers c = streaming_handlers pr"
    "\<not> es_stop c" "sg_fatal_error (es_user c) = None" "sg_delivered (es_user c) = sg_delivered (current_state t)"
    "es_max_line_chars c = default_max_line_chars" "es_max_event_chars c = default_max_event_chars"
    by (simp add: streaming_connect_def Let_def start_heartbeat_def es_connect_def new_es_client_def streaming_close_def)
  from transient_run [OF assms(1) c(2,3)] obtain ds c1 where c1: "run_loop (map answered rs) c = (Unfinished, ds, c1)"
    "as_before c c1" "es_handlers c1 = streaming_handlers pr" "\<not> es_stop c1" by blast
  let ?m = "\<lparr>msg_data = str_join [10] ls, msg_type = Some ty, msg_id = None\<rparr>"
  have "length (sse_encode ty ls) \<le> default_max_event_chars"
    using assms(8) by (simp add: default_max_line_chars_def default_max_event_chars_def)
  then have read: "read_stream (delivery status bss) d = (Inr (), handle_event ?m d)"
    if "es_max_line_chars d = es_max_line_chars c1" "es_max_event_chars d = es_max_event_chars c1" "\<not> es_stop d"
    for d :: "streaming es_client"
    using encoded_event_delivered [OF assms(4-7,9) _ _ that(3)] assms(8) that(1,2) c(6,7) c1(2)
    by (simp add: as_before_def)
  have "\<exists>c'. run_loop [delivery status bss] c1 = (Unfinished, [backoff 1], c') \<and> sg_settled (es_user c') \<and>
      sg_delivered (es_user c') = sg_delivered (es_user c1) @ [b] \<and> sg_fatal_error (es_user c') = sg_fatal_error (es_user c1)"
    by (rule delivery_once [OF c1(3,4) assms(2,3), of bss ?m]) (simp_all add: read assms(10))
  then obtain c2 where c2: "run_loop [delivery status bss] c1 = (Unfinished, [backoff 1], c2)" "sg_settled (es_user c2)"
    "sg_delivered (es_user c2) = sg_delivered (es_user c1) @ [b]" "sg_fatal_error (es_user c2) = sg_fatal_error (es_user c1)"
    by blast
  have "sm_client t0 = Some c1" by (simp add: t0_def streaming_work_def c(1) c1(1))
  then show ?thesis using c c1(2) c2
    by (simp add: t1_def streaming_work_def current_state_def connect_result_def as_before_def backoff_def
        max_backoff_exponent_def)
qed

theorem streaming_delivers_witness:
  "\<exists>b. sg_delivered (current_state (snd (streaming_work
       [delivery 200 [[101], drop 1 (sse_encode (py ''update'') [empty_bundle_bytes])]]
       (snd (streaming_work (map answered [Inl HTTPError]) (streaming_connect (\<lambda>_. True) sample_streaming)))))) = [b]"
proof -
  let ?e = "sse_encode (py ''update'') [empty_bundle_bytes]"
  have e: "?e = [101] @ drop 1 ?e" by (simp add: sse_encode_def sse_line_def)
  have small: "list_all (\<lambda>c. c < 128) ?e"
    by (simp add: sse_encode_def sse_line_def empty_bundle_bytes_def)
  then have enc: "utf8_encode ?e = Inr ?e" by (rule utf8_encode_ascii)
  have str: "is_pystr ?e" using small unfolding is_pystr_def by (rule list.pred_mono_strong) simp
  have len: "length ?e \<le> default_max_line_chars"
    by (simp add: sse_encode_def sse_line_def empty_bundle_bytes_def default_max_line_chars_def)
  have "utf8_decode empty_bundle_bytes = empty_bundle_bytes"
    by (rule utf8_roundtrip) (simp_all add: is_pystr_def utf8_encode_ascii empty_bundle_bytes_def)
  then obtain b where b: "parse_bundle (\<lambda>_. True) empty_bundle_bytes = Inr b"
    using empty_bundle_parses [of "\<lambda>_. True"] by auto
  have lines: "one_line empty_bundle_bytes" "one_line (py ''update'')" "empty_bundle_bytes \<noteq> []"
    by (simp_all add: one_line_def empty_bundle_bytes_def)
  have cut: "concat [[101], drop 1 ?e] = ?e" using e by simp
  have fresh: "sg_delivered (current_state sample_streaming) = []"
    by (simp add: sample_streaming_def new_streaming_def current_state_def)
  have "sg_delivered (current_state (snd (streaming_work [delivery 200 [[101], drop 1 ?e]]
      (snd (streaming_work (map answered [Inl HTTPError]) (streaming_connect (\<lambda>_. True) sample_streaming)))))) =
      sg_delivered (current_state sample_streaming) @ [b]"
    by (rule streaming_delivers [where ty = "py ''update''" and ls = "[empty_bundle_bytes]", THEN conjunct1])
      (simp_all only: cut enc str len lines b list.pred_inject str_join.simps, simp_all add: transient_def)
  with fresh show ?thesis by simp
qed

end
