(* ===== verification/Client_State.thy ===== *)
theory Client_State
  imports Evaluator Values Telemetry "HOL-Library.List_Lexorder"
begin

text \<open>
  The state of a client and what happens to it: \<open>client.py\<close> without its construction and its
  transports, and \<open>Subscription\<close> of \<open>types.py\<close>. Every part that the source runs under its lock is one
  function on the record; \<open>get_value\<close> and \<open>_on_bundle\<close> run as a whole, so interleavings inside them
  are not modelled. A callback of the application is a number; what it is called with is recorded in
  \<open>cl_calls\<close>, and whether it raises does not matter, because the source catches that.
\<close>

section \<open>State\<close>

text \<open>Watchers are compared by identity, the number \<open>w_id\<close>; handlers with \<open>==\<close>.\<close>

record watcher =
  w_id :: nat
  w_handler :: nat
  w_default :: pyval
  w_context :: "supplied_context option"

record handlers =
  on_client_ready :: "nat list"
  on_configs_updated :: "nat list"
  on_config_evaluated :: "nat list"

datatype client_event = ClientReady | ConfigsUpdated | ConfigEvaluated

datatype client_call =
    CallWatcher nat pyval
  | CallReady nat
  | CallUpdated nat "pystr list" "pystr list"
  | CallEvaluated nat config_evaluation

record client_state =
  cl_metadata :: metadata
  cl_ready :: bool
  cl_closed :: bool
  cl_configs :: "(pystr, config) dict option"
  cl_segments :: segments
  cl_watchers :: "(pystr, watcher list) dict"
  cl_watchers_made :: nat
  cl_handlers :: handlers
  cl_ready_event :: bool
  cl_telemetry :: telemetry
  cl_calls :: "client_call list"

definition no_handlers :: handlers where
  "no_handlers = \<lparr>on_client_ready = [], on_configs_updated = [], on_config_evaluated = []\<rparr>"

definition new_client_state :: "metadata \<Rightarrow> telemetry \<Rightarrow> client_state" where
  "new_client_state metadata t =
     \<lparr>cl_metadata = metadata, cl_ready = False, cl_closed = False, cl_configs = None, cl_segments = [],
      cl_watchers = [], cl_watchers_made = 0, cl_handlers = no_handlers, cl_ready_event = False,
      cl_telemetry = t, cl_calls = []\<rparr>"

section \<open>Events\<close>

definition event_of_name :: "pystr \<Rightarrow> client_event result" where
  "event_of_name event =
     (if event = py ''client_ready'' then Inr ClientReady
      else if event = py ''configs_updated'' then Inr ConfigsUpdated
      else if event = py ''config_evaluated'' then Inr ConfigEvaluated
      else Inl ConfigDirectorValidationError)"

definition handlers_for :: "client_event \<Rightarrow> handlers \<Rightarrow> nat list" where
  "handlers_for e h =
     (case e of
        ClientReady \<Rightarrow> on_client_ready h
      | ConfigsUpdated \<Rightarrow> on_configs_updated h
      | ConfigEvaluated \<Rightarrow> on_config_evaluated h)"

definition set_handlers :: "client_event \<Rightarrow> nat list \<Rightarrow> client_state \<Rightarrow> client_state" where
  "set_handlers e hs c =
     c\<lparr>cl_handlers :=
         (case e of
            ClientReady \<Rightarrow> (cl_handlers c)\<lparr>on_client_ready := hs\<rparr>
          | ConfigsUpdated \<Rightarrow> (cl_handlers c)\<lparr>on_configs_updated := hs\<rparr>
          | ConfigEvaluated \<Rightarrow> (cl_handlers c)\<lparr>on_config_evaluated := hs\<rparr>)\<rparr>"

text \<open>A handler that is not callable is \<open>None\<close>.\<close>

definition client_on :: "pystr \<Rightarrow> nat option \<Rightarrow> client_state \<Rightarrow> unit result \<times> client_state" where
  "client_on event handler c =
     (case event_of_name event of
        Inl e \<Rightarrow> (Inl e, c)
      | Inr ev \<Rightarrow>
          (case handler of
             None \<Rightarrow> (Inl ConfigDirectorTypeError, c)
           | Some h \<Rightarrow> (Inr (), set_handlers ev (handlers_for ev (cl_handlers c) @ [h]) c)))"

definition remove_handler :: "client_event \<Rightarrow> nat \<Rightarrow> client_state \<Rightarrow> client_state" where
  "remove_handler ev h c = set_handlers ev (remove1 h (handlers_for ev (cl_handlers c))) c"

definition client_off :: "pystr \<Rightarrow> nat option \<Rightarrow> client_state \<Rightarrow> unit result \<times> client_state" where
  "client_off event handler c =
     (case event_of_name event of
        Inl e \<Rightarrow> (Inl e, c)
      | Inr ev \<Rightarrow>
          (Inr (), case handler of None \<Rightarrow> set_handlers ev [] c | Some h \<Rightarrow> remove_handler ev h c))"

definition emit :: "client_event \<Rightarrow> (nat \<Rightarrow> client_call) \<Rightarrow> client_state \<Rightarrow> client_state" where
  "emit ev mk_call c =
     c\<lparr>cl_calls := cl_calls c @ map mk_call (handlers_for ev (cl_handlers c))\<rparr>"

section \<open>Evaluation\<close>

definition validate_default :: "pyval \<Rightarrow> unit result" where
  "validate_default d =
     (case d of
        PScalar _ \<Rightarrow> Inr ()
      | PDict _ \<Rightarrow> Inr ()
      | PList _ \<Rightarrow> Inr ()
      | _ \<Rightarrow> Inl ConfigDirectorTypeError)"

definition with_kind :: "pystr option \<Rightarrow> supplied_context \<Rightarrow> checked_context" where
  "with_kind k c =
     \<lparr>ctx_id = ctx_id c, ctx_name = ctx_name c, ctx_traits = ctx_traits c,
      ctx_anonymous = ctx_anonymous c, ctx_kind = k\<rparr>"

definition context_to_evaluate ::
  "printable \<Rightarrow> datetime \<Rightarrow> supplied_context option \<Rightarrow> client_state \<Rightarrow>
    checked_context option \<times> client_state" where
  "context_to_evaluate pr now supplied c =
     (case supplied of
        None \<Rightarrow> (None, c)
      | Some x \<Rightarrow>
          (case ctx_kind x of
             None \<Rightarrow> (Some (with_kind None x), c)
           | Some kind \<Rightarrow>
               (case kind of
                  PStr k \<Rightarrow>
                    if is_valid_kind kind then (Some (with_kind (Some k) x), c)
                    else (None, c\<lparr>cl_telemetry :=
                            snd (telemetry_record_invalid now (kind_sample (py_str pr) kind) (cl_telemetry c))\<rparr>)
                | _ \<Rightarrow>
                    (None, c\<lparr>cl_telemetry :=
                       snd (telemetry_record_invalid now (kind_sample (py_str pr) kind) (cl_telemetry c))\<rparr>))))"

definition emit_evaluation ::
  "pystr \<Rightarrow> pyval \<Rightarrow> bool \<Rightarrow> evaluation_reason \<Rightarrow> pystr option \<Rightarrow> checked_context option \<Rightarrow>
    client_state \<Rightarrow> client_state" where
  "emit_evaluation key v is_default reason value_id cx c =
     emit ConfigEvaluated (\<lambda>h. CallEvaluated h
       \<lparr>ev_key = key, ev_value = v, ev_is_default = is_default, ev_reason = reason,
        ev_value_id = value_id, ev_context = cx\<rparr>) c"

text \<open>\<open>result.value_id or value_id_for(result.value, state.type)\<close>\<close>

definition result_value_id :: "printable \<Rightarrow> parse_result \<Rightarrow> pyval \<Rightarrow> pystr result" where
  "result_value_id pr r ty =
     (case pv_value_id r of
        Some i \<Rightarrow> if i \<noteq> [] then Inr i else value_id_for pr (pv_value r) ty
      | None \<Rightarrow> value_id_for pr (pv_value r) ty)"

definition record_and_emit ::
  "printable \<Rightarrow> datetime \<Rightarrow> evaluation_record \<Rightarrow> checked_context option \<Rightarrow> client_state \<Rightarrow>
    pyval result \<times> client_state" where
  "record_and_emit pr now r cx c =
     (let (x, t) = telemetry_record pr now r cx (cl_telemetry c); c1 = c\<lparr>cl_telemetry := t\<rparr>
      in case x of
           Inl e \<Rightarrow> (Inl e, c1)
         | Inr _ \<Rightarrow>
             (Inr (er_value r),
              emit_evaluation (er_key r) (er_value r) (er_used_default r) (er_reason r) (er_value_id r) cx c1))"

definition missing_reason :: "client_state \<Rightarrow> evaluation_reason" where
  "missing_reason c = (if cl_ready c then ConfigStateMissing else ClientNotReady)"

definition evaluate_definition ::
  "printable \<Rightarrow> datetime \<Rightarrow> pystr \<Rightarrow> config option \<Rightarrow> pyval \<Rightarrow> supplied_context option \<Rightarrow> segments \<Rightarrow>
    client_state \<Rightarrow> pyval result \<times> client_state" where
  "evaluate_definition pr now key cfg_opt d supplied segs c0 =
     (let (cx, c) = context_to_evaluate pr now supplied c0
      in case cfg_opt of
           None \<Rightarrow>
             (case value_id_for pr d PNone of
                Inl e \<Rightarrow> (Inl e, c)
              | Inr i \<Rightarrow>
                  record_and_emit pr now
                    \<lparr>er_key = key, er_default = d, er_value = d, er_used_default = True,
                     er_reason = missing_reason c, er_config_type = PNone, er_value_id = Some i\<rparr> cx c)
         | Some cfg \<Rightarrow>
             (let state = evaluate cfg (Some \<lparr>ec_context = cx, ec_metadata = Some (cl_metadata c)\<rparr>) (Some segs)
              in case bindE (parse_config_value state d) (\<lambda>r.
                        bindE (result_value_id pr r (st_type state)) (\<lambda>i. Inr (r, i))) of
                   Inl e \<Rightarrow> (Inl e, c)
                 | Inr (r, i) \<Rightarrow>
                     record_and_emit pr now
                       \<lparr>er_key = key, er_default = d, er_value = pv_value r,
                        er_used_default = pv_used_default r, er_reason = pv_reason r,
                        er_config_type = st_type state, er_value_id = Some i\<rparr> cx c))"

definition get_value ::
  "printable \<Rightarrow> datetime \<Rightarrow> pyval \<Rightarrow> pyval \<Rightarrow> supplied_context option \<Rightarrow> client_state \<Rightarrow>
    pyval result \<times> client_state" where
  "get_value pr now config_key d supplied c =
     (case config_key of
        PStr key \<Rightarrow>
          (case bindE (validate_config_key config_key) (\<lambda>_. validate_default d) of
             Inl e \<Rightarrow> (Inl e, c)
           | Inr _ \<Rightarrow>
               evaluate_definition pr now key
                 (case cl_configs c of None \<Rightarrow> None | Some cs \<Rightarrow> dict_get cs key)
                 d supplied (cl_segments c) c)
      | _ \<Rightarrow> (Inl ConfigDirectorValidationError, c))"

definition get_all_configs ::
  "printable \<Rightarrow> datetime \<Rightarrow> supplied_context option \<Rightarrow> pystr list option \<Rightarrow> client_state \<Rightarrow>
    (pystr, config_state) dict \<times> client_state" where
  "get_all_configs pr now supplied config_keys c0 =
     (let (cx, c) = context_to_evaluate pr now supplied c0
      in case cl_configs c of
           None \<Rightarrow> ([], c)
         | Some cs \<Rightarrow>
             if \<not> cl_ready c then ([], c)
             else
               (map (\<lambda>(k, cfg). (k, evaluate cfg
                       (Some \<lparr>ec_context = cx, ec_metadata = Some (cl_metadata c)\<rparr>) (Some (cl_segments c))))
                  (case config_keys of
                     None \<Rightarrow> cs | Some ks \<Rightarrow> filter (\<lambda>(k, cfg). k \<in> set ks) cs),
                c))"

section \<open>Watching\<close>

definition watch ::
  "pyval \<Rightarrow> pyval \<Rightarrow> nat option \<Rightarrow> supplied_context option \<Rightarrow> client_state \<Rightarrow>
    watcher result \<times> client_state" where
  "watch config_key d callback supplied c =
     (case config_key of
        PStr key \<Rightarrow>
          (case bindE (validate_config_key config_key) (\<lambda>_. validate_default d) of
             Inl e \<Rightarrow> (Inl e, c)
           | Inr _ \<Rightarrow>
               (case callback of
                  None \<Rightarrow> (Inl ConfigDirectorTypeError, c)
                | Some h \<Rightarrow>
                    let w = \<lparr>w_id = cl_watchers_made c, w_handler = h, w_default = d, w_context = supplied\<rparr>;
                        ws = (case dict_get (cl_watchers c) key of None \<Rightarrow> [] | Some ws \<Rightarrow> ws)
                    in (Inr w, c\<lparr>cl_watchers_made := cl_watchers_made c + 1,
                                 cl_watchers := dict_set key (ws @ [w]) (cl_watchers c)\<rparr>)))
      | _ \<Rightarrow> (Inl ConfigDirectorValidationError, c))"

fun remove_first :: "('a \<Rightarrow> bool) \<Rightarrow> 'a list \<Rightarrow> 'a list" where
  "remove_first P [] = []"
| "remove_first P (x # xs) = (if P x then xs else x # remove_first P xs)"

definition unwatch :: "pystr \<Rightarrow> nat option \<Rightarrow> client_state \<Rightarrow> client_state" where
  "unwatch key callback c =
     (case dict_get (cl_watchers c) key of
        None \<Rightarrow> c
      | Some ws \<Rightarrow>
          if ws = [] then c
          else
            c\<lparr>cl_watchers := dict_set key
                (case callback of
                   None \<Rightarrow> []
                 | Some h \<Rightarrow> remove_first (\<lambda>w. w_handler w = h) ws) (cl_watchers c)\<rparr>)"

definition unwatch_all :: "client_state \<Rightarrow> client_state" where
  "unwatch_all c = c\<lparr>cl_watchers := []\<rparr>"

definition remove_watcher :: "pystr \<Rightarrow> watcher \<Rightarrow> client_state \<Rightarrow> client_state" where
  "remove_watcher key w c =
     (case dict_get (cl_watchers c) key of
        None \<Rightarrow> c
      | Some ws \<Rightarrow>
          if w_id w \<in> set (map w_id ws)
          then c\<lparr>cl_watchers := dict_set key (remove_first (\<lambda>x. w_id x = w_id w) ws) (cl_watchers c)\<rparr>
          else c)"

text \<open>A subscription: what closing it does, once.\<close>

datatype cancellation = CancelWatch pystr watcher | CancelHandler client_event nat

record subscription =
  sub_cancel :: cancellation
  sub_closed :: bool

definition subscription_close :: "subscription \<Rightarrow> client_state \<Rightarrow> subscription \<times> client_state" where
  "subscription_close s c =
     (if sub_closed s then (s, c)
      else (s\<lparr>sub_closed := True\<rparr>,
            case sub_cancel s of
              CancelWatch key w \<Rightarrow> remove_watcher key w c
            | CancelHandler ev h \<Rightarrow> remove_handler ev h c))"

section \<open>Bundles\<close>

definition uses_any_segment :: "config \<Rightarrow> segments \<Rightarrow> bool" where
  "uses_any_segment cfg segs \<longleftrightarrow>
     list_ex (\<lambda>r. case r of
         ConditionalRule cr \<Rightarrow>
           list_ex (\<lambda>cond. case cond of
               SegmentCondition sc \<Rightarrow> dict_mem (sc_segment_id sc) segs
             | AttributeCondition _ \<Rightarrow> False) (cr_conditions cr)
       | PercentageRule _ \<Rightarrow> False) (tr_rules (cfg_target cfg))"

text \<open>The configs a bundle leaves behind: the unreadable keys of a full bundle keep what they had.\<close>

definition merge_configs ::
  "(pystr, config) dict option \<Rightarrow> config_bundle \<Rightarrow> (pystr, config) dict" where
  "merge_configs previous b =
     (case previous of
        None \<Rightarrow> cb_configs b
      | Some cs \<Rightarrow>
          if cb_kind b = Full then
            fold (\<lambda>k d. case dict_get cs k of None \<Rightarrow> d | Some cfg \<Rightarrow> dict_set k cfg d)
              (cb_unreadable_keys b) (cb_configs b)
          else dict_update cs (cb_configs b))"

definition merge_segments :: "(pystr, config) dict option \<Rightarrow> segments \<Rightarrow> config_bundle \<Rightarrow> segments" where
  "merge_segments previous segs b =
     (if previous = None \<or> cb_kind b = Full then cb_segments b else dict_update segs (cb_segments b))"

definition removed_keys :: "(pystr, config) dict option \<Rightarrow> config_bundle \<Rightarrow> pystr list" where
  "removed_keys previous b =
     (case previous of
        None \<Rightarrow> []
      | Some cs \<Rightarrow>
          if cb_kind b = Full
          then sort (filter (\<lambda>k. \<not> dict_mem k (merge_configs previous b)) (dict_keys cs)) else [])"

definition updated_keys :: "(pystr, config) dict option \<Rightarrow> config_bundle \<Rightarrow> pystr list" where
  "updated_keys previous b =
     sort (remdups (dict_keys (cb_configs b) @
       map fst (filter (\<lambda>(k, cfg). uses_any_segment cfg (cb_segments b)) (merge_configs previous b))))"

definition notify_watcher ::
  "printable \<Rightarrow> datetime \<Rightarrow> pystr \<Rightarrow> config option \<Rightarrow> segments \<Rightarrow> watcher \<Rightarrow> client_state \<Rightarrow> client_state" where
  "notify_watcher pr now key cfg_opt segs w c =
     (case evaluate_definition pr now key cfg_opt (w_default w) (w_context w) segs c of
        (Inl e, c1) \<Rightarrow> c1
      | (Inr v, c1) \<Rightarrow> c1\<lparr>cl_calls := cl_calls c1 @ [CallWatcher (w_handler w) v]\<rparr>)"

definition notify_watchers ::
  "printable \<Rightarrow> datetime \<Rightarrow> (pystr, watcher list) dict \<Rightarrow> (pystr, config) dict \<Rightarrow> segments \<Rightarrow>
    client_state \<Rightarrow> client_state" where
  "notify_watchers pr now watchers configs segs c =
     fold (\<lambda>(key, ws). fold (notify_watcher pr now key (dict_get configs key) segs) ws) watchers c"

definition on_bundle :: "printable \<Rightarrow> datetime \<Rightarrow> config_bundle \<Rightarrow> client_state \<Rightarrow> client_state" where
  "on_bundle pr now b c =
     (if cl_closed c then c
      else
        let configs = merge_configs (cl_configs c) b;
            segs = merge_segments (cl_configs c) (cl_segments c) b;
            removed = removed_keys (cl_configs c) b;
            updated = updated_keys (cl_configs c) b;
            first = \<not> cl_ready c;
            watchers = filter (\<lambda>(key, ws). ws \<noteq> [] \<and> (key \<in> set updated \<or> key \<in> set removed)) (cl_watchers c);
            c1 = c\<lparr>cl_configs := Some configs, cl_segments := segs, cl_ready := True\<rparr>;
            c2 = emit ConfigsUpdated (\<lambda>h. CallUpdated h updated removed) c1;
            c3 = notify_watchers pr now watchers configs segs c2
        in if first then emit ClientReady CallReady (c3\<lparr>cl_ready_event := True\<rparr>) else c3)"

section \<open>Closing\<close>

definition client_close_state :: "pool \<Rightarrow> datetime \<Rightarrow> client_state \<Rightarrow> unit result \<times> client_state" where
  "client_close_state pool now c =
     (if cl_closed c then (Inr (), c)
      else
        let c1 = c\<lparr>cl_closed := True, cl_ready := False, cl_watchers := [], cl_handlers := no_handlers,
                  cl_ready_event := True\<rparr>;
            (r, t) = telemetry_close pool now (cl_telemetry c1)
        in (r, c1\<lparr>cl_telemetry := t\<rparr>))"

section \<open>Evaluation without its side effects\<close>

definition checked_of :: "supplied_context option \<Rightarrow> checked_context option" where
  "checked_of supplied =
     (case supplied of
        None \<Rightarrow> None
      | Some x \<Rightarrow>
          (case ctx_kind x of
             None \<Rightarrow> Some (with_kind None x)
           | Some (PStr k) \<Rightarrow> if is_valid_kind (PStr k) then Some (with_kind (Some k) x) else None
           | Some _ \<Rightarrow> None))"

text \<open>The record of an evaluation, or the exception that prevents it.\<close>

definition evaluation_of ::
  "printable \<Rightarrow> metadata \<Rightarrow> evaluation_reason \<Rightarrow> pystr \<Rightarrow> config option \<Rightarrow> pyval \<Rightarrow> supplied_context option \<Rightarrow>
    segments \<Rightarrow> evaluation_record result" where
  "evaluation_of pr meta missing key cfg_opt d supplied segs =
     (case cfg_opt of
        None \<Rightarrow>
          bindE (value_id_for pr d PNone) (\<lambda>i.
            Inr \<lparr>er_key = key, er_default = d, er_value = d, er_used_default = True,
              er_reason = missing, er_config_type = PNone, er_value_id = Some i\<rparr>)
      | Some cfg \<Rightarrow>
          (let state = evaluate cfg (Some \<lparr>ec_context = checked_of supplied, ec_metadata = Some meta\<rparr>) (Some segs)
           in bindE (parse_config_value state d) (\<lambda>r.
              bindE (result_value_id pr r (st_type state)) (\<lambda>i.
                Inr \<lparr>er_key = key, er_default = d, er_value = pv_value r,
                  er_used_default = pv_used_default r, er_reason = pv_reason r,
                  er_config_type = st_type state, er_value_id = Some i\<rparr>))))"

definition collects :: "telemetry \<Rightarrow> bool" where
  "collects t = (case t of Discarding \<Rightarrow> False | Collecting c \<Rightarrow> tc_collecting c)"

text \<open>What a caller or a watcher gets: a value unless the evaluation, or recording it, raises.\<close>

definition value_of ::
  "printable \<Rightarrow> bool \<Rightarrow> metadata \<Rightarrow> evaluation_reason \<Rightarrow> pystr \<Rightarrow> config option \<Rightarrow> pyval \<Rightarrow>
    supplied_context option \<Rightarrow> segments \<Rightarrow> pyval option" where
  "value_of pr collecting meta missing key cfg_opt d supplied segs =
     (case evaluation_of pr meta missing key cfg_opt d supplied segs of
        Inl _ \<Rightarrow> None
      | Inr r \<Rightarrow> if collecting \<longrightarrow> renders pr r then Some (er_value r) else None)"

lemma context_to_evaluate_state:
  "\<exists>t. context_to_evaluate pr now supplied c = (checked_of supplied, c\<lparr>cl_telemetry := t\<rparr>) \<and>
     collects t = collects (cl_telemetry c)"
proof -
  have inv: "collects (snd (telemetry_record_invalid now sample t)) = collects t" for sample t
    by (auto simp: collects_def telemetry_record_invalid_def record_invalid_context_def split_def Let_def
        split: telemetry.splits)
  show ?thesis
  proof (cases "snd (context_to_evaluate pr now supplied c) = c")
    case True
    then have "context_to_evaluate pr now supplied c = (checked_of supplied, c\<lparr>cl_telemetry := cl_telemetry c\<rparr>)"
      by (auto simp: context_to_evaluate_def checked_of_def prod_eq_iff
          split: option.splits pyval.splits scalar.splits if_splits)
    then show ?thesis by blast
  next
    case False
    then obtain kind where "context_to_evaluate pr now supplied c = (checked_of supplied,
        c\<lparr>cl_telemetry := snd (telemetry_record_invalid now (kind_sample (py_str pr) kind) (cl_telemetry c))\<rparr>)"
      by (auto simp: context_to_evaluate_def checked_of_def
          split: option.splits pyval.splits scalar.splits if_splits)
    then show ?thesis using inv by blast
  qed
qed

lemma not_renders_event: "\<not> renders pr r \<Longrightarrow> \<exists>e. evaluated_config_event_of pr r i k = Inl e"
  by (cases "telemetry_value_of pr (er_default r) None (er_config_type r)";
      cases "telemetry_value_of pr (er_value r) (er_value_id r) (er_config_type r)")
    (auto simp: renders_def evaluated_config_event_of_def)

lemma record_evaluation_result:
  "isl (fst (record_evaluation pr now r cx c)) \<longleftrightarrow> tc_collecting c \<and> \<not> renders pr r"
proof (cases "tc_collecting c")
  case True
  let ?i = "map_option (\<lambda>(k, i, x). i) (reported_context cx)"
  let ?k = "map_option (\<lambda>(k, i, x). k) (reported_context cx)"
  have "isl (evaluated_config_event_of pr r ?i ?k) \<longleftrightarrow> \<not> renders pr r"
    using renders_event [of pr r ?i ?k] not_renders_event [of pr r ?i ?k] by (cases "renders pr r") auto
  then show ?thesis using True
    by (cases "evaluated_config_event_of pr r ?i ?k") (simp_all add: record_evaluation_def Let_def)
qed (simp add: record_evaluation_def)

lemma record_evaluation_collecting:
  "tc_collecting (snd (record_evaluation pr now r cx c)) = tc_collecting c"
  by (auto simp: record_evaluation_def Let_def split: sum.splits option.splits)

lemma telemetry_record_state:
  "collects (snd (telemetry_record pr now r cx t)) = collects t \<and>
   (isl (fst (telemetry_record pr now r cx t)) \<longleftrightarrow> collects t \<and> \<not> renders pr r)"
  using record_evaluation_result record_evaluation_collecting
  by (auto simp: telemetry_record_def collects_def split_def Let_def split: telemetry.splits)

definition is_watcher_call :: "client_call \<Rightarrow> bool" where
  "is_watcher_call x = (case x of CallWatcher _ _ \<Rightarrow> True | _ \<Rightarrow> False)"

definition is_ready_call :: "client_call \<Rightarrow> bool" where
  "is_ready_call x = (case x of CallReady _ \<Rightarrow> True | _ \<Rightarrow> False)"

definition is_bundle_call :: "client_call \<Rightarrow> bool" where
  "is_bundle_call x = (case x of CallEvaluated _ _ \<Rightarrow> False | _ \<Rightarrow> True)"

text \<open>What an evaluation leaves of the client: everything but telemetry and evaluation events.\<close>

definition evaluates :: "client_state \<Rightarrow> client_state \<Rightarrow> bool" where
  "evaluates c c' \<longleftrightarrow>
     (\<exists>t calls. c' = c\<lparr>cl_telemetry := t, cl_calls := cl_calls c @ calls\<rparr> \<and>
        collects t = collects (cl_telemetry c) \<and>
        list_all (\<lambda>x. \<not> is_bundle_call x) calls)"

lemma record_and_emit_result:
  "evaluates c (snd (record_and_emit pr now r cx c)) \<and>
   (case fst (record_and_emit pr now r cx c) of Inl _ \<Rightarrow> None | Inr v \<Rightarrow> Some v) =
     (if collects (cl_telemetry c) \<longrightarrow> renders pr r then Some (er_value r) else None)"
proof -
  obtain x t where xt: "telemetry_record pr now r cx (cl_telemetry c) = (x, t)" by fastforce
  note tr = telemetry_record_state [of pr now r cx "cl_telemetry c", unfolded xt]
  let ?calls = "map (\<lambda>h. CallEvaluated h \<lparr>ev_key = er_key r, ev_value = er_value r,
    ev_is_default = er_used_default r, ev_reason = er_reason r, ev_value_id = er_value_id r, ev_context = cx\<rparr>)
    (on_config_evaluated (cl_handlers c))"
  show ?thesis
  proof (cases x)
    case (Inl e)
    have "evaluates c (c\<lparr>cl_telemetry := t, cl_calls := cl_calls c @ []\<rparr>)"
      unfolding evaluates_def using tr by (intro exI [of _ t] exI [of _ "[]"]) simp
    with Inl tr xt show ?thesis by (simp add: record_and_emit_def)
  next
    case (Inr u)
    have "evaluates c (c\<lparr>cl_telemetry := t, cl_calls := cl_calls c @ ?calls\<rparr>)"
      unfolding evaluates_def using tr
      by (intro exI [of _ t] exI [of _ ?calls])
        (simp add: list_all_iff is_bundle_call_def)
    with Inr tr xt show ?thesis
      by (auto simp: record_and_emit_def emit_evaluation_def emit_def handlers_for_def)
  qed
qed

lemma evaluates_refl: "evaluates c c"
  unfolding evaluates_def by (intro exI [of _ "cl_telemetry c"] exI [of _ "[]"]) simp

lemma evaluates_telemetry:
  assumes "evaluates (c\<lparr>cl_telemetry := t\<rparr>) c'" and "collects t = collects (cl_telemetry c)"
  shows "evaluates c c'"
proof -
  obtain t' calls where "c' = c\<lparr>cl_telemetry := t\<rparr>\<lparr>cl_telemetry := t', cl_calls := cl_calls c @ calls\<rparr>"
    "collects t' = collects t" "list_all (\<lambda>x. \<not> is_bundle_call x) calls"
    using assms(1) unfolding evaluates_def by auto
  then show ?thesis unfolding evaluates_def
    by (intro exI [of _ t'] exI [of _ calls]) (simp add: assms(2))
qed

lemma evaluate_definition_eq:
  "\<exists>t. collects t = collects (cl_telemetry c) \<and>
     evaluate_definition pr now key cfg_opt d supplied segs c =
       (case evaluation_of pr (cl_metadata c) (missing_reason c) key cfg_opt d supplied segs of
          Inl e \<Rightarrow> (Inl e, c\<lparr>cl_telemetry := t\<rparr>)
        | Inr r \<Rightarrow> record_and_emit pr now r (checked_of supplied) (c\<lparr>cl_telemetry := t\<rparr>))"
proof -
  obtain t where t: "context_to_evaluate pr now supplied c = (checked_of supplied, c\<lparr>cl_telemetry := t\<rparr>)"
    "collects t = collects (cl_telemetry c)" using context_to_evaluate_state by blast
  have "evaluate_definition pr now key cfg_opt d supplied segs c =
      (case evaluation_of pr (cl_metadata c) (missing_reason c) key cfg_opt d supplied segs of
         Inl e \<Rightarrow> (Inl e, c\<lparr>cl_telemetry := t\<rparr>)
       | Inr r \<Rightarrow> record_and_emit pr now r (checked_of supplied) (c\<lparr>cl_telemetry := t\<rparr>))"
  proof (cases cfg_opt)
    case None
    then show ?thesis
      by (cases "value_id_for pr d PNone")
        (simp_all add: evaluate_definition_def evaluation_of_def t(1) missing_reason_def)
  next
    case (Some cfg)
    define state where "state = evaluate cfg
      (Some \<lparr>ec_context = checked_of supplied, ec_metadata = Some (cl_metadata c)\<rparr>) (Some segs)"
    show ?thesis
    proof (cases "parse_config_value state d")
      case (Inr r)
      then show ?thesis
        by (cases "result_value_id pr r (st_type state)")
          (simp_all add: evaluate_definition_def evaluation_of_def t(1) Some state_def Let_def)
    qed (simp add: evaluate_definition_def evaluation_of_def t(1) Some state_def Let_def)
  qed
  with t(2) show ?thesis by blast
qed

lemma evaluate_definition_result:
  "evaluates c (snd (evaluate_definition pr now key cfg_opt d supplied segs c)) \<and>
   (case fst (evaluate_definition pr now key cfg_opt d supplied segs c) of Inl _ \<Rightarrow> None | Inr v \<Rightarrow> Some v) =
     value_of pr (collects (cl_telemetry c)) (cl_metadata c) (missing_reason c) key cfg_opt d supplied segs"
proof -
  obtain t where t: "collects t = collects (cl_telemetry c)"
    "evaluate_definition pr now key cfg_opt d supplied segs c =
       (case evaluation_of pr (cl_metadata c) (missing_reason c) key cfg_opt d supplied segs of
          Inl e \<Rightarrow> (Inl e, c\<lparr>cl_telemetry := t\<rparr>)
        | Inr r \<Rightarrow> record_and_emit pr now r (checked_of supplied) (c\<lparr>cl_telemetry := t\<rparr>))"
    using evaluate_definition_eq by blast
  then have "evaluates c (c\<lparr>cl_telemetry := t\<rparr>)" using evaluates_telemetry [OF evaluates_refl] by simp
  with t show ?thesis
    using record_and_emit_result [of "c\<lparr>cl_telemetry := t\<rparr>" pr now _ "checked_of supplied"] evaluates_telemetry [OF _ t(1)]
    by (auto simp: value_of_def split: sum.splits)
qed

end
