(* ===== verification/Client_Updates.thy ===== *)
theory Client_Updates
  imports Client_State "HOL-Library.Sublist"
begin

text \<open>
  What bundles do to a client: \<open>_on_bundle\<close> of \<open>client.py\<close> against a map from keys to configs, who is
  notified of what, and what stays as it was. Operations of a client in any order are the relation
  \<open>client_run\<close>; what every client reached by it satisfies is \<open>client_ok\<close>.
\<close>

section \<open>Bundles as maps\<close>

text \<open>The contract of a bundle, on maps: what the configs and the segments of the client become.\<close>

record known =
  known_configs :: "pystr \<rightharpoonup> config"
  known_segments :: "pystr \<rightharpoonup> segment"

definition apply_bundle :: "config_bundle \<Rightarrow> known option \<Rightarrow> known option" where
  "apply_bundle b previous =
     Some (case previous of
        None \<Rightarrow> \<lparr>known_configs = dict_get (cb_configs b), known_segments = dict_get (cb_segments b)\<rparr>
      | Some m \<Rightarrow>
          if cb_kind b = Full then
            \<lparr>known_configs = dict_get (cb_configs b) ++ known_configs m |` set (cb_unreadable_keys b),
             known_segments = dict_get (cb_segments b)\<rparr>
          else
            \<lparr>known_configs = known_configs m ++ dict_get (cb_configs b),
             known_segments = known_segments m ++ dict_get (cb_segments b)\<rparr>)"

definition known_of :: "client_state \<Rightarrow> known option" where
  "known_of c =
     map_option (\<lambda>cs. \<lparr>known_configs = dict_get cs, known_segments = dict_get (cl_segments c)\<rparr>) (cl_configs c)"

lemma dict_get_update_map: "dict_ok e \<Longrightarrow> dict_get (dict_update d e) = dict_get d ++ dict_get e"
  by (rule ext) (simp add: dict_get_update map_add_def split: option.splits)

lemma dict_get_keep:
  "dict_get (fold (\<lambda>k d. case dict_get cs k of None \<Rightarrow> d | Some v \<Rightarrow> dict_set k v d) ks d) =
     dict_get d ++ dict_get cs |` set ks"
proof (induction ks arbitrary: d)
  case (Cons k ks)
  show ?case
    by (rule ext) (simp add: Cons map_add_def restrict_map_def split: option.splits)
qed (simp add: restrict_map_def map_add_def)

lemma merge_configs_map:
  assumes "bundle_ok b"
  shows "dict_get (merge_configs previous b) =
    (case previous of
       None \<Rightarrow> dict_get (cb_configs b)
     | Some cs \<Rightarrow> if cb_kind b = Full then dict_get (cb_configs b) ++ dict_get cs |` set (cb_unreadable_keys b)
         else dict_get cs ++ dict_get (cb_configs b))"
  using assms by (simp add: merge_configs_def bundle_ok_def dict_get_keep dict_get_update_map split: option.splits)

lemma merge_segments_map:
  assumes "bundle_ok b"
  shows "dict_get (merge_segments previous segs b) =
    (if previous = None \<or> cb_kind b = Full then dict_get (cb_segments b)
     else dict_get segs ++ dict_get (cb_segments b))"
  using assms by (simp add: merge_segments_def bundle_ok_def dict_get_update_map)

section \<open>What a step changes\<close>

lemma evaluates_fields:
  assumes "evaluates c c'"
  shows "cl_metadata c' = cl_metadata c" "cl_ready c' = cl_ready c" "cl_closed c' = cl_closed c"
    "cl_configs c' = cl_configs c" "cl_segments c' = cl_segments c" "cl_watchers c' = cl_watchers c"
    "cl_watchers_made c' = cl_watchers_made c" "cl_handlers c' = cl_handlers c"
    "cl_ready_event c' = cl_ready_event c" "collects (cl_telemetry c') = collects (cl_telemetry c)"
    "filter is_watcher_call (cl_calls c') = filter is_watcher_call (cl_calls c)"
    "filter is_ready_call (cl_calls c') = filter is_ready_call (cl_calls c)"
    "filter is_bundle_call (cl_calls c') = filter is_bundle_call (cl_calls c)"
  using assms unfolding evaluates_def
  by (auto simp: list_all_iff filter_empty_conv is_watcher_call_def is_ready_call_def is_bundle_call_def
      split: client_call.splits)

text \<open>Everything but telemetry and the calls made.\<close>

definition same_but_calls :: "client_state \<Rightarrow> client_state \<Rightarrow> bool" where
  "same_but_calls c c' \<longleftrightarrow>
     cl_metadata c' = cl_metadata c \<and> cl_ready c' = cl_ready c \<and> cl_closed c' = cl_closed c \<and>
     cl_configs c' = cl_configs c \<and> cl_segments c' = cl_segments c \<and> cl_watchers c' = cl_watchers c \<and>
     cl_watchers_made c' = cl_watchers_made c \<and> cl_handlers c' = cl_handlers c \<and>
     cl_ready_event c' = cl_ready_event c \<and> collects (cl_telemetry c') = collects (cl_telemetry c)"

lemma same_but_calls_refl [simp, intro]: "same_but_calls c c"
  by (simp add: same_but_calls_def)

lemma same_but_calls_trans: "same_but_calls a b \<Longrightarrow> same_but_calls b c \<Longrightarrow> same_but_calls a c"
  by (simp add: same_but_calls_def)

lemma evaluates_same: "evaluates c c' \<Longrightarrow> same_but_calls c c'"
  by (simp add: evaluates_fields same_but_calls_def)

lemma emit_same: "same_but_calls c (emit ev mk c)"
  by (simp add: same_but_calls_def emit_def)

text \<open>What a watcher is told when the configs are those of \<open>cs\<close>.\<close>

definition watcher_calls ::
  "printable \<Rightarrow> client_state \<Rightarrow> pystr \<Rightarrow> config option \<Rightarrow> segments \<Rightarrow> watcher \<Rightarrow> client_call list" where
  "watcher_calls pr c key cfg segs w =
     (case value_of pr (collects (cl_telemetry c)) (cl_metadata c) (missing_reason c) key cfg
             (w_default w) (w_context w) segs of
        None \<Rightarrow> []
      | Some v \<Rightarrow> [CallWatcher (w_handler w) v])"

lemma watcher_calls_same: "same_but_calls c c' \<Longrightarrow> watcher_calls pr c' = watcher_calls pr c"
  by (intro ext) (simp add: watcher_calls_def missing_reason_def same_but_calls_def)

lemma notify_watcher_effect:
  "same_but_calls c (notify_watcher pr now key cfg segs w c) \<and>
   filter is_watcher_call (cl_calls (notify_watcher pr now key cfg segs w c)) =
     filter is_watcher_call (cl_calls c) @ watcher_calls pr c key cfg segs w \<and>
   filter is_ready_call (cl_calls (notify_watcher pr now key cfg segs w c)) = filter is_ready_call (cl_calls c)"
proof -
  obtain x c1 where x: "evaluate_definition pr now key cfg (w_default w) (w_context w) segs c = (x, c1)"
    by fastforce
  note r = evaluate_definition_result [of c pr now key cfg "w_default w" "w_context w" segs, unfolded x fst_conv snd_conv]
  then have e: "evaluates c c1" by simp
  have "same_but_calls c (c1\<lparr>cl_calls := k\<rparr>)" for k
    using evaluates_same [OF e] by (simp add: same_but_calls_def)
  moreover have "watcher_calls pr c key cfg segs w =
      (case x of Inl _ \<Rightarrow> [] | Inr v \<Rightarrow> [CallWatcher (w_handler w) v])"
    unfolding watcher_calls_def r [THEN conjunct2, symmetric] by (simp split: sum.splits)
  ultimately show ?thesis using evaluates_same [OF e] evaluates_fields(11,12) [OF e]
    by (cases x) (simp_all add: notify_watcher_def x is_watcher_call_def is_ready_call_def)
qed

lemma notify_fold_effect:
  "same_but_calls c (fold (notify_watcher pr now key cfg segs) ws c) \<and>
   filter is_watcher_call (cl_calls (fold (notify_watcher pr now key cfg segs) ws c)) =
     filter is_watcher_call (cl_calls c) @ concat (map (watcher_calls pr c key cfg segs) ws) \<and>
   filter is_ready_call (cl_calls (fold (notify_watcher pr now key cfg segs) ws c)) =
     filter is_ready_call (cl_calls c)"
proof (induction ws arbitrary: c)
  case (Cons w ws)
  let ?c = "notify_watcher pr now key cfg segs w c"
  note w = notify_watcher_effect [of c pr now key cfg segs w]
  then have "watcher_calls pr ?c = watcher_calls pr c" by (simp add: watcher_calls_same)
  then show ?case using w Cons [of ?c] same_but_calls_trans by (auto intro: same_but_calls_trans)
qed (simp add: same_but_calls_refl)

lemma notify_watchers_effect:
  "same_but_calls c (notify_watchers pr now watchers configs segs c) \<and>
   filter is_watcher_call (cl_calls (notify_watchers pr now watchers configs segs c)) =
     filter is_watcher_call (cl_calls c) @
     concat (map (\<lambda>(k, ws). concat (map (watcher_calls pr c k (dict_get configs k) segs) ws)) watchers) \<and>
   filter is_ready_call (cl_calls (notify_watchers pr now watchers configs segs c)) =
     filter is_ready_call (cl_calls c)"
  unfolding notify_watchers_def
proof (induction watchers arbitrary: c)
  case (Cons kws watchers)
  obtain k ws where kws: "kws = (k, ws)" by fastforce
  let ?c = "fold (notify_watcher pr now k (dict_get configs k) segs) ws c"
  note f = notify_fold_effect [of c pr now k "dict_get configs k" segs ws]
  then have "watcher_calls pr ?c = watcher_calls pr c" by (simp add: watcher_calls_same)
  then show ?case using f Cons [of ?c] by (auto simp: kws intro: same_but_calls_trans)
qed (simp add: same_but_calls_refl)

text \<open>The watchers a bundle concerns, in the order of their keys and of their registration.\<close>

definition concerned :: "config_bundle \<Rightarrow> client_state \<Rightarrow> (pystr, watcher list) dict" where
  "concerned b c =
     filter (\<lambda>(key, ws). ws \<noteq> [] \<and>
       (key \<in> set (updated_keys (cl_configs c) b) \<or> key \<in> set (removed_keys (cl_configs c) b))) (cl_watchers c)"

lemma on_bundle_effect:
  fixes b :: config_bundle and c :: client_state
  assumes "\<not> cl_closed c"
  defines "configs \<equiv> merge_configs (cl_configs c) b"
    and "segs \<equiv> merge_segments (cl_configs c) (cl_segments c) b"
  defines "c1 \<equiv> c\<lparr>cl_configs := Some configs, cl_segments := segs, cl_ready := True,
    cl_ready_event := cl_ready_event c \<or> \<not> cl_ready c\<rparr>"
  shows "same_but_calls c1 (on_bundle pr now b c)"
    and "filter is_watcher_call (cl_calls (on_bundle pr now b c)) = filter is_watcher_call (cl_calls c) @
      concat (map (\<lambda>(k, ws). concat (map (watcher_calls pr c1 k (dict_get configs k) segs) ws)) (concerned b c))"
    and "filter is_ready_call (cl_calls (on_bundle pr now b c)) = filter is_ready_call (cl_calls c) @
      (if cl_ready c then [] else map CallReady (on_client_ready (cl_handlers c)))"
proof -
  let ?c1 = "c\<lparr>cl_configs := Some configs, cl_segments := segs, cl_ready := True\<rparr>"
  let ?c2 = "emit ConfigsUpdated (\<lambda>h. CallUpdated h (updated_keys (cl_configs c) b) (removed_keys (cl_configs c) b)) ?c1"
  let ?c3 = "notify_watchers pr now (concerned b c) configs segs ?c2"
  have b: "on_bundle pr now b c =
      (if cl_ready c then ?c3 else emit ClientReady CallReady (?c3\<lparr>cl_ready_event := True\<rparr>))"
    using assms(1) by (simp add: on_bundle_def configs_def segs_def concerned_def Let_def)
  note n = notify_watchers_effect [of ?c2 pr now "concerned b c" configs segs]
  have s3: "same_but_calls ?c1 ?c3" using n emit_same same_but_calls_trans by blast
  have wc: "watcher_calls pr ?c2 = watcher_calls pr c1"
    by (intro ext) (simp add: watcher_calls_def missing_reason_def c1_def emit_def)
  have calls2: "filter is_watcher_call (cl_calls ?c2) = filter is_watcher_call (cl_calls c)"
    "filter is_ready_call (cl_calls ?c2) = filter is_ready_call (cl_calls c)"
    by (simp_all add: emit_def is_watcher_call_def is_ready_call_def filter_empty_conv)
  show "same_but_calls c1 (on_bundle pr now b c)"
    using s3 by (simp add: b same_but_calls_def c1_def emit_def)
  show "filter is_watcher_call (cl_calls (on_bundle pr now b c)) = filter is_watcher_call (cl_calls c) @
      concat (map (\<lambda>(k, ws). concat (map (watcher_calls pr c1 k (dict_get configs k) segs) ws)) (concerned b c))"
    using n unfolding b wc calls2 by (auto simp: emit_def is_watcher_call_def filter_empty_conv)
  show "filter is_ready_call (cl_calls (on_bundle pr now b c)) = filter is_ready_call (cl_calls c) @
      (if cl_ready c then [] else map CallReady (on_client_ready (cl_handlers c)))"
    using n s3 unfolding b calls2
    by (auto simp: same_but_calls_def emit_def is_ready_call_def handlers_for_def filter_id_conv)
qed

section \<open>Operations in any order\<close>

text \<open>
  What the application and the transports do to a client. \<open>get_value\<close> and \<open>get_all_configs\<close> of any
  caller, callbacks included, are steps like the others.
\<close>

inductive client_step :: "client_state \<Rightarrow> client_state \<Rightarrow> bool" where
  step_on: "client_step c (snd (client_on event handler c))"
| step_off: "client_step c (snd (client_off event handler c))"
| step_watch: "client_step c (snd (watch key d callback supplied c))"
| step_unwatch: "client_step c (unwatch key' callback c)"
| step_unwatch_all: "client_step c (unwatch_all c)"
| step_subscription: "client_step c (snd (subscription_close s c))"
| step_get_value: "client_step c (snd (get_value pr now key d supplied c))"
| step_get_all: "client_step c (snd (get_all_configs pr now supplied keys c))"
| step_bundle: "bundle_ok b \<Longrightarrow> client_step c (on_bundle pr now b c)"
| step_close: "client_step c (snd (client_close_state pool now c))"

inductive client_run :: "client_state \<Rightarrow> client_state \<Rightarrow> bool" where
  start: "client_run c c"
| further: "client_run c c' \<Longrightarrow> client_step c' c'' \<Longrightarrow> client_run c c''"

text \<open>
  Every watcher was registered with a key and a default that \<open>get_value\<close> accepts, under one key and
  with an identity of its own; a client with configs is ready until it is closed; a ready client has
  released those who wait for it.
\<close>

definition watchers_valid :: "(pystr, watcher list) dict \<Rightarrow> bool" where
  "watchers_valid d \<longleftrightarrow>
     list_all (\<lambda>(key, ws). validate_config_key (PStr key) = Inr () \<and>
       list_all (\<lambda>w. validate_default (w_default w) = Inr ()) ws) d"

definition watcher_ids :: "(pystr, watcher list) dict \<Rightarrow> nat list" where
  "watcher_ids d = concat (map (\<lambda>(k, ws). map w_id ws) d)"

definition client_ok :: "client_state \<Rightarrow> bool" where
  "client_ok c \<longleftrightarrow>
     dict_ok (cl_watchers c) \<and> watchers_valid (cl_watchers c) \<and>
     (\<forall>i\<in>set (watcher_ids (cl_watchers c)). i < cl_watchers_made c) \<and>
     distinct (watcher_ids (cl_watchers c)) \<and>
     (cl_ready c \<longleftrightarrow> cl_configs c \<noteq> None \<and> \<not> cl_closed c) \<and>
     (cl_ready_event c \<longleftrightarrow> cl_ready c \<or> cl_closed c) \<and>
     (\<forall>cs. cl_configs c = Some cs \<longrightarrow> dict_ok cs) \<and> dict_ok (cl_segments c)"

text \<open>The part of the invariant that concerns the watchers, as a predicate on them.\<close>

definition watchers_ok :: "nat \<Rightarrow> (pystr, watcher list) dict \<Rightarrow> bool" where
  "watchers_ok n d \<longleftrightarrow>
     dict_ok d \<and> watchers_valid d \<and> (\<forall>i\<in>set (watcher_ids d). i < n) \<and> distinct (watcher_ids d)"

lemma watcher_ids_simps [simp]:
  "watcher_ids [] = []" "watcher_ids ((k, ws) # d) = map w_id ws @ watcher_ids d"
  "watcher_ids (d @ e) = watcher_ids d @ watcher_ids e"
  by (simp_all add: watcher_ids_def)

lemma watchers_ok_Nil [simp]: "watchers_ok n []"
  by (simp add: watchers_ok_def watchers_valid_def watcher_ids_def)

lemma watcher_ids_split:
  assumes "dict_ok d" and "dict_get d key = Some ws"
  obtains d1 d2 where "d = d1 @ (key, ws) # d2" and "dict_set key ws' d = d1 @ (key, ws') # d2"
proof -
  have "(key, ws) \<in> set d" using assms(2) by (rule dict_get_SomeD)
  then obtain d1 d2 where d: "d = d1 @ (key, ws) # d2" by (meson split_list)
  then have "key \<notin> set (map fst d1)" using assms(1) by (auto simp: dict_ok_def)
  then have "dict_set key ws' d = d1 @ (key, ws') # d2"
    unfolding d dict_set_def by (induction d1) auto
  with d that show thesis by blast
qed

lemma subseq_subset: "subseq xs ys \<Longrightarrow> set xs \<subseteq> set ys"
  using list_emb_set [of "(=)" xs ys] by blast

lemma subseq_distinct: "subseq xs ys \<Longrightarrow> distinct ys \<Longrightarrow> distinct xs"
proof (induction rule: list_emb.induct)
  case (list_emb_Cons2 x y xs ys)
  then show ?case using subseq_subset [of xs ys] by (simp add: subset_iff) blast
qed simp_all

lemma distinct_shrink:
  "distinct (xs @ ys @ zs) \<Longrightarrow> set ys' \<subseteq> set ys \<Longrightarrow> distinct ys' \<Longrightarrow> distinct (xs @ ys' @ zs)"
  by auto

lemma watchers_ok_shrink:
  assumes "watchers_ok n d" and "dict_get d key = Some ws" and "subseq ws' ws"
  shows "watchers_ok n (dict_set key ws' d)"
proof -
  obtain d1 d2 where d: "d = d1 @ (key, ws) # d2" "dict_set key ws' d = d1 @ (key, ws') # d2"
    using watcher_ids_split assms unfolding watchers_ok_def by metis
  have "subseq (map w_id ws') (map w_id ws)" using assms(3) by (rule subseq_map)
  note ids = subseq_subset [OF this] subseq_distinct [OF this]
  have "distinct (watcher_ids (d1 @ (key, ws') # d2))"
    using assms(1) ids distinct_shrink [of "watcher_ids d1" "map w_id ws" "watcher_ids d2" "map w_id ws'"]
    by (simp add: d(1) watchers_ok_def)
  moreover have "\<forall>i\<in>set (watcher_ids (d1 @ (key, ws') # d2)). i < n"
    using assms(1) ids(1) unfolding d(1) watchers_ok_def by auto
  moreover have "watchers_valid (d1 @ (key, ws') # d2)"
    using assms(1) subseq_subset [OF assms(3)] unfolding d(1) watchers_ok_def watchers_valid_def
    by (auto simp: list_all_iff)
  ultimately show ?thesis using assms(1) unfolding d(2) watchers_ok_def by (simp add: d(1) dict_ok_def)
qed

lemma watchers_ok_add:
  assumes ok: "watchers_ok n d" and key: "validate_config_key (PStr key) = Inr ()"
    and w: "validate_default (w_default w) = Inr ()" "w_id w = n"
  shows "watchers_ok (Suc n) (dict_set key ((case dict_get d key of None \<Rightarrow> [] | Some ws \<Rightarrow> ws) @ [w]) d)"
proof (cases "dict_get d key")
  case None
  then have "\<not> dict_mem key d" by (simp add: dict_mem_iff)
  then show ?thesis using ok key w None unfolding watchers_ok_def
    by (auto simp: dict_set_new dict_ok_def dict_mem_def watchers_valid_def less_Suc_eq)
next
  case (Some ws)
  obtain d1 d2 where d: "d = d1 @ (key, ws) # d2" "dict_set key (ws @ [w]) d = d1 @ (key, ws @ [w]) # d2"
    using watcher_ids_split ok Some unfolding watchers_ok_def by metis
  show ?thesis using ok key w unfolding watchers_ok_def Some option.case d(2)
    by (auto simp: d(1) dict_ok_def watchers_valid_def less_Suc_eq)
qed

lemma subseq_remove_first: "subseq (remove_first P xs) xs"
  by (induction xs) auto


lemma client_ok_cong:
  assumes "client_ok c" and "same_but_calls c c'"
  shows "client_ok c'"
  using assms by (simp add: client_ok_def same_but_calls_def)

lemma client_ok_watchers:
  assumes "client_ok c" and "watchers_ok n d" and "n = cl_watchers_made c'" and "d = cl_watchers c'"
    and "cl_ready c' = cl_ready c" "cl_closed c' = cl_closed c" "cl_configs c' = cl_configs c"
    "cl_segments c' = cl_segments c" "cl_ready_event c' = cl_ready_event c"
  shows "client_ok c'"
  using assms by (simp add: client_ok_def watchers_ok_def)

lemma client_okD: "client_ok c \<Longrightarrow> watchers_ok (cl_watchers_made c) (cl_watchers c)"
  by (simp add: client_ok_def watchers_ok_def)

lemma set_handlers_fields [simp]:
  "cl_watchers (set_handlers ev hs c) = cl_watchers c"
  "cl_watchers_made (set_handlers ev hs c) = cl_watchers_made c"
  "cl_ready (set_handlers ev hs c) = cl_ready c" "cl_closed (set_handlers ev hs c) = cl_closed c"
  "cl_configs (set_handlers ev hs c) = cl_configs c" "cl_segments (set_handlers ev hs c) = cl_segments c"
  "cl_ready_event (set_handlers ev hs c) = cl_ready_event c" "cl_calls (set_handlers ev hs c) = cl_calls c"
  by (simp_all add: set_handlers_def)

lemma client_ok_set_handlers: "client_ok c \<Longrightarrow> client_ok (set_handlers ev hs c)"
  by (simp add: client_ok_def)

lemma get_value_evaluates: "evaluates c (snd (get_value pr now key d supplied c))"
  using evaluate_definition_result [THEN conjunct1]
  by (auto simp: get_value_def evaluates_refl split: pyval.splits scalar.splits sum.splits)

lemma get_all_configs_evaluates: "evaluates c (snd (get_all_configs pr now supplied keys c))"
proof -
  obtain t where t: "context_to_evaluate pr now supplied c = (checked_of supplied, c\<lparr>cl_telemetry := t\<rparr>)"
    "collects t = collects (cl_telemetry c)" using context_to_evaluate_state by blast
  then have "snd (get_all_configs pr now supplied keys c) = c\<lparr>cl_telemetry := t\<rparr>"
    by (simp add: get_all_configs_def split: option.splits)
  then show ?thesis using evaluates_telemetry [OF evaluates_refl t(2)] by simp
qed

lemmas evaluation_fields [simp] =
  evaluates_fields [OF get_value_evaluates] evaluates_fields [OF get_all_configs_evaluates]

lemma client_ok_watch: "client_ok c \<Longrightarrow> client_ok (snd (watch key d callback supplied c))"
proof -
  assume ok: "client_ok c"
  have "client_ok (c\<lparr>cl_watchers_made := cl_watchers_made c + 1,
      cl_watchers := dict_set k ((case dict_get (cl_watchers c) k of None \<Rightarrow> [] | Some ws \<Rightarrow> ws) @ [w]) (cl_watchers c)\<rparr>)"
    if "validate_config_key (PStr k) = Inr ()" "validate_default (w_default w) = Inr ()" "w_id w = cl_watchers_made c"
    for k w
    by (rule client_ok_watchers [OF ok watchers_ok_add [OF client_okD [OF ok] that]]) simp_all
  with ok show ?thesis
    by (cases callback)
      (auto simp: watch_def Let_def bindE_Inr_iff split: pyval.splits scalar.splits sum.splits)
qed

lemma client_ok_shrink:
  assumes "client_ok c" and "dict_get (cl_watchers c) key = Some ws" and "subseq ws' ws"
  shows "client_ok (c\<lparr>cl_watchers := dict_set key ws' (cl_watchers c)\<rparr>)"
  by (rule client_ok_watchers [OF assms(1) watchers_ok_shrink [OF client_okD [OF assms(1)] assms(2,3)]]) simp_all

lemma client_ok_unwatch: "client_ok c \<Longrightarrow> client_ok (unwatch key callback c)"
  by (auto simp: unwatch_def subseq_remove_first intro: client_ok_shrink split: option.splits)

lemma client_ok_remove_watcher: "client_ok c \<Longrightarrow> client_ok (remove_watcher key w c)"
  by (auto simp: remove_watcher_def subseq_remove_first intro: client_ok_shrink split: option.splits)

lemma client_ok_subscription: "client_ok c \<Longrightarrow> client_ok (snd (subscription_close s c))"
  by (auto simp: subscription_close_def remove_handler_def client_ok_remove_watcher client_ok_set_handlers
      split: cancellation.splits)

lemma dict_ok_merge_configs:
  "bundle_ok b \<Longrightarrow> (\<forall>cs. previous = Some cs \<longrightarrow> dict_ok cs) \<Longrightarrow> dict_ok (merge_configs previous b)"
proof -
  have keep: "dict_ok d \<Longrightarrow>
      dict_ok (fold (\<lambda>k d. case dict_get cs k of None \<Rightarrow> d | Some v \<Rightarrow> dict_set k v d) ks d)" for cs ks d
    by (induction ks arbitrary: d) (auto split: option.splits)
  assume "bundle_ok b" "\<forall>cs. previous = Some cs \<longrightarrow> dict_ok cs"
  then show ?thesis by (auto simp: merge_configs_def bundle_ok_def keep split: option.splits)
qed

lemma client_ok_bundle:
  assumes "client_ok c" and "bundle_ok b"
  shows "client_ok (on_bundle pr now b c)"
proof (cases "cl_closed c")
  case False
  have "dict_ok (merge_configs (cl_configs c) b)"
    using assms by (intro dict_ok_merge_configs) (auto simp: client_ok_def)
  moreover have "dict_ok (merge_segments (cl_configs c) (cl_segments c) b)"
    using assms by (simp add: merge_segments_def bundle_ok_def client_ok_def)
  ultimately have "client_ok (c\<lparr>cl_configs := Some (merge_configs (cl_configs c) b),
      cl_segments := merge_segments (cl_configs c) (cl_segments c) b, cl_ready := True,
      cl_ready_event := cl_ready_event c \<or> \<not> cl_ready c\<rparr>)"
    using assms(1) False by (auto simp: client_ok_def)
  then show ?thesis using client_ok_cong on_bundle_effect(1) [OF False] by blast
qed (simp add: on_bundle_def assms(1))

lemma client_ok_close: "client_ok c \<Longrightarrow> client_ok (snd (client_close_state pool now c))"
  by (auto simp: client_close_state_def client_ok_def watchers_valid_def watcher_ids_def Let_def split: prod.splits)

lemma client_ok_step:
  assumes "client_step c c'" and "client_ok c"
  shows "client_ok c'"
  using assms
proof (induction rule: client_step.induct)
  case (step_on c event handler)
  then show ?case by (auto simp: client_on_def client_ok_set_handlers split: sum.splits option.splits)
next
  case (step_off c event handler)
  then show ?case
    by (auto simp: client_off_def remove_handler_def client_ok_set_handlers split: sum.splits option.splits)
next
  case (step_unwatch_all c)
  then show ?case by (rule client_ok_watchers [where n = "cl_watchers_made c" and d = "[]"]) (simp_all add: unwatch_all_def)
next
  case (step_get_value c pr now key d supplied)
  then show ?case using client_ok_cong evaluates_same get_value_evaluates by blast
next
  case (step_get_all c pr now supplied keys)
  then show ?case using client_ok_cong evaluates_same get_all_configs_evaluates by blast
qed (simp_all add: client_ok_watch client_ok_unwatch client_ok_subscription client_ok_bundle client_ok_close)

lemma client_ok_new: "client_ok (new_client_state m t)"
  by (simp add: new_client_state_def client_ok_def watchers_valid_def watcher_ids_def)

lemma client_ok_run: "client_run c c' \<Longrightarrow> client_ok c \<Longrightarrow> client_ok c'"
  by (induction rule: client_run.induct) (auto dest: client_ok_step)

section \<open>Reading a value\<close>

text \<open>What a caller of \<open>get_value\<close> gets, when it does not raise.\<close>

definition read_value ::
  "printable \<Rightarrow> datetime \<Rightarrow> pystr \<Rightarrow> pyval \<Rightarrow> supplied_context option \<Rightarrow> client_state \<Rightarrow> pyval option" where
  "read_value pr now key d supplied c =
     (case fst (get_value pr now (PStr key) d supplied c) of Inl _ \<Rightarrow> None | Inr v \<Rightarrow> Some v)"

definition config_of :: "client_state \<Rightarrow> pystr \<Rightarrow> config option" where
  "config_of c key = (case cl_configs c of None \<Rightarrow> None | Some cs \<Rightarrow> dict_get cs key)"

lemma value_of_missing: "value_of pr collecting meta m key cfg d supplied segs = value_of pr collecting meta m' key cfg d supplied segs"
  by (cases cfg) (auto simp: value_of_def evaluation_of_def renders_def bindE_def split: sum.splits)

lemma read_value_eq:
  "read_value pr now key d supplied c =
     (if validate_config_key (PStr key) = Inr () \<and> validate_default d = Inr ()
      then value_of pr (collects (cl_telemetry c)) (cl_metadata c) m key (config_of c key) d supplied (cl_segments c)
      else None)"
proof -
  have "bindE (validate_config_key (PStr key)) (\<lambda>_. validate_default d) = Inr () \<longleftrightarrow>
      validate_config_key (PStr key) = Inr () \<and> validate_default d = Inr ()"
    by (auto simp: bindE_Inr_iff)
  then show ?thesis
    using evaluate_definition_result [of c pr now key "config_of c key" d supplied "cl_segments c"]
      value_of_missing [of pr _ _ "missing_reason c" key _ d supplied _ m]
    by (auto simp: read_value_def get_value_def config_of_def split: sum.splits)
qed

text \<open>The evaluation of a config looks up no segment but those its conditions name.\<close>

lemma evaluate_rule_segments:
  assumes "\<And>cr sc. r = ConditionalRule cr \<Longrightarrow> SegmentCondition sc \<in> set (cr_conditions cr) \<Longrightarrow>
    dict_get segs (sc_segment_id sc) = dict_get segs' (sc_segment_id sc)"
  shows "evaluate_rule r cfg ec (Some segs) = evaluate_rule r cfg ec (Some segs')"
proof (cases r)
  case (ConditionalRule cr)
  have "condition_holds c ec (Some segs) = condition_holds c ec (Some segs')"
    if "c \<in> set (cr_conditions cr)" for c
    using assms [OF ConditionalRule] that
    by (cases c) (simp_all add: condition_holds_def evaluate_segment_condition_def)
  then have "allE (\<lambda>c. condition_holds c ec (Some segs)) (cr_conditions cr) =
      allE (\<lambda>c. condition_holds c ec (Some segs')) (cr_conditions cr)"
    by (rule allE_cong_set)
  then show ?thesis
    by (simp add: ConditionalRule evaluate_rule_def try_rule_def evaluate_conditional_rule_def)
qed (simp add: evaluate_rule_def try_rule_def)

lemma evaluate_segments:
  assumes "\<And>cr sc. ConditionalRule cr \<in> set (tr_rules (cfg_target cfg)) \<Longrightarrow>
    SegmentCondition sc \<in> set (cr_conditions cr) \<Longrightarrow>
    dict_get segs (sc_segment_id sc) = dict_get segs' (sc_segment_id sc)"
  shows "evaluate cfg ec (Some segs) = evaluate cfg ec (Some segs')"
proof -
  have "first_rule_match rs cfg ec (Some segs) = first_rule_match rs cfg ec (Some segs')"
    if "set rs \<subseteq> set (tr_rules (cfg_target cfg))" for rs
    using that
  proof (induction rs)
    case (Cons r rs)
    have "evaluate_rule r cfg ec (Some segs) = evaluate_rule r cfg ec (Some segs')"
      by (rule evaluate_rule_segments) (use assms Cons.prems in auto)
    then show ?case using Cons by (simp split: option.splits)
  qed simp
  then show ?thesis by (simp add: evaluate_def get_config_value_def)
qed

lemma unused_segments:
  assumes "\<not> uses_any_segment cfg new" and "dict_ok new"
  shows "evaluate cfg ec (Some (dict_update segs new)) = evaluate cfg ec (Some segs)"
proof (rule evaluate_segments)
  fix cr sc assume "ConditionalRule cr \<in> set (tr_rules (cfg_target cfg))" "SegmentCondition sc \<in> set (cr_conditions cr)"
  then have "\<not> dict_mem (sc_segment_id sc) new"
    using assms(1) by (fastforce simp: uses_any_segment_def list_ex_iff)
  then show "dict_get (dict_update segs new) (sc_segment_id sc) = dict_get segs (sc_segment_id sc)"
    using assms(2) by (simp add: dict_get_update dict_mem_iff)
qed

lemma known_of_bundles:
  assumes "\<not> cl_closed c" and "\<And>b. b \<in> set bs \<Longrightarrow> bundle_ok b"
  shows "known_of (fold (on_bundle pr now) bs c) = fold apply_bundle bs (known_of c)"
  using assms
proof (induction bs arbitrary: c)
  case (Cons b bs)
  note opened = Cons.prems(1)
  have b: "bundle_ok b" using Cons.prems(2) by simp
  note s = on_bundle_effect(1) [OF opened, where b = b and pr = pr and now = now, unfolded same_but_calls_def]
  have "known_of (on_bundle pr now b c) = apply_bundle b (known_of c)"
    using s merge_configs_map [OF b, of "cl_configs c"] merge_segments_map [OF b, of "cl_configs c" "cl_segments c"]
    by (cases "cl_configs c") (simp_all add: known_of_def apply_bundle_def)
  moreover have "\<not> cl_closed (on_bundle pr now b c)" using s opened by simp
  ultimately show ?case using Cons.IH [of "on_bundle pr now b c"] Cons.prems(2) by simp
qed simp

section \<open>Properties\<close>



text \<open>
  C23 (untouched_keys_stable). A delta leaves every config it does not announce as updated alone:
  \<open>get_value\<close> returns what it returned before, for every default and every context, although the
  bundle may have replaced segments.
\<close>

theorem untouched_keys_stable:
  assumes "client_ok c" and "cl_ready c" and "bundle_ok b" and "cb_kind b = Delta"
    and "key \<notin> set (updated_keys (cl_configs c) b)"
  shows "read_value pr now key d supplied (on_bundle pr' now' b c) = read_value pr now key d supplied c"
proof -
  obtain cs where cs: "cl_configs c = Some cs" and opened: "\<not> cl_closed c"
    using assms(1,2) by (auto simp: client_ok_def)
  have segs_ok: "dict_ok (cb_configs b)" "dict_ok (cb_segments b)" using assms(3) by (auto simp: bundle_ok_def)
  note s = on_bundle_effect(1) [OF opened, where b = b and pr = pr' and now = now', unfolded same_but_calls_def]
  have "\<not> dict_mem key (cb_configs b)" using assms(5) by (simp add: updated_keys_def dict_mem_def dict_keys_def)
  then have same: "dict_get (merge_configs (Some cs) b) key = dict_get cs key"
    using assms(4) segs_ok by (simp add: merge_configs_def dict_get_update dict_mem_iff)
  have "value_of pr co me m key (dict_get cs key) d supplied (dict_update (cl_segments c) (cb_segments b)) =
      value_of pr co me m key (dict_get cs key) d supplied (cl_segments c)" for co me m
  proof (cases "dict_get cs key")
    case (Some cfg)
    then have "(key, cfg) \<in> set (merge_configs (Some cs) b)" using same by (simp add: dict_get_SomeD)
    then have "\<not> uses_any_segment cfg (cb_segments b)" using assms(5) by (auto simp: updated_keys_def cs image_iff)
    then have "evaluate cfg ec (Some (dict_update (cl_segments c) (cb_segments b))) = evaluate cfg ec (Some (cl_segments c))" for ec
      using segs_ok(2) by (rule unused_segments)
    then show ?thesis by (simp add: Some value_of_def evaluation_of_def)
  qed (simp add: value_of_def evaluation_of_def)
  then show ?thesis using s same assms(4)
    by (simp add: read_value_eq [where m = ConfigStateMissing] config_of_def cs merge_segments_def)
qed

text \<open>
  C8 (get_value_typed). \<open>get_value\<close> returns the default of the caller or a value of the type of that
  default, whatever the config of the key says and whatever the context is; it leaves the configs, the
  segments, the watchers and the handlers of the client as they are.
\<close>

theorem get_value_typed:
  assumes "get_value pr now key d supplied c = (Inr v, c')"
  shows "(v = d \<or> same_type v d) \<and> evaluates c c'"
proof -
  obtain k where k: "key = PStr k" using assms
    by (auto simp: get_value_def split: pyval.splits scalar.splits)
  have "read_value pr now k d supplied c = Some v" using assms by (simp add: read_value_def k)
  then have "value_of pr (collects (cl_telemetry c)) (cl_metadata c) ConfigStateMissing k (config_of c k) d supplied
      (cl_segments c) = Some v"
    by (simp add: read_value_eq [where m = ConfigStateMissing] split: if_splits)
  then have "v = d \<or> same_type v d"
    by (cases "config_of c k")
      (auto simp: value_of_def evaluation_of_def Let_def bindE_Inr_iff defaulted_def matched_def
        split: sum.splits if_splits elim!: parse_config_value_cases)
  then show ?thesis using get_value_evaluates [of c pr now key d supplied] by (simp add: assms)
qed

text \<open>No operation but a bundle says that the client is ready or calls a watcher.\<close>

lemma quiet_step:
  assumes "client_step c c'" and "\<And>b pr now. c' = on_bundle pr now b c \<Longrightarrow> cl_ready c \<or> cl_closed c"
  shows "filter is_ready_call (cl_calls c') = filter is_ready_call (cl_calls c)"
  using assms
proof (induction rule: client_step.induct)
  case (step_on c event handler)
  then show ?case by (simp add: client_on_def split: sum.splits option.splits)
next
  case (step_off c event handler)
  then show ?case by (simp add: client_off_def remove_handler_def split: sum.splits option.splits)
next
  case (step_watch c key d callback supplied)
  then show ?case
    by (simp add: watch_def Let_def split: pyval.splits scalar.splits sum.splits option.splits)
next
  case (step_subscription c s)
  then show ?case
    by (simp add: subscription_close_def remove_watcher_def remove_handler_def split: cancellation.splits option.splits)
next
  case (step_bundle b c pr now)
  then show ?case
  proof (cases "cl_closed c")
    case False
    then show ?thesis using step_bundle(2) on_bundle_effect(3) [OF False] by fastforce
  qed (simp add: on_bundle_def)
next
  case (step_close c pool now)
  then show ?case by (simp add: client_close_state_def Let_def split: prod.splits)
qed (simp_all add: unwatch_def unwatch_all_def split: option.splits)

lemma step_stays:
  assumes "client_step c c'" and "client_ok c"
  shows "cl_ready_event c \<Longrightarrow> cl_ready_event c'" and "cl_closed c \<Longrightarrow> cl_closed c'"
proof -
  have "(cl_ready_event c \<longrightarrow> cl_ready_event c') \<and> (cl_closed c \<longrightarrow> cl_closed c')"
    using assms(1)
  proof (induction rule: client_step.induct)
    case (step_bundle b c pr now)
    show ?case
    proof (cases "cl_closed c")
      case False
      then show ?thesis using on_bundle_effect(1) [OF False, where b = b and pr = pr and now = now]
        by (simp add: same_but_calls_def)
    qed (simp add: on_bundle_def)
  qed (simp_all add: client_on_def client_off_def remove_handler_def watch_def unwatch_def unwatch_all_def Let_def
      subscription_close_def remove_watcher_def client_close_state_def split: sum.splits option.splits pyval.splits scalar.splits cancellation.splits prod.splits)
  then show "cl_ready_event c \<Longrightarrow> cl_ready_event c'" "cl_closed c \<Longrightarrow> cl_closed c'" by auto
qed

lemma quiet_run:
  assumes "client_run c c'" and "client_ok c" and "cl_ready_event c"
  shows "filter is_ready_call (cl_calls c') = filter is_ready_call (cl_calls c) \<and> cl_ready_event c' \<and> client_ok c'"
  using assms
proof (induction rule: client_run.induct)
  case (further c c' c'')
  then have "cl_ready_event c'" "client_ok c'" by auto
  moreover from this have "cl_ready c' \<or> cl_closed c'" by (auto simp: client_ok_def)
  ultimately show ?case
    using further quiet_step [OF further.hyps(2)] step_stays(1) [OF further.hyps(2)] client_ok_step [OF further.hyps(2)]
    by auto
qed simp

text \<open>
  C21 (client_ready_once). Every handler of \<open>client_ready\<close> is called once for each time it is
  registered, when the first bundle arrives, and never again: not before that bundle, not by later
  bundles, not after closing, whatever operations come in between.
\<close>

theorem client_ready_once:
  assumes "client_run (new_client_state m t) c" and "\<not> cl_ready_event c" and "bundle_ok b"
    and "client_run (on_bundle pr now b c) c'"
  shows "filter is_ready_call (cl_calls c') = map CallReady (on_client_ready (cl_handlers c))"
proof -
  have start: "client_ok c" using assms(1) client_ok_new client_ok_run by blast
  then have not_ready: "\<not> cl_ready c" "\<not> cl_closed c" using assms(2) by (auto simp: client_ok_def)
  have "\<not> cl_ready_event c2 \<Longrightarrow> filter is_ready_call (cl_calls c2) = []"
    if "client_run c1 c2" "c1 = new_client_state m t" for c1 c2
    using that
  proof (induction rule: client_run.induct)
    case (further c c' c'')
    have ok: "client_ok c'" using further.hyps(1) further.prems client_ok_new client_ok_run by blast
    have "\<not> cl_ready_event c'" using step_stays(1) [OF further.hyps(2) ok] further.prems by blast
    moreover have "cl_ready c' \<or> cl_closed c'" if "c'' = on_bundle pr now b c'" for pr now b
    proof (rule ccontr)
      assume "\<not> (cl_ready c' \<or> cl_closed c')"
      then have "cl_ready_event c''"
        using on_bundle_effect(1) [where b = b and c = c' and pr = pr and now = now] that
        by (simp add: same_but_calls_def)
      then show False using further.prems by simp
    qed
    ultimately show ?case using further quiet_step [OF further.hyps(2)] by auto
  qed (simp add: new_client_state_def)
  then have "filter is_ready_call (cl_calls (on_bundle pr now b c)) = map CallReady (on_client_ready (cl_handlers c))"
    using assms(1,2) on_bundle_effect(3) [OF not_ready(2), where b = b and pr = pr and now = now] not_ready(1) by simp
  moreover have "cl_ready_event (on_bundle pr now b c)"
    using on_bundle_effect(1) [OF not_ready(2), where b = b and pr = pr and now = now] not_ready(1)
    by (simp add: same_but_calls_def)
  ultimately show ?thesis
    using quiet_run [OF assms(4) client_ok_bundle [OF start assms(3)]] by simp
qed

lemma closed_step:
  assumes "client_step c c'" and "cl_closed c"
  shows "filter is_bundle_call (cl_calls c') = filter is_bundle_call (cl_calls c)"
  using assms
  by (induction rule: client_step.induct)
    (simp_all add: client_on_def client_off_def remove_handler_def watch_def unwatch_def unwatch_all_def Let_def
      subscription_close_def remove_watcher_def client_close_state_def on_bundle_def
      split: sum.splits option.splits pyval.splits scalar.splits cancellation.splits prod.splits)

lemma closed_run:
  assumes "client_run c c'" and "cl_closed c" and "client_ok c"
  shows "filter is_bundle_call (cl_calls c') = filter is_bundle_call (cl_calls c) \<and> cl_closed c' \<and> client_ok c'"
  using assms
proof (induction rule: client_run.induct)
  case (further c c' c'')
  then show ?case
    using closed_step [OF further.hyps(2)] step_stays(2) [OF further.hyps(2)] client_ok_step [OF further.hyps(2)] by auto
qed simp


section \<open>Witnesses\<close>

definition flag_config :: "pystr \<Rightarrow> rule list \<Rightarrow> config" where
  "flag_config v rs = \<lparr>cfg_id = py ''c1'', cfg_key = py ''flag'', cfg_type = PStr (py ''string''),
     cfg_target = \<lparr>tr_default_value = v, tr_rules = rs, tr_default_value_id = Some (py ''v1'')\<rparr>,
     cfg_variations = [], cfg_type_constraints = None\<rparr>"

definition flag_bundle :: "bundle_kind \<Rightarrow> (pystr, config) dict \<Rightarrow> config_bundle" where
  "flag_bundle kind cs = \<lparr>cb_configs = cs, cb_segments = [], cb_kind = kind, cb_unreadable_keys = [],
     cb_environment_id = None, cb_project_id = None, cb_timestamp = None\<rparr>"

definition watching_client :: client_state where
  "watching_client =
     snd (watch (PStr (py ''flag'')) (PStr (py ''none'')) (Some 7) None
       (snd (client_on (py ''client_ready'') (Some 3) (new_client_state empty_metadata Discarding))))"

definition flag_client :: client_state where
  "flag_client = on_bundle (\<lambda>_. True) midnight (flag_bundle Full [(py ''flag'', flag_config (py ''a1'') [])]) watching_client"

lemma flag_bundle_ok [simp]: "dict_ok cs \<Longrightarrow> bundle_ok (flag_bundle kind cs)"
  by (simp add: bundle_ok_def flag_bundle_def)

lemma watching_client_fields [simp]:
  "cl_watchers watching_client = [(py ''flag'', [\<lparr>w_id = 0, w_handler = 7, w_default = PStr (py ''none''), w_context = None\<rparr>])]"
  "cl_configs watching_client = None" "cl_closed watching_client = False" "cl_ready watching_client = False"
  "cl_ready_event watching_client = False" "cl_calls watching_client = []"
  "on_client_ready (cl_handlers watching_client) = [3]" "cl_telemetry watching_client = Discarding"
  by (simp_all add: watching_client_def watch_def client_on_def new_client_state_def no_handlers_def
      event_of_name_def handlers_for_def set_handlers_def validate_config_key_def has_content_def
      validate_default_def dict_set_def str_strip_def is_space_def py_def Let_def)

lemma watching_run: "client_run (new_client_state empty_metadata Discarding) watching_client"
  unfolding watching_client_def
  by (rule client_run.further, rule client_run.further, rule client_run.start) (rule step_on, rule step_watch)

lemma flag_value:
  "value_of pr False m r key (Some (flag_config (py (CHR ''a'' # v)) [])) (PStr d) s segs = Some (PStr (py (CHR ''a'' # v)))"
  by (simp add: value_of_def evaluation_of_def evaluate_def get_config_value_def flag_config_def parse_config_value_def
      result_value_id_def in_string_set_def types_not_readable_as_string_def matched_def py_def)


lemma watching_ok: "client_ok watching_client"
  using client_ok_run [OF watching_run client_ok_new] .

lemma concerned_flag:
  "concerned (flag_bundle kind [(py ''flag'', cfg)]) watching_client = cl_watchers watching_client"
  by (simp add: concerned_def updated_keys_def flag_bundle_def dict_keys_def)

lemma flag_client_same:
  "same_but_calls (watching_client\<lparr>cl_configs := Some [(py ''flag'', flag_config (py ''a1'') [])], cl_segments := [],
     cl_ready := True, cl_ready_event := True\<rparr>) flag_client"
  using on_bundle_effect(1) [where c = watching_client and b = "flag_bundle Full [(py ''flag'', flag_config (py ''a1'') [])]"
      and pr = "\<lambda>_. True" and now = midnight]
  by (simp add: flag_client_def merge_configs_def merge_segments_def flag_bundle_def)

lemma flag_client_value: "read_value (\<lambda>_. True) midnight (py ''flag'') (PStr d) s flag_client = Some (PStr (py ''a1''))"
proof -
  have "validate_config_key (PStr (py ''flag'')) = Inr ()"
    by (simp add: validate_config_key_def has_content_def str_strip_def is_space_def py_def)
  then show ?thesis
    using flag_client_same flag_value [of "\<lambda>_. True" _ _ _ "''1''" d s]
    by (simp add: read_value_eq [where m = ConfigStateMissing] same_but_calls_def config_of_def collects_def
        validate_default_def dict_get_def)
qed


lemma flag_client_ok: "client_ok flag_client"
  unfolding flag_client_def by (rule client_ok_bundle [OF watching_ok]) (simp add: dict_ok_def)

theorem untouched_keys_stable_witness:
  "read_value (\<lambda>_. True) midnight (py ''flag'') (PStr []) None
     (on_bundle (\<lambda>_. True) midnight (flag_bundle Delta [(py ''other'', flag_config (py ''b'') [])]) flag_client) =
   Some (PStr (py ''a1''))"
proof (subst untouched_keys_stable [OF flag_client_ok])
  show "cl_ready flag_client" using flag_client_same by (simp add: same_but_calls_def)
  show "py ''flag'' \<notin> set (updated_keys (cl_configs flag_client) (flag_bundle Delta [(py ''other'', flag_config (py ''b'') [])]))"
    using flag_client_same
    by (simp add: same_but_calls_def updated_keys_def flag_bundle_def dict_keys_def merge_configs_def dict_update_def
        dict_set_def uses_any_segment_def flag_config_def py_def)
qed (use flag_client_value in \<open>simp_all add: flag_bundle_def bundle_ok_def dict_ok_def\<close>)

theorem get_value_typed_witness:
  "same_type (PStr (py ''a1'')) (PStr (py ''none''))"
proof -
  obtain c' where "get_value (\<lambda>_. True) midnight (PStr (py ''flag'')) (PStr (py ''none'')) None flag_client =
      (Inr (PStr (py ''a1'')), c')"
    using flag_client_value [of "py ''none''" None] by (auto simp: read_value_def split: sum.splits) (metis prod.collapse)
  from get_value_typed [OF this] show ?thesis by (simp add: py_def)
qed

theorem client_ready_once_witness:
  "filter is_ready_call (cl_calls flag_client) = [CallReady 3]"
  using client_ready_once [OF watching_run, where b = "flag_bundle Full [(py ''flag'', flag_config (py ''a1'') [])]"
      and pr = "\<lambda>_. True" and now = midnight and c' = flag_client]
  by (simp add: flag_client_def client_run.start dict_ok_def)


end
