(* ===== verification/Transports.thy ===== *)
theory Transports
  imports Streaming
begin

text \<open>
  The transports as the client uses them (\<open>Transport\<close> of \<open>_transport/base.py\<close>, \<open>create_transport\<close> of
  \<open>_transport/__init__.py\<close>): their common operations with the bundles they hand over, and the
  laws those operations obey. \<open>transport\<close> states the laws; the three transports and their sum are its
  instances. \<open>stream_user\<close> states what the connection loop keeps of the state of its handlers.
\<close>

section \<open>What an event stream keeps of its user\<close>

locale stream_user =
  fixes h :: "'s stream_handlers" and I :: "'s \<Rightarrow> bool"
  assumes body: "I s \<Longrightarrow> I (snd (hd_body h s))"
    and connect: "hd_connect h = Some f \<Longrightarrow> I s \<Longrightarrow> I (snd (f s))"
    and disconnect: "hd_disconnect h = Some f \<Longrightarrow> I s \<Longrightarrow> I (snd (f s))"
    and message: "hd_message h = Some g \<Longrightarrow> I s \<Longrightarrow> I (snd (g m s))"
    and comment: "hd_comment h = Some k \<Longrightarrow> I s \<Longrightarrow> I (snd (k t s))"
    and error: "hd_error h = Some r \<Longrightarrow> I s \<Longrightarrow> I (snd (r e s))"
    and should_reconnect: "hd_should_reconnect h = Some q \<Longrightarrow> I s \<Longrightarrow> I (snd (q st s))"
    and delay: "hd_reconnect_delay h = Some d \<Longrightarrow> I s \<Longrightarrow> I (snd (d st s))"
begin

definition keeps :: "'s es_client \<Rightarrow> bool" where
  "keeps c \<longleftrightarrow> es_handlers c = h \<and> I (es_user c)"

lemma keeps_fields [simp]:
  "keeps (c\<lparr>es_ready_state := a\<rparr>) = keeps c" "keeps (c\<lparr>es_attempt := n\<rparr>) = keeps c"
  "keeps (c\<lparr>es_last_event_id := i\<rparr>) = keeps c" "keeps (c\<lparr>es_server_delay := x\<rparr>) = keeps c"
  "keeps (c\<lparr>es_stop := b\<rparr>) = keeps c" "keeps (c\<lparr>es_response := b\<rparr>) = keeps c"
  "keeps (land_close b c) = keeps c" "keeps (set_state a c) = keeps c"
  by (simp_all add: keeps_def land_close_def es_close_def set_state_def)

lemma keeps_notify: "keeps c \<Longrightarrow> (\<And>f. cb = Some f \<Longrightarrow> I (snd (f (es_user c)))) \<Longrightarrow> keeps (notify cb c)"
  by (auto simp: notify_def keeps_def split: option.splits)

lemma keeps_error: "keeps c \<Longrightarrow> keeps (notify (apply_to (hd_error (es_handlers c)) e) c)"
  by (rule keeps_notify) (auto simp: keeps_def apply_to_def error)

lemma keeps_disconnected: "keeps c \<Longrightarrow> keeps (disconnected c)"
  unfolding disconnected_def by (rule keeps_notify) (auto simp: disconnect, simp add: keeps_def disconnect)

lemma keeps_event: "keeps c \<Longrightarrow> keeps (handle_event m c)"
  unfolding handle_event_def Let_def
  by (rule keeps_notify) (auto simp: keeps_def apply_to_def message split: option.splits)

lemma keeps_comment: "keeps c \<Longrightarrow> keeps (notify (apply_to (hd_comment (es_handlers c)) t) c)"
  by (rule keeps_notify) (auto simp: keeps_def apply_to_def comment)

lemma keeps_ask:
  assumes "ask cb d c = (v, c')" and "keeps c" and "\<And>f. cb = Some f \<Longrightarrow> I (snd (f (es_user c)))"
  shows "keeps c'"
  using assms by (fastforce simp: ask_def keeps_def split: option.splits prod.splits sum.splits)

lemma keeps_calls: "keeps c \<Longrightarrow> keeps (snd (handle_calls cs c))"
proof (induction cs c rule: handle_calls.induct)
  case (4 n cs c)
  obtain r c1 where r: "handle_retry n c = (r, c1)" by fastforce
  then have "keeps c1" using 4(2)
    by (auto simp: handle_retry_def split: sum.splits pyfloat.splits)
  with 4(1) [OF r [symmetric]] r show ?case by (cases r) auto
qed (simp_all add: keeps_event keeps_comment)

lemma keeps_handled: "keeps c \<Longrightarrow> keeps (snd (feed_handled t p c))"
  using keeps_calls [of c "drop (length (ps_calls p)) (ps_calls (state_after (feed t p)))"]
  by (auto simp: feed_handled_def Let_def split: prod.splits sum.splits)

lemma keeps_chunks: "keeps c \<Longrightarrow> keeps (snd (read_chunks chunks pending p c))"
proof (induction chunks pending p c rule: read_chunks.induct)
  case (2 closing chunk chunks pending p c)
  let ?c1 = "land_close closing c"
  show ?case
  proof (cases "es_stop ?c1")
    case True
    with 2(2) show ?thesis by simp
  next
    case False
    obtain t pending' where d: "decode_bytes pending chunk = (t, pending')" by fastforce
    obtain r c2 where f: "feed_handled t p ?c1 = (r, c2)" by fastforce
    then have ok: "keeps c2" using keeps_handled [of ?c1 t p] 2(2) by simp
    show ?thesis
    proof (cases r)
      case (Inr p')
      from 2(1) [OF HOL.refl False d [symmetric] HOL.refl f [unfolded Inr, symmetric] HOL.refl ok] ok show ?thesis
        using False by (simp add: Let_def d f Inr)
    qed (use False ok in \<open>simp add: Let_def d f\<close>)
  qed
qed simp

lemma keeps_stream:
  assumes "keeps c"
  shows "keeps (snd (read_stream a c))"
proof -
  obtain r c1 where r: "read_chunks (at_chunks a) [] (new_stream_parser c) c = (r, c1)" by fastforce
  have c1: "keeps c1" using keeps_chunks [OF assms, of "at_chunks a" "[]" "new_stream_parser c"] r by simp
  show ?thesis
  proof (cases r)
    case (Drained pending p)
    have "keeps (snd (feed_handled (decode_final pending) p (land_close (at_close_at_end a) c1)))"
      using c1 by (simp add: keeps_handled)
    with Drained r c1 show ?thesis
      by (auto simp: read_stream_def Let_def split: option.splits prod.splits sum.splits)
  qed (use r c1 in \<open>simp_all add: read_stream_def\<close>)
qed

lemma keeps_open: "keeps c \<Longrightarrow> keeps (snd (open_stream a c))"
  using body by (auto simp: open_stream_def Let_def split_def keeps_def land_close_def es_close_def split: sum.splits)

lemma keeps_failed: "keeps c \<Longrightarrow> keeps (snd (failed_attempt a st e c))"
  using keeps_error [of "land_close (at_close_on_failure a) c" e] by (simp add: failed_attempt_def Let_def)

lemma keeps_begin: "keeps c \<Longrightarrow> keeps (begin_stream c)"
  unfolding begin_stream_def Let_def
  by (rule keeps_notify) (auto simp: keeps_def connect set_state_def split: if_splits)

lemma keeps_once:
  assumes "keeps c"
  shows "keeps (snd (connect_once a c))"
proof -
  obtain r c1 where r: "open_stream a c = (r, c1)" by fastforce
  have c1: "keeps c1" using keeps_open [OF assms, of a] r by simp
  define c2 where "c2 = land_close (at_close_in_gap a) (c1\<lparr>es_response := True\<rparr>)"
  have c2: "keeps c2" using c1 by (simp add: c2_def)
  obtain q c3 where q: "read_stream a (begin_stream c2) = (q, c3)" by fastforce
  have c3: "keeps c3" using keeps_stream [OF keeps_begin [OF c2], of a] q by simp
  show ?thesis
    using r c1 c2 q c3 keeps_failed [OF c1, of a None] keeps_failed [OF c3, of a] keeps_disconnected [OF c1]
    by (auto simp: connect_once_def c2_def [symmetric] Let_def release_def split: sum.splits)
qed

lemma keeps_delay: "keeps c \<Longrightarrow> keeps (snd (reconnect_delay st c))"
proof -
  assume c: "keeps c"
  obtain v c1 where v: "ask (apply_to (hd_reconnect_delay (es_handlers c)) st) (PFloat (es_server_delay c)) c = (v, c1)"
    by fastforce
  then have "keeps c1" using c by (rule keeps_ask) (use c in \<open>auto simp: keeps_def apply_to_def delay\<close>)
  with v keeps_error [OF this, of ValueOutOfRangeError] show ?thesis
    by (auto simp: reconnect_delay_def Let_def split: sum.splits option.splits)
qed

lemma keeps_loop: "keeps c \<Longrightarrow> keeps (snd (snd (run_loop as c)))"
proof (induction as arbitrary: c)
  case (Cons a as)
  obtain f c1 where f: "connect_once a c = (f, c1)" by fastforce
  have c1: "keeps c1" using keeps_once [OF Cons.prems, of a] f by simp
  show ?case
  proof (cases "f = None \<or> es_stop c1")
    case True
    with f c1 show ?thesis by (auto split: option.splits)
  next
    case False
    then obtain x where x: "f = Some x" "\<not> es_stop c1" by auto
    define c2 where "c2 = c1\<lparr>es_attempt := es_attempt c1 + 1\<rparr>"
    define st where "st = reconnection_of x c2"
    obtain go c3 where go: "ask (apply_to (hd_should_reconnect (es_handlers c2)) st) True c2 = (go, c3)" by fastforce
    have c2: "keeps c2" using c1 by (simp add: c2_def)
    have c3: "keeps c3"
      by (rule keeps_ask [OF go c2]) (use c2 in \<open>auto simp: keeps_def apply_to_def should_reconnect\<close>)
    obtain d c4 where d: "reconnect_delay st (set_state CONNECTING c3) = (d, c4)" by fastforce
    have c4: "keeps c4" using keeps_delay [of "set_state CONNECTING c3" st] c3 d by simp
    define c5 where "c5 = land_close (at_close_while_waiting a) c4"
    have c5: "keeps c5" using c4 by (simp add: c5_def)
    show ?thesis
      unfolding run_loop.simps f x(1) prod.case option.case Let_def c2_def [symmetric] st_def [symmetric] go d
      using c3 c4 c5 Cons.IH [OF c5] keeps_disconnected [OF c3] x(2)
      by (auto simp: c5_def split: sum.splits prod.splits)
  qed
qed simp

end

section \<open>The interface of a transport\<close>

text \<open>
  \<open>connect\<close> and \<open>work\<close> (what a transport does in the background) return the bundles they hand to the
  client, in order; the environment \<open>e\<close> holds what the network, the files and the threads do meanwhile.
  \<open>halted\<close> is the state a transport is in once closed and before it is connected again.
\<close>

locale transport =
  fixes connect :: "'e \<Rightarrow> 't \<Rightarrow> config_bundle list \<times> unit result \<times> 't"
    and work :: "'e \<Rightarrow> 't \<Rightarrow> config_bundle list \<times> 't"
    and close :: "'t \<Rightarrow> 't"
    and connected :: "'t \<Rightarrow> bool"
    and halted :: "'t \<Rightarrow> bool"
    and good :: "'t \<Rightarrow> bool"
  assumes good_connect: "good t \<Longrightarrow> good (snd (snd (connect e t)))"
    and good_work: "good t \<Longrightarrow> good (snd (work e t))"
    and good_close: "good t \<Longrightarrow> good (close t)"
    and connect_delivers: "good t \<Longrightarrow> b \<in> set (fst (connect e t)) \<Longrightarrow> bundle_ok b"
    and work_delivers: "good t \<Longrightarrow> b \<in> set (fst (work e t)) \<Longrightarrow> bundle_ok b"
    and close_halts: "halted (close t)"
    and halted_not_connected: "halted t \<Longrightarrow> \<not> connected t"
    and halted_work: "halted t \<Longrightarrow> fst (work e t) = [] \<and> halted (snd (work e t))"

section \<open>The three transports\<close>

text \<open>
  What a client finds around it: the file system and the decoding of JSON bytes; the pool of the
  first request and the pools of the following ones, with the timeout of a request; the attempts of
  an event stream.
\<close>

record surroundings =
  sw_read_file :: "pystr \<Rightarrow> nat list option"
  sw_decode :: "nat list \<Rightarrow> pystr option"
  sw_pool :: pool
  sw_later_pools :: "pool list"
  sw_timeout :: pyfloat
  sw_attempts :: "attempt_script list"

definition connect_offline ::
  "printable \<Rightarrow> surroundings \<Rightarrow> offline_transport \<Rightarrow> config_bundle list \<times> unit result \<times> offline_transport" where
  "connect_offline pr e t =
     (case offline_connect pr (sw_read_file e) (sw_decode e) t of
        (Inl x, t1) \<Rightarrow> ([], Inl x, t1)
      | (Inr b, t1) \<Rightarrow> ([b], Inr (), t1))"

definition work_offline :: "surroundings \<Rightarrow> offline_transport \<Rightarrow> config_bundle list \<times> offline_transport" where
  "work_offline e t = ([], t)"

definition connect_polling ::
  "printable \<Rightarrow> surroundings \<Rightarrow> polling \<Rightarrow> config_bundle list \<times> unit result \<times> polling" where
  "connect_polling pr e p =
     (case polling_connect pr (sw_pool e) (sw_timeout e) p of
        (Inl x, p1) \<Rightarrow> ([], Inl x, p1)
      | (Inr None, p1) \<Rightarrow> ([], Inr (), p1)
      | (Inr (Some b), p1) \<Rightarrow> ([b], Inr (), p1))"

definition work_polling ::
  "printable \<Rightarrow> surroundings \<Rightarrow> polling \<Rightarrow> config_bundle list \<times> polling" where
  "work_polling pr e p = poll_loop pr (sw_timeout e) (sw_later_pools e) p"

definition newly_delivered :: "streaming_transport \<Rightarrow> streaming_transport \<Rightarrow> config_bundle list" where
  "newly_delivered t t' =
     drop (length (sg_delivered (current_state t))) (sg_delivered (current_state t'))"

definition work_streaming ::
  "surroundings \<Rightarrow> streaming_transport \<Rightarrow> config_bundle list \<times> streaming_transport" where
  "work_streaming e t =
     (let t1 = snd (streaming_work (sw_attempts e) t) in (newly_delivered t t1, t1))"

text \<open>\<open>connect\<close> waits for the loop to settle: the attempts of \<open>sw_attempts\<close> happen while it waits.\<close>

definition connect_streaming ::
  "printable \<Rightarrow> surroundings \<Rightarrow> streaming_transport \<Rightarrow> config_bundle list \<times> unit result \<times> streaming_transport" where
  "connect_streaming pr e t =
     (let (bs, t1) = work_streaming e (streaming_connect pr t) in (bs, connect_result t1, t1))"

lemma unconditional_configs_ok: "unconditional_configs pr vs = Inr cs \<Longrightarrow> dict_ok cs"
  by (auto simp: unconditional_configs_def split: sum.splits)

interpretation offline: transport "connect_offline pr" work_offline offline_close ot_connected
  "\<lambda>t. \<not> ot_connected t" "\<lambda>_. True" for pr
proof
  show "bundle_ok b" if "b \<in> set (fst (connect_offline pr e t))" for b e t
    using that
    by (auto simp: connect_offline_def offline_connect_def offline_configs_def bundle_ok_def bindE_Inr_iff
        dest: unconditional_configs_ok split: sum.splits offline_source.splits)
qed (simp_all add: work_offline_def offline_close_def)

lemma polling_fetch_ok: "polling_fetch pr pool timeout p = (Inr (Some b), p') \<Longrightarrow> bundle_ok b"
  by (auto simp: polling_fetch_def fail_fatally_def dest: parse_bundle_ok split: sum.splits prod.splits if_splits)

lemma poll_tick_ok: "poll_tick pr timeout pool p = (Some b, p') \<Longrightarrow> bundle_ok b"
  by (auto simp: poll_tick_def dest: polling_fetch_ok split: sum.splits prod.splits if_splits)

lemma poll_loop_ok: "b \<in> set (fst (poll_loop pr timeout pools p)) \<Longrightarrow> bundle_ok b"
proof (induction pools arbitrary: p)
  case (Cons pool pools)
  obtain x p1 where x: "poll_tick pr timeout pool p = (x, p1)" by fastforce
  with Cons show ?case by (cases x) (auto simp: Let_def split_def dest: poll_tick_ok)
qed simp

lemma stopped_loop:
  "pl_stop p \<and> \<not> pl_thread p \<Longrightarrow> fst (poll_loop pr timeout pools p) = [] \<and>
    pl_stop (snd (poll_loop pr timeout pools p)) \<and> \<not> pl_thread (snd (poll_loop pr timeout pools p))"
  by (induction pools arbitrary: p) (auto simp: poll_tick_def Let_def split_def)

interpretation polling: transport "connect_polling pr" "work_polling pr" polling_close polling_is_connected
  "\<lambda>p. pl_stop p \<and> \<not> pl_thread p" "\<lambda>_. True" for pr
proof
  show "bundle_ok b" if "b \<in> set (fst (connect_polling pr e p))" for b e p
  proof -
    obtain r p1 where r: "polling_fetch pr (sw_pool e) (sw_timeout e) p = (r, p1)" by fastforce
    with that show ?thesis
      by (auto simp: connect_polling_def polling_connect_def split: sum.splits option.splits dest: polling_fetch_ok)
  qed
qed (simp_all add: work_polling_def polling_close_def polling_is_connected_def stopped_loop poll_loop_ok)

text \<open>The handlers of the streaming transport deliver nothing but well-formed bundles.\<close>

definition delivers_ok :: "streaming \<Rightarrow> bool" where
  "delivers_ok s \<longleftrightarrow> list_all bundle_ok (sg_delivered s)"

lemma on_message_ok: "delivers_ok s \<Longrightarrow> delivers_ok (snd (streaming_on_message pr m s))"
  by (auto simp: streaming_on_message_def delivers_ok_def dest: parse_bundle_ok split: sum.splits)

interpretation streaming: stream_user "streaming_handlers pr" delivers_ok for pr
  by unfold_locales
    (auto simp: streaming_handlers_def on_message_ok,
     auto simp: delivers_ok_def build_request_body_def Let_def streaming_on_connect_def
      streaming_on_disconnect_def streaming_on_error_def streaming_should_reconnect_def streaming_reconnect_delay_def)

definition streaming_good :: "printable \<Rightarrow> streaming_transport \<Rightarrow> bool" where
  "streaming_good pr t \<longleftrightarrow>
     (case sm_client t of None \<Rightarrow> delivers_ok (sm_state t) | Some c \<Rightarrow> streaming.keeps pr c)"

lemma streaming_good_delivered: "streaming_good pr t \<Longrightarrow> delivers_ok (current_state t)"
  by (auto simp: streaming_good_def current_state_def streaming.keeps_def split: option.splits)

lemma streaming_good_connect: "streaming_good pr t \<Longrightarrow> streaming_good pr (streaming_connect pr t)"
  using streaming_good_delivered [of pr t]
  by (simp add: streaming_good_def streaming_connect_def Let_def start_heartbeat_def es_connect_def new_es_client_def
      streaming.keeps_def streaming_close_def delivers_ok_def)

lemma streaming_good_work: "streaming_good pr t \<Longrightarrow> streaming_good pr (snd (streaming_work as t))"
  using streaming.keeps_loop [of pr _ as]
  by (auto simp: streaming_good_def streaming_work_def Let_def split_def split: option.splits)

lemma streaming_good_newly: "streaming_good pr t' \<Longrightarrow> b \<in> set (newly_delivered t t') \<Longrightarrow> bundle_ok b"
  using streaming_good_delivered [of pr t']
  by (auto simp: newly_delivered_def delivers_ok_def list_all_iff dest: in_set_dropD)

lemma closed_work: "sm_client t = None \<Longrightarrow> streaming_work as t = ([], t)"
  by (simp add: streaming_work_def)

interpretation streaming_loop: transport "connect_streaming pr" work_streaming streaming_close
  streaming_is_connected "\<lambda>t. sm_client t = None" "streaming_good pr" for pr
proof
  show "streaming_good pr (streaming_close t)" if "streaming_good pr t" for t
    using streaming_good_delivered [OF that] by (simp add: streaming_close_def streaming_good_def)
  show "bundle_ok b" if "streaming_good pr t" "b \<in> set (fst (connect_streaming pr e t))" for b t e
    using streaming_good_newly [OF streaming_good_work [OF streaming_good_connect [OF that(1)]]] that(2)
    by (simp add: connect_streaming_def work_streaming_def Let_def)
  show "bundle_ok b" if "streaming_good pr t" "b \<in> set (fst (work_streaming e t))" for b t e
    using streaming_good_newly [OF streaming_good_work [OF that(1)]] that(2) by (simp add: work_streaming_def Let_def)
qed (simp_all add: connect_streaming_def work_streaming_def Let_def streaming_good_connect streaming_good_work
    streaming_close_def streaming_is_connected_def closed_work newly_delivered_def)

section \<open>Any transport\<close>

datatype any_transport =
    OfflineTransport offline_transport
  | PollingTransport polling
  | StreamingTransport streaming_transport

definition map_result :: "('t \<Rightarrow> 'u) \<Rightarrow> 'a \<times> 'b \<times> 't \<Rightarrow> 'a \<times> 'b \<times> 'u" where
  "map_result f r = (case r of (a, b, t) \<Rightarrow> (a, b, f t))"

definition transport_connect ::
  "printable \<Rightarrow> surroundings \<Rightarrow> any_transport \<Rightarrow> config_bundle list \<times> unit result \<times> any_transport" where
  "transport_connect pr e t =
     (case t of
        OfflineTransport o' \<Rightarrow> map_result OfflineTransport (connect_offline pr e o')
      | PollingTransport p \<Rightarrow> map_result PollingTransport (connect_polling pr e p)
      | StreamingTransport s \<Rightarrow> map_result StreamingTransport (connect_streaming pr e s))"

definition transport_work :: "printable \<Rightarrow> surroundings \<Rightarrow> any_transport \<Rightarrow> config_bundle list \<times> any_transport" where
  "transport_work pr e t =
     (case t of
        OfflineTransport o' \<Rightarrow> map_prod id OfflineTransport (work_offline e o')
      | PollingTransport p \<Rightarrow> map_prod id PollingTransport (work_polling pr e p)
      | StreamingTransport s \<Rightarrow> map_prod id StreamingTransport (work_streaming e s))"

definition transport_close :: "any_transport \<Rightarrow> any_transport" where
  "transport_close t =
     (case t of
        OfflineTransport o' \<Rightarrow> OfflineTransport (offline_close o')
      | PollingTransport p \<Rightarrow> PollingTransport (polling_close p)
      | StreamingTransport s \<Rightarrow> StreamingTransport (streaming_close s))"

definition transport_is_connected :: "any_transport \<Rightarrow> bool" where
  "transport_is_connected t =
     (case t of
        OfflineTransport o' \<Rightarrow> ot_connected o'
      | PollingTransport p \<Rightarrow> polling_is_connected p
      | StreamingTransport s \<Rightarrow> streaming_is_connected s)"

definition transport_halted :: "any_transport \<Rightarrow> bool" where
  "transport_halted t =
     (case t of
        OfflineTransport o' \<Rightarrow> \<not> ot_connected o'
      | PollingTransport p \<Rightarrow> pl_stop p \<and> \<not> pl_thread p
      | StreamingTransport s \<Rightarrow> sm_client s = None)"

definition transport_good :: "printable \<Rightarrow> any_transport \<Rightarrow> bool" where
  "transport_good pr t = (case t of StreamingTransport s \<Rightarrow> streaming_good pr s | _ \<Rightarrow> True)"

lemma map_result_simps [simp]: "fst (map_result f r) = fst r" "fst (snd (map_result f r)) = fst (snd r)"
  "snd (snd (map_result f r)) = f (snd (snd r))"
  by (simp_all add: map_result_def split: prod.splits)

lemmas transport_laws =
  offline.close_halts offline.halted_work polling.close_halts polling.halted_work
  polling.halted_not_connected streaming_loop.good_connect streaming_loop.good_work streaming_loop.good_close
  streaming_loop.close_halts streaming_loop.halted_not_connected streaming_loop.halted_work

lemmas transport_deliveries =
  offline.connect_delivers [OF TrueI] offline.work_delivers [OF TrueI]
  polling.connect_delivers [OF TrueI] polling.work_delivers [OF TrueI]
  streaming_loop.connect_delivers streaming_loop.work_delivers

interpretation any: transport "transport_connect pr" "transport_work pr" transport_close
  transport_is_connected transport_halted "transport_good pr" for pr
  by unfold_locales
    (auto simp: transport_connect_def transport_work_def transport_close_def transport_is_connected_def
      transport_halted_def transport_good_def transport_laws split: any_transport.splits
      dest: transport_deliveries)

end
