(* ===== verification/Client.thy ===== *)
theory Client
  imports Transports Client_Updates
begin

text \<open>
  The client as a whole: how \<open>client.py\<close> builds one from its arguments, \<open>initialize\<close> and \<open>close\<close>,
  and the client together with its transport and its telemetry. \<open>urlparse\<close>, \<open>urljoin\<close> and \<open>uuid4\<close>
  are the fields of \<open>platform\<close>. Clients are built over any transport, because the test client
  brings its own.
\<close>

section \<open>Construction\<close>

record platform =
  pf_urlparse :: url_parser
  pf_urljoin :: "pystr \<Rightarrow> pystr \<Rightarrow> pystr"
  pf_uuid :: "nat \<Rightarrow> pystr"

record telemetry_options =
  to_event_queue_limit :: int
  to_flush_interval :: pyfloat

text \<open>A hook that is given is callable, a number, or it is not.\<close>

record client_hooks =
  hk_client_ready :: "nat option option"
  hk_configs_updated :: "nat option option"
  hk_config_evaluated :: "nat option option"

record client_arguments =
  ar_server_sdk_key :: pyval
  ar_metadata :: "metadata option"
  ar_connection :: "connection_options option"
  ar_telemetry :: "telemetry_options option"
  ar_hooks :: "client_hooks option"
  ar_sdk_identity :: sdk_identity

record 't client =
  cn_plan :: connection_plan
  cn_connection :: connection_options
  cn_transport :: 't
  cn_pool_open :: bool
  cn_state :: client_state

definition server_sdk_identity :: sdk_identity where
  "server_sdk_identity = \<lparr>sdk_name = py ''python-server-sdk'', sdk_version = py ''1.8.1''\<rparr>"

definition default_telemetry :: telemetry_options where
  "default_telemetry = \<lparr>to_event_queue_limit = 5000, to_flush_interval = Finite 30\<rparr>"

definition meta_context :: "metadata \<Rightarrow> sdk_identity \<Rightarrow> (pystr, pystr) dict" where
  "meta_context m i =
     [(py ''sdkName'', sdk_name i), (py ''sdkVersion'', sdk_version i)] @
     (case app_name m of None \<Rightarrow> [] | Some n \<Rightarrow> [(py ''appName'', n)]) @
     (case app_version m of None \<Rightarrow> [] | Some v \<Rightarrow> [(py ''appVersion'', v)])"

definition not_positive :: "pyfloat \<Rightarrow> bool" where
  "not_positive x \<longleftrightarrow> fl_less x (Finite 0) \<or> x = Finite 0"

definition min_event_queue_limit :: int where
  "min_event_queue_limit = 100"

definition max_event_queue_limit :: int where
  "max_event_queue_limit = 100000"

definition validated_telemetry :: "telemetry_options \<Rightarrow> telemetry_options result" where
  "validated_telemetry t =
     (if \<not> (min_event_queue_limit \<le> to_event_queue_limit t \<and> to_event_queue_limit t \<le> max_event_queue_limit)
      then Inl ConfigDirectorValidationError
      else if not_positive (to_flush_interval t) then Inl ConfigDirectorValidationError
      else Inr t)"

definition default_polling_interval :: pyfloat where
  "default_polling_interval = Finite 300"

definition min_polling_interval :: pyfloat where
  "min_polling_interval = Finite 60"

text \<open>\<open>configured >= minimum\<close> fails for NaN as well.\<close>

definition resolve_polling_interval :: "live_mode \<Rightarrow> pyfloat option \<Rightarrow> pyfloat" where
  "resolve_polling_interval mode configured =
     (case configured of
        None \<Rightarrow> default_polling_interval
      | Some x \<Rightarrow>
          if mode \<noteq> Polling \<or> fl_less min_polling_interval x \<or> x = min_polling_interval then x
          else min_polling_interval)"

definition resolve_url :: "platform \<Rightarrow> pystr \<Rightarrow> pystr \<Rightarrow> pystr" where
  "resolve_url pf base path =
     pf_urljoin pf (if base \<noteq> [] \<and> last base = 47 then base else base @ [47]) path"

definition create_transport ::
  "platform \<Rightarrow> connect_plan \<Rightarrow> (pystr, pystr) dict \<Rightarrow> sdk_identity \<Rightarrow> pyfloat \<Rightarrow> any_transport" where
  "create_transport pf plan meta identity interval =
     (case cp_mode plan of
        Polling \<Rightarrow>
          PollingTransport (new_polling (cp_server_sdk_key plan) meta identity
            (resolve_url pf (cp_base_url plan) (py ''server/polling/v1'')) (pf_uuid pf 0) interval)
      | Streaming \<Rightarrow>
          StreamingTransport (new_streaming
            (resolve_url pf (cp_base_url plan) (py ''server/sse/v1''))
            (resolve_url pf (cp_base_url plan) (py ''server/heartbeat/v1''))
            identity (cp_server_sdk_key plan) meta (pf_uuid pf)))"

definition build_transport ::
  "platform \<Rightarrow> connection_plan \<Rightarrow> connection_options \<Rightarrow> (pystr, pystr) dict \<Rightarrow> sdk_identity \<Rightarrow> any_transport" where
  "build_transport pf plan co meta identity =
     (case plan of
        StayOffline source \<Rightarrow> OfflineTransport \<lparr>ot_source = source, ot_connected = False\<rparr>
      | Connect p \<Rightarrow>
          create_transport pf p meta identity (resolve_polling_interval (cp_mode p) (co_polling_interval co)))"

definition new_reporter :: "platform \<Rightarrow> connect_plan \<Rightarrow> (pystr, pystr) dict \<Rightarrow> sdk_identity \<Rightarrow> reporter" where
  "new_reporter pf p meta identity =
     \<lparr>rp_server_sdk_key = cp_server_sdk_key p, rp_meta_context = meta,
      rp_headers = request_headers identity,
      rp_url = resolve_url pf (cp_base_url p) (py ''server/telemetry/v1''),
      rp_timeout = Finite 5, rp_send_requests = True\<rparr>"

definition build_telemetry ::
  "platform \<Rightarrow> connection_plan \<Rightarrow> telemetry_options \<Rightarrow> (pystr, pystr) dict \<Rightarrow> sdk_identity \<Rightarrow> telemetry" where
  "build_telemetry pf plan topts meta identity =
     (case plan of
        StayOffline _ \<Rightarrow> Discarding
      | Connect p \<Rightarrow> Collecting (new_collector (new_reporter pf p meta identity) (nat (to_event_queue_limit topts))))"

definition attach_hook ::
  "pystr \<Rightarrow> nat option option \<Rightarrow> client_state \<Rightarrow> client_state result" where
  "attach_hook event hook c =
     (case hook of
        None \<Rightarrow> Inr c
      | Some h \<Rightarrow> (case client_on event h c of (Inl e, c1) \<Rightarrow> Inl e | (Inr _, c1) \<Rightarrow> Inr c1))"

definition attach_hooks :: "client_hooks option \<Rightarrow> client_state \<Rightarrow> client_state result" where
  "attach_hooks hooks c =
     (case hooks of
        None \<Rightarrow> Inr c
      | Some h \<Rightarrow>
          bindE (attach_hook (py ''client_ready'') (hk_client_ready h) c) (\<lambda>c1.
          bindE (attach_hook (py ''configs_updated'') (hk_configs_updated h) c1) (\<lambda>c2.
            attach_hook (py ''config_evaluated'') (hk_config_evaluated h) c2)))"

definition option_or :: "'a option \<Rightarrow> 'a \<Rightarrow> 'a" where
  "option_or x d = (case x of None \<Rightarrow> d | Some y \<Rightarrow> y)"

text \<open>\<open>__init__\<close> with the makers of the transport and of the telemetry; the defaults are those below.\<close>

definition new_client_with ::
  "platform \<Rightarrow> (connection_plan \<Rightarrow> connection_options \<Rightarrow> (pystr, pystr) dict \<Rightarrow> sdk_identity \<Rightarrow> 't) \<Rightarrow>
    (connection_plan \<Rightarrow> telemetry_options \<Rightarrow> (pystr, pystr) dict \<Rightarrow> sdk_identity \<Rightarrow> telemetry) \<Rightarrow>
    client_arguments \<Rightarrow> 't client result" where
  "new_client_with pf make_transport make_telemetry ar =
     (let co = option_or (ar_connection ar) default_connection;
          metadata = option_or (ar_metadata ar) empty_metadata;
          identity = ar_sdk_identity ar;
          meta = meta_context metadata identity
      in bindE (plan_connection (pf_urlparse pf) (ar_server_sdk_key ar) co) (\<lambda>plan.
         bindE (validated_telemetry (option_or (ar_telemetry ar) default_telemetry)) (\<lambda>topts.
         bindE (attach_hooks (ar_hooks ar)
             (new_client_state metadata (make_telemetry plan topts meta identity))) (\<lambda>state.
           Inr \<lparr>cn_plan = plan, cn_connection = co, cn_transport = make_transport plan co meta identity,
                cn_pool_open = True, cn_state = state\<rparr>))))"

definition new_client :: "platform \<Rightarrow> client_arguments \<Rightarrow> any_transport client result" where
  "new_client pf = new_client_with pf (build_transport pf) (build_telemetry pf)"

definition create_client ::
  "platform \<Rightarrow> pyval \<Rightarrow> metadata option \<Rightarrow> connection_options option \<Rightarrow> telemetry_options option \<Rightarrow>
    client_hooks option \<Rightarrow> any_transport client result" where
  "create_client pf key m co topts hooks =
     new_client pf \<lparr>ar_server_sdk_key = key, ar_metadata = m, ar_connection = co, ar_telemetry = topts,
       ar_hooks = hooks, ar_sdk_identity = server_sdk_identity\<rparr>"

section \<open>Operations\<close>

definition deliver :: "printable \<Rightarrow> datetime \<Rightarrow> config_bundle list \<Rightarrow> 't client \<Rightarrow> 't client" where
  "deliver pr now bs c = c\<lparr>cn_state := fold (on_bundle pr now) bs (cn_state c)\<rparr>"

definition raise_if_closed :: "'t client \<Rightarrow> unit result" where
  "raise_if_closed c = (if cl_closed (cn_state c) then Inl ConfigDirectorValidationError else Inr ())"

text \<open>
  \<open>connect\<close> gets the timeout and returns the bundles it handed over, what it raised and the transport.
\<close>

type_synonym 't connector = "pyfloat \<Rightarrow> 't \<Rightarrow> config_bundle list \<times> unit result \<times> 't"

definition run_connect ::
  "printable \<Rightarrow> datetime \<Rightarrow> 't connector \<Rightarrow> pyfloat \<Rightarrow> 't client \<Rightarrow> unit result \<times> 't client" where
  "run_connect pr now connect timeout c =
     (let (bs, r, t) = connect timeout (cn_transport c)
      in (r, deliver pr now bs (c\<lparr>cn_transport := t\<rparr>)))"

definition connect_and_wait ::
  "printable \<Rightarrow> datetime \<Rightarrow> 't connector \<Rightarrow> pyfloat option \<Rightarrow> 't client \<Rightarrow> unit result \<times> 't client" where
  "connect_and_wait pr now connect timeout c =
     (let effective = option_or timeout (co_timeout (cn_connection c))
      in if not_positive effective then (Inl ConfigDirectorValidationError, c)
         else
           (case raise_if_closed c of
              Inl e \<Rightarrow> (Inl e, c)
            | Inr _ \<Rightarrow> (Inr (), snd (run_connect pr now connect effective c))))"

definition initialize ::
  "printable \<Rightarrow> datetime \<Rightarrow> 't connector \<Rightarrow> pyfloat option \<Rightarrow> 't client \<Rightarrow> unit result \<times> 't client" where
  "initialize pr now connect timeout c =
     (case cn_plan c of
        StayOffline _ \<Rightarrow>
          (case raise_if_closed c of
             Inl e \<Rightarrow> (Inl e, c)
           | Inr _ \<Rightarrow> run_connect pr now connect (co_timeout (cn_connection c)) c)
      | Connect _ \<Rightarrow> connect_and_wait pr now connect timeout c)"

definition client_enter :: "printable \<Rightarrow> datetime \<Rightarrow> 't connector \<Rightarrow> 't client \<Rightarrow> unit result \<times> 't client" where
  "client_enter pr now connect c =
     (if cl_ready (cn_state c) then (Inr (), c) else initialize pr now connect None c)"

text \<open>The order of \<open>close\<close>: the state first, then the transport, the telemetry and the pool.\<close>

definition close_client ::
  "('t \<Rightarrow> 't) \<Rightarrow> pool \<Rightarrow> datetime \<Rightarrow> 't client \<Rightarrow> unit result \<times> 't client" where
  "close_client close pool now c =
     (if cl_closed (cn_state c) then (Inr (), c)
      else
        let (r, s) = client_close_state pool now (cn_state c);
            c1 = c\<lparr>cn_transport := close (cn_transport c), cn_state := s\<rparr>
        in (r, case r of Inl _ \<Rightarrow> c1 | Inr _ \<Rightarrow> c1\<lparr>cn_pool_open := False\<rparr>))"

definition background ::
  "printable \<Rightarrow> datetime \<Rightarrow> ('t \<Rightarrow> config_bundle list \<times> 't) \<Rightarrow> 't client \<Rightarrow> 't client" where
  "background pr now work c =
     (let (bs, t) = work (cn_transport c) in deliver pr now bs (c\<lparr>cn_transport := t\<rparr>))"

text \<open>The client over the transports of the SDK.\<close>

definition sdk_connect :: "printable \<Rightarrow> surroundings \<Rightarrow> any_transport connector" where
  "sdk_connect pr e timeout t = transport_connect pr (e\<lparr>sw_timeout := timeout\<rparr>) t"

definition client_get_value ::
  "printable \<Rightarrow> datetime \<Rightarrow> pyval \<Rightarrow> pyval \<Rightarrow> supplied_context option \<Rightarrow> 't client \<Rightarrow> pyval result \<times> 't client" where
  "client_get_value pr now key d supplied c =
     (let (r, s) = get_value pr now key d supplied (cn_state c) in (r, c\<lparr>cn_state := s\<rparr>))"

section \<open>A client over a lawful transport\<close>

lemma client_ok_bundles: "client_ok c \<Longrightarrow> (\<And>b. b \<in> set bs \<Longrightarrow> bundle_ok b) \<Longrightarrow> client_ok (fold (on_bundle pr now) bs c)"
  by (induction bs arbitrary: c) (auto simp: client_ok_bundle)

lemma closed_bundles: "cl_closed c \<Longrightarrow> fold (on_bundle pr now) bs c = c"
  by (induction bs) (simp_all add: on_bundle_def)

lemma on_bundle_closed [simp]: "cl_closed (on_bundle pr now b c) = cl_closed c"
proof (cases "cl_closed c")
  case False
  then show ?thesis using on_bundle_effect(1) [OF False, where b = b and pr = pr and now = now]
    by (simp add: same_but_calls_def)
qed (simp add: on_bundle_def)

lemma bundles_closed [simp]: "cl_closed (fold (on_bundle pr now) bs c) = cl_closed c"
  by (induction bs arbitrary: c) simp_all

lemma deliver_simps [simp]:
  "cn_transport (deliver pr now bs c) = cn_transport c" "cn_plan (deliver pr now bs c) = cn_plan c"
  "cn_state (deliver pr now bs c) = fold (on_bundle pr now) bs (cn_state c)"
  by (simp_all add: deliver_def)

lemma client_close_closed: "cl_closed (snd (client_close_state pool now c))"
  by (simp add: client_close_state_def Let_def split: prod.splits)

context transport
begin

text \<open>The invariant of a client over this transport.\<close>

definition sound :: "'t client \<Rightarrow> bool" where
  "sound c \<longleftrightarrow> good (cn_transport c) \<and> client_ok (cn_state c) \<and>
     (cl_closed (cn_state c) \<longrightarrow> halted (cn_transport c))"

lemma sound_run_connect:
  assumes "sound c" and "\<not> cl_closed (cn_state c)"
  shows "sound (snd (run_connect pr now (\<lambda>timeout. connect (env timeout)) timeout c))"
proof -
  obtain bs r t where c: "connect (env timeout) (cn_transport c) = (bs, r, t)" by (metis prod_cases3)
  have "good (cn_transport c)" using assms by (simp add: sound_def)
  from good_connect [OF this, of "env timeout"] connect_delivers [OF this, of _ "env timeout"] show ?thesis
    using assms client_ok_bundles [of "cn_state c" bs pr now]
    by (simp add: run_connect_def c sound_def)
qed

lemma sound_initialize:
  assumes "sound c"
  shows "sound (snd (initialize pr now (\<lambda>timeout. connect (env timeout)) timeout c))"
  using assms sound_run_connect [OF assms]
  by (simp add: initialize_def connect_and_wait_def raise_if_closed_def Let_def split: connection_plan.splits)

lemma sound_background:
  assumes "sound c"
  shows "sound (background pr now (work e) c)"
proof -
  obtain bs t where w: "work e (cn_transport c) = (bs, t)" by fastforce
  have "good (cn_transport c)" using assms by (simp add: sound_def)
  from good_work [OF this, of e] work_delivers [OF this, of _ e] show ?thesis
    using assms client_ok_bundles [of "cn_state c" bs pr now] halted_work [of "cn_transport c" e]
    by (auto simp: background_def w sound_def)
qed

lemma closed_background:
  assumes "sound c" and "cl_closed (cn_state c)"
  shows "cn_state (background pr now (work e) c) = cn_state c"
  using assms by (simp add: background_def closed_bundles split_def Let_def)

lemma sound_close:
  assumes "sound c"
  shows "sound (snd (close_client close pool now c))"
  using assms good_close client_ok_close [of "cn_state c" pool now] client_close_closed [of pool now "cn_state c"]
  by (auto simp: close_client_def sound_def Let_def close_halts split: prod.splits sum.splits)

lemma sound_uses: "sound c \<Longrightarrow> client_step (cn_state c) s \<Longrightarrow> cl_closed s = cl_closed (cn_state c) \<Longrightarrow> sound (c\<lparr>cn_state := s\<rparr>)"
  by (auto simp: sound_def dest: client_ok_step)

lemma sound_disconnected: "sound c \<Longrightarrow> cl_closed (cn_state c) \<Longrightarrow> \<not> connected (cn_transport c)"
  by (simp add: sound_def halted_not_connected)

end

section \<open>Runs of a client\<close>

text \<open>
  The operations of the application on the state, \<open>initialize\<close>, the work of the transport and
  \<open>close\<close>, in any order and with any surroundings.
\<close>

inductive live_step :: "printable \<Rightarrow> any_transport client \<Rightarrow> any_transport client \<Rightarrow> bool" for pr where
  uses: "client_step (cn_state c) s \<Longrightarrow> cl_closed s = cl_closed (cn_state c) \<Longrightarrow> live_step pr c (c\<lparr>cn_state := s\<rparr>)"
| initializes: "live_step pr c (snd (initialize pr now (sdk_connect pr e) timeout c))"
| works: "live_step pr c (background pr now (transport_work pr e) c)"
| closes: "live_step pr c (snd (close_client transport_close pool now c))"

inductive live_run :: "printable \<Rightarrow> any_transport client \<Rightarrow> any_transport client \<Rightarrow> bool" for pr where
  start: "live_run pr c c"
| further: "live_run pr c c' \<Longrightarrow> live_step pr c' c'' \<Longrightarrow> live_run pr c c''"

lemma sdk_connect_eq: "sdk_connect pr e = (\<lambda>timeout. transport_connect pr (e\<lparr>sw_timeout := timeout\<rparr>))"
  by (intro ext) (simp add: sdk_connect_def)

lemma live_step_sound: "live_step pr c c' \<Longrightarrow> any.sound pr c \<Longrightarrow> any.sound pr c'"
  by (induction rule: live_step.induct)
    (simp_all add: any.sound_uses any.sound_background any.sound_close sdk_connect_eq any.sound_initialize)

lemma live_run_sound: "live_run pr c c' \<Longrightarrow> any.sound pr c \<Longrightarrow> any.sound pr c'"
  by (induction rule: live_run.induct) (auto dest: live_step_sound)

lemma set_handlers_others [simp]:
  "cl_telemetry (set_handlers ev hs c) = cl_telemetry c" "cl_metadata (set_handlers ev hs c) = cl_metadata c"
  by (simp_all add: set_handlers_def)

lemma attach_hook_ok: "attach_hook event hook c = Inr c' \<Longrightarrow> client_ok c \<Longrightarrow> client_ok c' \<and> cl_closed c' = cl_closed c \<and> cl_ready c' = cl_ready c \<and>
    cl_telemetry c' = cl_telemetry c \<and> cl_metadata c' = cl_metadata c"
  by (auto simp: attach_hook_def client_on_def client_ok_set_handlers split: option.splits sum.splits)

lemma attach_hooks_ok: "attach_hooks hooks c = Inr c' \<Longrightarrow> client_ok c \<Longrightarrow> client_ok c' \<and> cl_closed c' = cl_closed c \<and> cl_ready c' = cl_ready c \<and>
    cl_telemetry c' = cl_telemetry c \<and> cl_metadata c' = cl_metadata c"
  by (auto simp: attach_hooks_def bindE_Inr_iff dest!: attach_hook_ok split: option.splits)

lemma build_transport_good: "transport_good pr (build_transport pf plan co meta identity)"
  by (simp add: transport_good_def build_transport_def create_transport_def streaming_good_def new_streaming_def
      delivers_ok_def split: connection_plan.splits live_mode.splits any_transport.splits)

lemma attach_hooks_new:
  "attach_hooks hooks (new_client_state m t) = Inr c \<Longrightarrow> client_ok c \<and> \<not> cl_closed c \<and> \<not> cl_ready c \<and>
    cl_telemetry c = t \<and> cl_metadata c = m"
  using attach_hooks_ok [OF _ client_ok_new, of hooks m t c] by (simp add: new_client_state_def)

lemma new_client_sound: "new_client pf ar = Inr c \<Longrightarrow> any.sound pr c"
  by (auto simp: new_client_def new_client_with_def bindE_Inr_iff Let_def any.sound_def build_transport_good
      dest!: attach_hooks_new)

section \<open>Properties\<close>


definition good_url :: "url_parser \<Rightarrow> pystr option \<Rightarrow> bool" where
  "good_url urlparse url \<longleftrightarrow>
     (case url of
        None \<Rightarrow> True
      | Some u \<Rightarrow> (case urlparse u of Inr (scheme, netloc) \<Rightarrow> scheme \<noteq> [] \<and> netloc \<noteq> [] | Inl _ \<Rightarrow> False))"

definition good_connection :: "url_parser \<Rightarrow> pyval \<Rightarrow> connection_options \<Rightarrow> bool" where
  "good_connection urlparse key co \<longleftrightarrow>
     co_mode co = PStr (py ''offline'') \<or>
     co_mode co \<in> {PStr (py ''streaming''), PStr (py ''polling'')} \<and> has_content key \<and>
     (co_file co \<noteq> None \<or> co_values co \<noteq> None \<or> good_url urlparse (co_url co))"

definition callable :: "nat option option \<Rightarrow> bool" where
  "callable hook \<longleftrightarrow> hook \<noteq> Some None"

lemma plan_connection_good: "(\<exists>p. plan_connection urlparse key co = Inr p) \<longleftrightarrow> good_connection urlparse key co"
proof -
  have url: "(\<exists>u. base_url_of urlparse (co_url co) = Inr u) \<longleftrightarrow> good_url urlparse (co_url co)"
    by (auto simp: base_url_of_def good_url_def bindE_def split: option.splits sum.splits prod.splits)
  have key: "(\<exists>k. validated_server_sdk_key key = Inr k) \<longleftrightarrow> has_content key"
    by (auto simp: validated_server_sdk_key_def split: pyval.splits scalar.splits dest: has_content_str)
  have mode: "(\<exists>m. live_mode_of (co_mode co) = Inr m) \<longleftrightarrow> co_mode co \<in> {PStr (py ''streaming''), PStr (py ''polling'')}"
    by (auto simp: live_mode_of_def)
  show ?thesis
    unfolding good_connection_def mode [symmetric] key [symmetric] url [symmetric] plan_connection_def
    by (cases "co_file co \<noteq> None \<or> co_values co \<noteq> None")
      (simp_all add: bindE_Inr_iff del: not_None_eq, auto)
qed

lemma attach_hook_callable:
  "(\<exists>c'. attach_hook (py n) hook c = Inr c') \<longleftrightarrow> callable hook"
  if "n \<in> {''client_ready'', ''configs_updated'', ''config_evaluated''}"
  using that by (cases hook; cases "the hook")
    (auto simp: attach_hook_def client_on_def event_of_name_def callable_def split: option.splits)

lemma attach_hooks_callable:
  "(\<exists>c'. attach_hooks hooks c = Inr c') \<longleftrightarrow>
     (case hooks of None \<Rightarrow> True | Some h \<Rightarrow>
        callable (hk_client_ready h) \<and> callable (hk_configs_updated h) \<and> callable (hk_config_evaluated h))"
proof (cases hooks)
  case (Some h)
  note a = attach_hook_callable [of "''client_ready''" "hk_client_ready h"]
    attach_hook_callable [of "''configs_updated''" "hk_configs_updated h"]
    attach_hook_callable [of "''config_evaluated''" "hk_config_evaluated h"]
  show ?thesis using a [simplified] by (simp add: Some attach_hooks_def bindE_Inr_iff) blast
qed (simp add: attach_hooks_def)

text \<open>
  C39 (construction_succeeds). A client can be built exactly when the connection can be planned (offline,
  or a known mode with an SDK key that is not blank and, unless \<open>file\<close> or \<open>values\<close> is given by mistake,
  a URL with a scheme and a host), the queue limit is between 100 and 100000, the flush interval is
  positive and every hook is callable. It starts open, not ready and disconnected.
\<close>

theorem construction_succeeds:
  "(\<exists>c. new_client pf ar = Inr c \<and> \<not> cl_closed (cn_state c) \<and> \<not> cl_ready (cn_state c) \<and>
      \<not> transport_is_connected (cn_transport c)) \<longleftrightarrow>
   good_connection (pf_urlparse pf) (ar_server_sdk_key ar) (option_or (ar_connection ar) default_connection) \<and>
   100 \<le> to_event_queue_limit (option_or (ar_telemetry ar) default_telemetry) \<and>
   to_event_queue_limit (option_or (ar_telemetry ar) default_telemetry) \<le> 100000 \<and>
   \<not> not_positive (to_flush_interval (option_or (ar_telemetry ar) default_telemetry)) \<and>
   (case ar_hooks ar of None \<Rightarrow> True | Some h \<Rightarrow>
      callable (hk_client_ready h) \<and> callable (hk_configs_updated h) \<and> callable (hk_config_evaluated h))"
  (is "?built \<longleftrightarrow> ?good")
proof -
  have fresh: "\<not> transport_is_connected (build_transport pf plan co meta identity)" for plan co meta identity
    by (simp add: transport_is_connected_def build_transport_def create_transport_def polling_is_connected_def
        new_polling_def streaming_is_connected_def new_streaming_def split: connection_plan.splits live_mode.splits)
  have quiet: "\<not> cl_closed s \<and> \<not> cl_ready s" if "attach_hooks hooks (new_client_state m t) = Inr s" for hooks m t s
    using attach_hooks_new [OF that] by simp
  have t: "(\<exists>x. validated_telemetry o' = Inr x) \<longleftrightarrow> 100 \<le> to_event_queue_limit o' \<and>
      to_event_queue_limit o' \<le> 100000 \<and> \<not> not_positive (to_flush_interval o')" for o'
    by (auto simp: validated_telemetry_def min_event_queue_limit_def max_event_queue_limit_def)
  have "?built \<longleftrightarrow> (\<exists>c. new_client pf ar = Inr c)"
    using fresh quiet by (auto simp: new_client_def new_client_with_def Let_def bindE_Inr_iff)
  also have "\<dots> \<longleftrightarrow> ?good"
    unfolding attach_hooks_callable [symmetric, of "ar_hooks ar"] plan_connection_good [symmetric]
    using t [of "option_or (ar_telemetry ar) default_telemetry"] attach_hooks_callable [of "ar_hooks ar"]
    by (fastforce simp: new_client_def new_client_with_def Let_def bindE_Inr_iff)
  finally show ?thesis .
qed

lemma offline_config_key:
  assumes "offline_config pr (PStr key, v) = Inr (k, cfg)"
  shows "k = key \<and> unconditional_config (PStr key) v (py ''offline:'' @ key) None = Inr cfg"
proof -
  have u: "unconditional_config (PStr key) v (py ''offline:'' @ key) None = Inr cfg" and k: "k = cfg_key cfg"
    using assms by (auto simp: offline_config_def bindE_Inr_iff)
  obtain t tx where "encode_value (PStr key) v = Inr (t, tx)" using u evaluate_unconditional by blast
  with u k show ?thesis by (auto simp: unconditional_config_def)
qed

lemma dict_get_of_list: "dict_ok d \<Longrightarrow> dict_get (dict_update [] d) k = map_of d k"
  by (simp add: dict_get_update) (simp add: dict_get_def split: option.splits)

lemma offline_configs_lookup:
  assumes "mapE (offline_config pr) (map (\<lambda>(k, v). (PStr k, v)) vs) = Inr cs" and "distinct (map fst vs)"
    and "(key, v) \<in> set vs"
  obtains cfg where "dict_get (dict_update [] cs) key = Some cfg"
    and "unconditional_config (PStr key) v (py ''offline:'' @ key) None = Inr cfg"
proof -
  have "map fst cs = map fst vs \<and>
      (\<exists>cfg. (key, cfg) \<in> set cs \<and> unconditional_config (PStr key) v (py ''offline:'' @ key) None = Inr cfg)"
    using assms(1,3)
  proof (induction vs arbitrary: cs)
    case (Cons kv vs)
    obtain k x where kv: "kv = (k, x)" by fastforce
    from Cons.prems(1) obtain k' cfg cs' where c: "offline_config pr (PStr k, x) = Inr (k', cfg)"
      "mapE (offline_config pr) (map (\<lambda>(k, v). (PStr k, v)) vs) = Inr cs'" "cs = (k', cfg) # cs'"
      by (auto simp: kv bindE_Inr_iff)
    note e = offline_config_key [OF c(1)]
    have "map fst cs' = map fst vs"
      using c(2) by (induction vs arbitrary: cs') (auto simp: bindE_Inr_iff split_def dest!: offline_config_key)
    with Cons kv c e show ?case by auto
  qed simp
  then obtain cfg where "map fst cs = map fst vs" "(key, cfg) \<in> set cs"
    "unconditional_config (PStr key) v (py ''offline:'' @ key) None = Inr cfg" by blast
  moreover from this assms(2) have "dict_ok cs" by (simp add: dict_ok_def)
  ultimately show thesis using that by (simp add: dict_get_of_list dict_ok_def map_of_eq_Some_iff)
qed

lemma mapE_total: "(\<And>x. x \<in> set xs \<Longrightarrow> \<not> isl (f x)) \<Longrightarrow> \<exists>ys. mapE f xs = Inr ys"
proof (induction xs)
  case (Cons x xs)
  then obtain ys where "mapE f xs = Inr ys" by auto
  moreover from Cons.prems [of x] obtain y where "f x = Inr y" by (cases "f x") auto
  ultimately show ?case by simp
qed simp

lemma new_offline_client:
  assumes "new_client pf ar = Inr c" and "ar_connection ar = Some co" and "co_mode co = PStr (py ''offline'')"
  shows "cn_plan c = StayOffline (offline_source_of co) \<and>
    cn_transport c = OfflineTransport \<lparr>ot_source = offline_source_of co, ot_connected = False\<rparr> \<and>
    \<not> cl_closed (cn_state c) \<and> \<not> cl_ready (cn_state c) \<and> client_ok (cn_state c) \<and>
    cl_telemetry (cn_state c) = Discarding"
  using assms
  by (auto simp: new_client_def new_client_with_def Let_def bindE_Inr_iff plan_connection_def option_or_def
      build_transport_def build_telemetry_def dest: attach_hooks_new)

lemma served_value:
  assumes "unconditional_config (PStr key) v cid vid = Inr cfg" and "native_plain v" and "same_type v d"
    and "\<And>ty. \<not> isl (value_id_for pr v ty)"
  shows "value_of pr False meta m key (Some cfg) d supplied segs = Some v"
proof -
  let ?s = "evaluate cfg (Some \<lparr>ec_context = checked_of supplied, ec_metadata = Some meta\<rparr>) (Some segs)"
  have p: "parse_config_value ?s d =
      Inr \<lparr>pv_value = v, pv_reason = FoundMatch, pv_used_default = False, pv_value_id = vid\<rparr>"
    by (rule unconditional_reads_back [OF assms(2,3,1)])
  have "\<not> isl (result_value_id pr \<lparr>pv_value = v, pv_reason = FoundMatch, pv_used_default = False, pv_value_id = vid\<rparr>
      (st_type ?s))"
    using assms(4) by (simp add: result_value_id_def split: option.splits)
  then obtain i where "result_value_id pr
      \<lparr>pv_value = v, pv_reason = FoundMatch, pv_used_default = False, pv_value_id = vid\<rparr> (st_type ?s) = Inr i"
    by (auto simp: isl_def) (metis sum.exhaust_sel)
  with p show ?thesis by (simp add: value_of_def evaluation_of_def Let_def)
qed


section \<open>Witnesses\<close>

definition sample_platform :: platform where
  "sample_platform = \<lparr>pf_urlparse = (\<lambda>u. Inr (py ''https'', u)), pf_urljoin = (\<lambda>b p. b @ p), pf_uuid = (\<lambda>n. [48 + n])\<rparr>"

definition sample_offline :: connection_options where
  "sample_offline = default_connection\<lparr>co_mode := PStr (py ''offline''),
     co_values := Some (map (\<lambda>(k, v). (PStr k, v)) [(py ''flag'', PBool True)])\<rparr>"

definition sample_arguments :: client_arguments where
  "sample_arguments = \<lparr>ar_server_sdk_key = PNone, ar_metadata = None, ar_connection = Some sample_offline,
     ar_telemetry = None, ar_hooks = None, ar_sdk_identity = server_sdk_identity\<rparr>"

definition no_surroundings :: surroundings where
  "no_surroundings = \<lparr>sw_read_file = (\<lambda>_. None), sw_decode = (\<lambda>_. None), sw_pool = no_network,
     sw_later_pools = [], sw_timeout = Finite 1, sw_attempts = []\<rparr>"

lemma sample_client: "\<exists>c. new_client sample_platform sample_arguments = Inr c"
proof -
  have "validated_telemetry default_telemetry = Inr default_telemetry"
    by (simp add: validated_telemetry_def default_telemetry_def min_event_queue_limit_def max_event_queue_limit_def
        not_positive_def)
  then show ?thesis
    by (simp add: new_client_def new_client_with_def sample_arguments_def option_or_def sample_offline_def
        plan_connection_def attach_hooks_def Let_def)
qed



end
