(* ===== verification/In_Memory.thy ===== *)
theory In_Memory
  imports Client
begin

text \<open>
  The test client: \<open>_in_memory_connection.py\<close> and \<open>testing.py\<close>. The in-memory connection is the
  transport of a real client. Its operations return the bundles they deliver; what other threads do
  while \<open>initialize\<close> waits is a list of controls. A delivery is made at once here; \<open>Deliveries\<close> models
  the queue of deliveries, for controls used inside handlers and by several threads.
\<close>

section \<open>The connection\<close>

datatype armed = Hold | Failure

datatype attempt_outcome = Completed | AttemptFailed | AttemptEnded

record in_memory =
  im_configs :: "(pystr, config) dict"
  im_armed :: "armed option"
  im_held :: bool
  im_connected :: bool
  im_attempts_connected :: bool

definition test_config :: "printable \<Rightarrow> pyval \<Rightarrow> pyval \<Rightarrow> config result" where
  "test_config pr key v =
     bindE (py_str pr key) (\<lambda>k.
       unconditional_config key v (py ''test-config:'' @ k) (Some (py ''test-value:'' @ k)))"

text \<open>The key of an entry is the key of its config, which is a string.\<close>

definition test_entry :: "printable \<Rightarrow> pyval \<times> pyval \<Rightarrow> (pystr \<times> config) result" where
  "test_entry pr kv = bindE (test_config pr (fst kv) (snd kv)) (\<lambda>cfg. Inr (cfg_key cfg, cfg))"

definition test_configs :: "printable \<Rightarrow> (pyval \<times> pyval) list option \<Rightarrow> (pystr, config) dict result" where
  "test_configs pr values =
     (case values of
        None \<Rightarrow> Inr []
      | Some vs \<Rightarrow> bindE (mapE (test_entry pr) vs) (\<lambda>cs. Inr (dict_update [] cs)))"

definition test_bundle :: "(pystr, config) dict \<Rightarrow> bundle_kind \<Rightarrow> config_bundle" where
  "test_bundle cs kind =
     \<lparr>cb_configs = cs, cb_segments = [], cb_kind = kind, cb_unreadable_keys = [],
      cb_environment_id = Some (py ''test-environment''), cb_project_id = Some (py ''test-project''),
      cb_timestamp = None\<rparr>"

definition full_update :: "in_memory \<Rightarrow> config_bundle" where
  "full_update t = test_bundle (im_configs t) Full"

definition delta_update :: "pystr \<Rightarrow> config \<Rightarrow> config_bundle" where
  "delta_update key cfg = test_bundle [(key, cfg)] Delta"

section \<open>What the test controls\<close>

text \<open>The result, the bundles delivered, and the outcome given to an attempt that was held.\<close>

type_synonym control_result = "unit result \<times> config_bundle list \<times> attempt_outcome option \<times> in_memory"

definition set_value :: "printable \<Rightarrow> pyval \<Rightarrow> pyval \<Rightarrow> in_memory \<Rightarrow> control_result" where
  "set_value pr key v t =
     (case test_entry pr (key, v) of
        Inl e \<Rightarrow> (Inl e, [], None, t)
      | Inr (k, cfg) \<Rightarrow>
          (Inr (), if im_connected t then [delta_update k cfg] else [], None,
           t\<lparr>im_configs := dict_set k cfg (im_configs t)\<rparr>))"

definition remove_value :: "pyval \<Rightarrow> in_memory \<Rightarrow> control_result" where
  "remove_value key t =
     (case validate_config_key key of
        Inl e \<Rightarrow> (Inl e, [], None, t)
      | Inr _ \<Rightarrow>
          let t1 = t\<lparr>im_configs := (case key of PStr k \<Rightarrow> dict_del k (im_configs t) | _ \<Rightarrow> im_configs t)\<rparr>
          in (Inr (), if im_connected t1 then [full_update t1] else [], None, t1))"

definition replace_values :: "printable \<Rightarrow> (pyval \<times> pyval) list \<Rightarrow> in_memory \<Rightarrow> control_result" where
  "replace_values pr vs t =
     (case test_configs pr (Some vs) of
        Inl e \<Rightarrow> (Inl e, [], None, t)
      | Inr cs \<Rightarrow>
          let t1 = t\<lparr>im_configs := cs, im_armed := None\<rparr>
          in (Inr (), if im_connected t1 then [full_update t1] else [], None, t1))"

definition hold_initialization :: "in_memory \<Rightarrow> control_result" where
  "hold_initialization t = (Inr (), [], None, t\<lparr>im_armed := Some Hold\<rparr>)"

definition complete_initialization :: "in_memory \<Rightarrow> control_result" where
  "complete_initialization t =
     (if im_held t then
        let t1 = t\<lparr>im_held := False, im_connected := True\<rparr> in (Inr (), [full_update t1], Some Completed, t1)
      else (Inr (), [], None, if im_armed t = Some Hold then t\<lparr>im_armed := None\<rparr> else t))"

definition fail_initialization :: "in_memory \<Rightarrow> control_result" where
  "fail_initialization t =
     (if im_held t then (Inr (), [], Some AttemptFailed, t\<lparr>im_held := False\<rparr>)
      else (Inr (), [], None, t\<lparr>im_armed := Some Failure\<rparr>))"

datatype control =
    SetValue pyval pyval
  | RemoveValue pyval
  | ReplaceValues "(pyval \<times> pyval) list"
  | HoldInitialization
  | CompleteInitialization
  | FailInitialization

definition run_control :: "printable \<Rightarrow> control \<Rightarrow> in_memory \<Rightarrow> control_result" where
  "run_control pr x t =
     (case x of
        SetValue key v \<Rightarrow> set_value pr key v t
      | RemoveValue key \<Rightarrow> remove_value key t
      | ReplaceValues vs \<Rightarrow> replace_values pr vs t
      | HoldInitialization \<Rightarrow> hold_initialization t
      | CompleteInitialization \<Rightarrow> complete_initialization t
      | FailInitialization \<Rightarrow> fail_initialization t)"

section \<open>The transport\<close>

text \<open>
  \<open>_await_held\<close>: the controls that other threads use until one settles the attempt; when none does,
  the timeout ends it.
\<close>

fun await_held ::
  "printable \<Rightarrow> control list \<Rightarrow> in_memory \<Rightarrow> config_bundle list \<times> attempt_outcome \<times> in_memory" where
  "await_held pr [] t = ([], AttemptEnded, t\<lparr>im_held := False\<rparr>)"
| "await_held pr (x # xs) t =
     (case run_control pr x t of
        (r, bs, Some outcome, t1) \<Rightarrow> (bs, outcome, t1)
      | (r, bs, None, t1) \<Rightarrow> (let (cs, outcome, t2) = await_held pr xs t1 in (bs @ cs, outcome, t2)))"

definition fatal_error :: exn where
  "fatal_error = fatal_status_error (Some 401)"

definition attempt_connect ::
  "printable \<Rightarrow> control list \<Rightarrow> in_memory \<Rightarrow> config_bundle list \<times> unit result \<times> in_memory" where
  "attempt_connect pr meanwhile t =
     (let t1 = t\<lparr>im_connected := False, im_held := False, im_armed := None\<rparr>
      in case im_armed t of
           Some Failure \<Rightarrow> ([], Inl fatal_error, t1)
         | Some Hold \<Rightarrow>
             (let (bs, outcome, t2) = await_held pr meanwhile (t1\<lparr>im_held := True\<rparr>)
              in (bs, if outcome = AttemptFailed then Inl fatal_error else Inr (), t2))
         | None \<Rightarrow> (let t2 = t1\<lparr>im_connected := True\<rparr> in ([full_update t2], Inr (), t2)))"

definition connect_in_memory ::
  "printable \<Rightarrow> control list \<Rightarrow> in_memory \<Rightarrow> config_bundle list \<times> unit result \<times> in_memory" where
  "connect_in_memory pr meanwhile t =
     (case attempt_connect pr meanwhile t of
        (bs, Inl e, t1) \<Rightarrow> (bs, Inl e, t1)
      | (bs, Inr _, t1) \<Rightarrow> (bs, Inr (), t1\<lparr>im_attempts_connected := True\<rparr>))"

definition work_in_memory :: "control list \<Rightarrow> in_memory \<Rightarrow> config_bundle list \<times> in_memory" where
  "work_in_memory meanwhile t = ([], t)"

definition close_in_memory :: "in_memory \<Rightarrow> in_memory" where
  "close_in_memory t = t\<lparr>im_attempts_connected := False, im_connected := False, im_held := False\<rparr>"

section \<open>The test client\<close>

definition new_in_memory :: "printable \<Rightarrow> (pyval \<times> pyval) list option \<Rightarrow> in_memory result" where
  "new_in_memory pr values =
     bindE (test_configs pr values) (\<lambda>cs.
       Inr \<lparr>im_configs = cs, im_armed = None, im_held = False, im_connected = False, im_attempts_connected = False\<rparr>)"

definition create_test_client ::
  "printable \<Rightarrow> platform \<Rightarrow> (pyval \<times> pyval) list option \<Rightarrow> pyfloat option \<Rightarrow> in_memory client result" where
  "create_test_client pr pf values timeout =
     bindE (new_in_memory pr values) (\<lambda>t.
       new_client_with pf (\<lambda>_ _ _ _. t) (\<lambda>_ _ _ _. Discarding)
         \<lparr>ar_server_sdk_key = PStr (py ''test-client''), ar_metadata = None,
          ar_connection = Some (case timeout of None \<Rightarrow> default_connection
                                | Some x \<Rightarrow> default_connection\<lparr>co_timeout := x\<rparr>),
          ar_telemetry = None, ar_hooks = None, ar_sdk_identity = server_sdk_identity\<rparr>)"

definition test_control ::
  "printable \<Rightarrow> datetime \<Rightarrow> control \<Rightarrow> in_memory client \<Rightarrow> unit result \<times> in_memory client" where
  "test_control pr now x c =
     (let (r, bs, outcome, t) = run_control pr x (cn_transport c)
      in (r, deliver pr now bs (c\<lparr>cn_transport := t\<rparr>)))"

definition is_holding_an_attempt :: "in_memory client \<Rightarrow> bool" where
  "is_holding_an_attempt c = im_held (cn_transport c)"

definition test_initialize ::
  "printable \<Rightarrow> datetime \<Rightarrow> control list \<Rightarrow> pyfloat option \<Rightarrow> in_memory client \<Rightarrow> unit result \<times> in_memory client" where
  "test_initialize pr now meanwhile = initialize pr now (\<lambda>_. connect_in_memory pr meanwhile)"

definition test_close :: "datetime \<Rightarrow> in_memory client \<Rightarrow> unit result \<times> in_memory client" where
  "test_close now c = close_client close_in_memory no_network now c"

section \<open>The client sees what the test stored\<close>

text \<open>A connected connection holds the configs that the client knows.\<close>

definition tracks :: "known option \<Rightarrow> in_memory \<Rightarrow> bool" where
  "tracks k t \<longleftrightarrow>
     dict_ok (im_configs t) \<and>
     (im_connected t \<longrightarrow> (\<exists>m. k = Some m \<and> known_configs m = dict_get (im_configs t)))"

lemma tracks_fields [simp]: "tracks k (t\<lparr>im_armed := a\<rparr>) = tracks k t" "tracks k (t\<lparr>im_held := h\<rparr>) = tracks k t"
  by (simp_all add: tracks_def)

lemma full_update_armed [simp]: "full_update (t\<lparr>im_armed := a\<rparr>) = full_update t"
  by (simp add: full_update_def)

lemma test_bundle_ok [simp]: "dict_ok cs \<Longrightarrow> bundle_ok (test_bundle cs kind)"
  by (simp add: bundle_ok_def test_bundle_def)

lemma test_configs_ok: "test_configs pr values = Inr cs \<Longrightarrow> dict_ok cs"
  by (auto simp: test_configs_def bindE_Inr_iff split: option.splits)

lemma full_tracks: "dict_ok (im_configs t) \<Longrightarrow> tracks (apply_bundle (full_update t) k) t"
  by (auto simp: tracks_def apply_bundle_def full_update_def test_bundle_def split: option.splits)

lemma full_update_ok [simp]: "dict_ok (im_configs t) \<Longrightarrow> bundle_ok (full_update t)"
  by (simp add: full_update_def)

lemma not_connected_tracks: "dict_ok (im_configs t) \<Longrightarrow> \<not> im_connected t \<Longrightarrow> tracks k t"
  by (simp add: tracks_def)

lemma delta_update_ok [simp]: "bundle_ok (delta_update key cfg)"
  by (simp add: delta_update_def dict_ok_def)

lemma dict_get_maps: "dict_get (dict_set k v d) = (dict_get d)(k \<mapsto> v)" "dict_get [(k, v)] = [k \<mapsto> v]"
  by (rule ext, simp) (rule ext, simp add: dict_get_def)

lemma delta_tracks:
  assumes "tracks k t" and "im_connected t"
  shows "tracks (apply_bundle (delta_update key cfg) k) (t\<lparr>im_configs := dict_set key cfg (im_configs t)\<rparr>)"
  using assms
  by (auto simp: tracks_def apply_bundle_def delta_update_def test_bundle_def dict_get_maps split: option.splits)

lemma control_tracks:
  assumes "run_control pr x t = (r, bs, outcome, t')" and "tracks k t"
  shows "tracks (fold apply_bundle bs k) t'" and "\<And>b. b \<in> set bs \<Longrightarrow> bundle_ok b"
    and "outcome \<noteq> None \<longleftrightarrow> im_held t \<and> \<not> im_held t'"
proof -
  have ok: "dict_ok (im_configs t)" using assms(2) by (simp add: tracks_def)
  have "tracks (fold apply_bundle bs k) t' \<and> (\<forall>b\<in>set bs. bundle_ok b) \<and> (outcome \<noteq> None \<longleftrightarrow> im_held t \<and> \<not> im_held t')"
  proof (cases x)
    case (SetValue key v)
    then show ?thesis using assms ok delta_tracks [OF assms(2)]
      by (auto simp: run_control_def set_value_def tracks_def split: sum.splits)
  next
    case (RemoveValue key)
    then show ?thesis using assms ok
      by (cases "im_connected t"; cases key rule: type_name.cases)
        (auto simp: run_control_def remove_value_def Let_def full_tracks not_connected_tracks split: sum.splits)
  qed (use assms ok in \<open>auto simp: run_control_def replace_values_def replace_values_def hold_initialization_def
      complete_initialization_def fail_initialization_def Let_def full_tracks not_connected_tracks
      dest: test_configs_ok split: sum.splits if_splits pyval.splits scalar.splits\<close>)
  then show "tracks (fold apply_bundle bs k) t'" "\<And>b. b \<in> set bs \<Longrightarrow> bundle_ok b"
    "outcome \<noteq> None \<longleftrightarrow> im_held t \<and> \<not> im_held t'" by auto
qed

lemma await_tracks:
  assumes "await_held pr xs t = (bs, outcome, t')" and "tracks k t" and "\<not> im_connected t" and "im_held t"
  shows "tracks (fold apply_bundle bs k) t'" and "\<And>b. b \<in> set bs \<Longrightarrow> bundle_ok b" and "\<not> im_held t'"
proof -
  have "tracks (fold apply_bundle bs k) t' \<and> (\<forall>b\<in>set bs. bundle_ok b) \<and> \<not> im_held t'"
    using assms(1,2,4)
  proof (induction xs arbitrary: t k bs)
    case Nil
    then show ?case by (auto simp: tracks_def)
  next
    case (Cons x xs)
    obtain r cs out t1 where c: "run_control pr x t = (r, cs, out, t1)" by (metis prod_cases4)
    note t1 = control_tracks [OF c Cons.prems(2)]
    show ?case
    proof (cases out)
      case None
      then have "im_held t1" using t1(3) Cons.prems(3) by auto
      moreover obtain ds where d: "await_held pr xs t1 = (ds, outcome, t')" "bs = cs @ ds"
        using Cons.prems(1) c None by (auto split: prod.splits)
      ultimately show ?thesis using Cons.IH [OF d(1) t1(1)] t1(2) by auto
    next
      case (Some x)
      then show ?thesis using Cons.prems(1) c t1 by auto
    qed
  qed
  then show "tracks (fold apply_bundle bs k) t'" "\<And>b. b \<in> set bs \<Longrightarrow> bundle_ok b" "\<not> im_held t'" by auto
qed

lemma attempt_tracks:
  assumes "attempt_connect pr xs t = (bs, r, t')" and "dict_ok (im_configs t)"
  shows "tracks (fold apply_bundle bs k) t' \<and> (\<forall>b\<in>set bs. bundle_ok b)"
proof (cases "im_armed t = Some Hold")
  case True
  let ?t = "t\<lparr>im_connected := False, im_armed := None, im_held := True\<rparr>"
  obtain cs outcome t2 where a: "await_held pr xs ?t = (cs, outcome, t2)" by (metis prod_cases3)
  have "tracks k ?t" using assms(2) by (simp add: tracks_def)
  from await_tracks [OF a this] True assms(1) a show ?thesis by (auto simp: attempt_connect_def Let_def)
next
  case False
  with assms show ?thesis
    by (auto simp: attempt_connect_def Let_def full_tracks not_connected_tracks split: option.splits armed.splits)
qed

lemma connect_tracks:
  assumes "connect_in_memory pr xs t = (bs, r, t')" and "dict_ok (im_configs t)"
  shows "tracks (fold apply_bundle bs k) t' \<and> (\<forall>b\<in>set bs. bundle_ok b)"
proof -
  obtain cs q t1 where a: "attempt_connect pr xs t = (cs, q, t1)" by (metis prod_cases3)
  with assms(1) have "bs = cs" "t' = t1 \<or> t' = t1\<lparr>im_attempts_connected := True\<rparr>"
    by (auto simp: connect_in_memory_def split: sum.splits)
  with attempt_tracks [OF a assms(2), of k] show ?thesis by (auto simp: tracks_def)
qed

interpretation memory: transport "connect_in_memory pr" work_in_memory close_in_memory im_attempts_connected
  "\<lambda>t. \<not> im_attempts_connected t \<and> \<not> im_connected t \<and> \<not> im_held t" "\<lambda>t. dict_ok (im_configs t)" for pr
proof
  show "dict_ok (im_configs (snd (snd (connect_in_memory pr e t))))" if "dict_ok (im_configs t)" for e t
    using connect_tracks [of pr e t _ _ _ None] that by (metis prod.collapse tracks_def)
  show "bundle_ok b" if "dict_ok (im_configs t)" "b \<in> set (fst (connect_in_memory pr e t))" for b e t
    using connect_tracks [of pr e t _ _ _ None] that by (metis prod.collapse)
qed (simp_all add: work_in_memory_def close_in_memory_def)

section \<open>Runs of a test client\<close>

text \<open>
  The application uses the client in any way that brings no bundle, initializes it while the test uses
  its controls, or closes it; the test uses its controls.
\<close>

inductive test_step :: "printable \<Rightarrow> in_memory client \<Rightarrow> in_memory client \<Rightarrow> bool" for pr where
  uses: "client_step (cn_state c) s \<Longrightarrow> cl_closed s = cl_closed (cn_state c) \<Longrightarrow> known_of s = known_of (cn_state c) \<Longrightarrow>
    test_step pr c (c\<lparr>cn_state := s\<rparr>)"
| initializes: "test_step pr c (snd (test_initialize pr now meanwhile timeout c))"
| controls: "test_step pr c (snd (test_control pr now x c))"
| closes: "test_step pr c (snd (test_close now c))"

inductive test_run :: "printable \<Rightarrow> in_memory client \<Rightarrow> in_memory client \<Rightarrow> bool" for pr where
  start: "test_run pr c c"
| further: "test_run pr c c' \<Longrightarrow> test_step pr c' c'' \<Longrightarrow> test_run pr c c''"

lemma silent_step:
  assumes "client_step c c'" and "\<not> collects (cl_telemetry c)"
  shows "\<not> collects (cl_telemetry c')"
  using assms
proof (induction rule: client_step.induct)
  case (step_bundle b c pr now)
  then show ?case
  proof (cases "cl_closed c")
    case False
    then show ?thesis
      using step_bundle.prems on_bundle_effect(1) [OF False, where b = b and pr = pr and now = now]
      by (simp add: same_but_calls_def)
  qed (simp add: on_bundle_def)
next
  case (step_close c pool now)
  have "\<not> collects (snd (telemetry_close pool now t))" if "\<not> collects t" for t
    using that by (auto simp: collects_def telemetry_close_def close_collector_def clear_all_def Let_def split_def
        split: telemetry.splits)
  then show ?case using step_close by (simp add: client_close_state_def Let_def split_def)
qed (simp_all add: client_on_def client_off_def remove_handler_def watch_def unwatch_def unwatch_all_def Let_def
    subscription_close_def remove_watcher_def
    split: sum.splits option.splits pyval.splits scalar.splits cancellation.splits)

lemma silent_bundles:
  "\<not> collects (cl_telemetry c) \<Longrightarrow> (\<And>b. b \<in> set bs \<Longrightarrow> bundle_ok b) \<Longrightarrow> \<not> collects (cl_telemetry (fold (on_bundle pr now) bs c))"
  by (induction bs arbitrary: c) (auto dest: silent_step [OF step_bundle])

definition in_sync :: "in_memory client \<Rightarrow> bool" where
  "in_sync c \<longleftrightarrow>
     memory.sound c \<and> \<not> collects (cl_telemetry (cn_state c)) \<and>
     (\<not> cl_closed (cn_state c) \<longrightarrow> tracks (known_of (cn_state c)) (cn_transport c))"

lemma sync_sound: "in_sync c \<Longrightarrow> memory.sound c"
  by (simp add: in_sync_def)

lemma sync_deliver:
  assumes "in_sync c" and "\<not> cl_closed (cn_state c)" and "\<And>b. b \<in> set bs \<Longrightarrow> bundle_ok b"
    and "tracks (fold apply_bundle bs (known_of (cn_state c))) t"
  shows "in_sync (deliver pr now bs (c\<lparr>cn_transport := t\<rparr>))"
proof -
  have "client_ok (cn_state c)" using assms(1) by (simp add: in_sync_def memory.sound_def)
  then have "client_ok (fold (on_bundle pr now) bs (cn_state c))" using assms(3) by (rule client_ok_bundles)
  moreover have "known_of (fold (on_bundle pr now) bs (cn_state c)) = fold apply_bundle bs (known_of (cn_state c))"
    using known_of_bundles [OF assms(2,3)] .
  moreover have "\<not> collects (cl_telemetry (fold (on_bundle pr now) bs (cn_state c)))"
    using assms(1,3) by (intro silent_bundles) (auto simp: in_sync_def)
  ultimately show ?thesis using assms(2,4) by (simp add: in_sync_def memory.sound_def tracks_def)
qed

lemma sync_initialize:
  assumes "in_sync c"
  shows "in_sync (snd (test_initialize pr now meanwhile timeout c))"
proof -
  have "in_sync (snd (run_connect pr now (\<lambda>_. connect_in_memory pr meanwhile) x c))" if "\<not> cl_closed (cn_state c)" for x
  proof -
    obtain bs r t where c: "connect_in_memory pr meanwhile (cn_transport c) = (bs, r, t)" by (metis prod_cases3)
    have "dict_ok (im_configs (cn_transport c))" using assms by (simp add: in_sync_def memory.sound_def)
    from connect_tracks [OF c this] show ?thesis
      using sync_deliver [OF assms that] c by (auto simp: run_connect_def)
  qed
  with assms show ?thesis
    by (auto simp: test_initialize_def initialize_def connect_and_wait_def raise_if_closed_def Let_def
        split: connection_plan.splits)
qed

lemma sync_control:
  assumes "in_sync c"
  shows "in_sync (snd (test_control pr now x c))"
proof -
  obtain r bs out t where c: "run_control pr x (cn_transport c) = (r, bs, out, t)" by (metis prod_cases4)
  show ?thesis
  proof (cases "cl_closed (cn_state c)")
    case True
    have t: "\<not> im_attempts_connected (cn_transport c) \<and> \<not> im_connected (cn_transport c) \<and> \<not> im_held (cn_transport c)"
      "dict_ok (im_configs (cn_transport c))"
      using assms True by (auto simp: in_sync_def memory.sound_def)
    then have "tracks None (cn_transport c)" by (simp add: tracks_def)
    from control_tracks(1) [OF c this] have "dict_ok (im_configs t)" by (simp add: tracks_def)
    moreover have "\<not> im_attempts_connected t \<and> \<not> im_connected t \<and> \<not> im_held t"
      using c t(1)
      by (cases x) (auto simp: run_control_def set_value_def remove_value_def replace_values_def hold_initialization_def
          complete_initialization_def fail_initialization_def Let_def split: sum.splits if_splits)
    ultimately show ?thesis using assms True
      by (simp add: test_control_def c closed_bundles in_sync_def memory.sound_def)
  next
    case False
    then have "tracks (known_of (cn_state c)) (cn_transport c)" using assms by (simp add: in_sync_def)
    from control_tracks(1,2) [OF c this] show ?thesis
      using sync_deliver [OF assms False] by (auto simp: test_control_def c)
  qed
qed

lemma test_close_closed: "cl_closed (cn_state (snd (test_close now c)))"
  using client_close_closed [of no_network now "cn_state c"]
  by (auto simp: test_close_def close_client_def Let_def split: prod.splits sum.splits)

lemma sync_step: "test_step pr c c' \<Longrightarrow> in_sync c \<Longrightarrow> in_sync c'"
proof (induction rule: test_step.induct)
  case (uses c s)
  then show ?case using memory.sound_uses [OF sync_sound] silent_step [OF uses.hyps(1)] by (auto simp: in_sync_def)
next
  case (closes c now)
  have "\<not> collects (cl_telemetry (cn_state (snd (test_close now c))))"
    using closes silent_step [OF step_close, of "cn_state c" no_network now]
    by (auto simp: test_close_def close_client_def in_sync_def Let_def split: prod.splits sum.splits)
  with closes show ?case using memory.sound_close [OF sync_sound] test_close_closed
    by (simp add: in_sync_def test_close_def)
qed (simp_all add: sync_initialize sync_control)

lemma sync_run: "test_run pr c c' \<Longrightarrow> in_sync c \<Longrightarrow> in_sync c'"
  by (induction rule: test_run.induct) (auto intro: sync_step)

lemma sync_new: "create_test_client pr pf values timeout = Inr c \<Longrightarrow> in_sync c"
  by (auto simp: create_test_client_def new_in_memory_def new_client_with_def bindE_Inr_iff Let_def in_sync_def
      memory.sound_def tracks_def collects_def dest: test_configs_ok attach_hooks_new)

section \<open>Properties\<close>


text \<open>
  After the test has set a value, an initialized client returns it, for every
  default of its type and every context, until the test changes it again.
\<close>

theorem test_value_served:
  assumes "create_test_client pr pf values timeout = Inr c0" and "test_run pr c0 c"
    and "\<not> cl_closed (cn_state c)" and "im_connected (cn_transport c)"
    and "test_control pr now (SetValue (PStr key) v) c = (Inr (), c')"
    and "native_plain v" and "same_type v d" and "validate_default d = Inr ()"
  shows "fst (client_get_value pr now' (PStr key) d supplied c') = Inr v"
proof -
  have "in_sync c" using sync_run [OF assms(2) sync_new [OF assms(1)]] .
  then have sync: "in_sync c'" using sync_control [of c pr now "SetValue (PStr key) v"] assms(5) by simp
  obtain cfg where cfg: "test_entry pr (PStr key, v) = Inr (key, cfg)"
    "unconditional_config (PStr key) v (py ''test-config:'' @ key) (Some (py ''test-value:'' @ key)) = Inr cfg"
    and t: "cn_transport c' = (cn_transport c)\<lparr>im_configs := dict_set key cfg (im_configs (cn_transport c))\<rparr>"
    and closed': "\<not> cl_closed (cn_state c')"
    using assms(3,5)
    by (auto simp: test_control_def run_control_def set_value_def test_entry_def test_config_def bindE_Inr_iff
        unconditional_config_def split: sum.splits prod.splits)
  have k: "tracks (known_of (cn_state c')) (cn_transport c')" "\<not> collects (cl_telemetry (cn_state c'))"
    using sync closed' by (auto simp: in_sync_def)
  then have "config_of (cn_state c') key = Some cfg"
    using assms(4) by (auto simp: tracks_def t known_of_def config_of_def)
  moreover have "validate_config_key (PStr key) = Inr ()"
    using cfg(2) by (auto simp: unconditional_config_def encode_value_def bindE_Inr_iff)
  moreover have "value_of pr False meta m key (Some cfg) d supplied segs = Some v" for meta m segs
  proof -
    have p: "parse_config_value (evaluate cfg ec sg) d =
        Inr \<lparr>pv_value = v, pv_reason = FoundMatch, pv_used_default = False, pv_value_id = Some (py ''test-value:'' @ key)\<rparr>"
      for ec sg by (rule unconditional_reads_back [OF assms(6,7) cfg(2)])
    show ?thesis by (simp add: value_of_def evaluation_of_def Let_def p result_value_id_def)
  qed
  ultimately have "read_value pr now' key d supplied (cn_state c') = Some v"
    using k(2) assms(8) by (simp add: read_value_eq [where m = ConfigStateMissing])
  then show ?thesis
    by (auto simp: read_value_def client_get_value_def split_def Let_def split: sum.splits)
qed

section \<open>Witnesses\<close>

lemma sample_test_client:
  obtains c0 where "create_test_client (\<lambda>_. True) sample_platform None None = Inr c0"
    and "cn_plan c0 = Connect \<lparr>cp_mode = Streaming, cp_server_sdk_key = py ''test-client'', cp_base_url = default_base_url\<rparr>"
    and "cn_transport c0 = \<lparr>im_configs = [], im_armed = None, im_held = False, im_connected = False, im_attempts_connected = False\<rparr>"
    and "cn_connection c0 = default_connection" and "\<not> cl_closed (cn_state c0)"
proof -
  have "validated_telemetry default_telemetry = Inr default_telemetry"
    by (simp add: validated_telemetry_def default_telemetry_def min_event_queue_limit_def max_event_queue_limit_def
        not_positive_def)
  moreover have "validated_server_sdk_key (PStr (py ''test-client'')) = Inr (py ''test-client'')"
    by (simp add: validated_server_sdk_key_def has_content_def str_strip_def is_space_def py_def)
  ultimately show thesis using that
    by (simp add: create_test_client_def new_in_memory_def test_configs_def new_client_with_def option_or_def
        plan_connection_def attach_hooks_def Let_def default_connection_def live_mode_of_def base_url_of_def
        new_client_state_def)
qed

definition sample_connected :: "in_memory client \<Rightarrow> in_memory client" where
  "sample_connected c0 = snd (test_initialize (\<lambda>_. True) midnight [] None c0)"

lemma sample_connected_fields:
  assumes "create_test_client (\<lambda>_. True) sample_platform None None = Inr c0"
  shows "\<not> cl_closed (cn_state (sample_connected c0)) \<and> im_connected (cn_transport (sample_connected c0)) \<and>
    test_run (\<lambda>_. True) c0 (sample_connected c0)"
proof -
  obtain c where c: "create_test_client (\<lambda>_. True) sample_platform None None = Inr c"
    "cn_plan c = Connect \<lparr>cp_mode = Streaming, cp_server_sdk_key = py ''test-client'', cp_base_url = default_base_url\<rparr>"
    "cn_transport c = \<lparr>im_configs = [], im_armed = None, im_held = False, im_connected = False, im_attempts_connected = False\<rparr>"
    "cn_connection c = default_connection" "\<not> cl_closed (cn_state c)" by (rule sample_test_client)
  then have "c = c0" using assms by simp
  moreover have "test_run (\<lambda>_. True) c0 (sample_connected c0)"
    unfolding sample_connected_def by (rule test_run.further [OF test_run.start initializes])
  ultimately show ?thesis using c
    by (auto simp: sample_connected_def test_initialize_def initialize_def connect_and_wait_def option_or_def
        default_connection_def not_positive_def raise_if_closed_def run_connect_def connect_in_memory_def
        attempt_connect_def Let_def)
qed


theorem test_value_served_witness:
  "\<exists>c0. create_test_client (\<lambda>_. True) sample_platform None None = Inr c0 \<and>
     fst (client_get_value (\<lambda>_. True) midnight (PStr (py ''flag'')) (PBool False) None
       (snd (test_control (\<lambda>_. True) midnight (SetValue (PStr (py ''flag'')) (PBool True)) (sample_connected c0)))) =
     Inr (PBool True)"
proof -
  obtain c0 where c0: "create_test_client (\<lambda>_. True) sample_platform None None = Inr c0" by (rule sample_test_client)
  note f = sample_connected_fields [OF c0]
  have "fst (test_control (\<lambda>_. True) midnight (SetValue (PStr (py ''flag'')) (PBool True)) (sample_connected c0)) = Inr ()"
    using f by (simp add: test_control_def run_control_def set_value_def test_entry_def test_config_def
        unconditional_config_def encode_value_def validate_config_key_def has_content_def str_strip_def is_space_def
        py_def)
  then obtain c' where "test_control (\<lambda>_. True) midnight (SetValue (PStr (py ''flag'')) (PBool True)) (sample_connected c0) =
      (Inr (), c')" by (metis prod.collapse)
  note set = this
  have "fst (client_get_value (\<lambda>_. True) midnight (PStr (py ''flag'')) (PBool False) None c') = Inr (PBool True)"
    by (rule test_value_served [OF c0 _ _ _ set])
      (use f in \<open>auto simp: native_plain_def same_type_def validate_default_def\<close>)
  with set c0 show ?thesis by simp
qed

end
