(* ===== verification/Deliveries.thy ===== *)
theory Deliveries
  imports In_Memory
begin

text \<open>
  The deliveries of the test client when controls interleave: \<open>_deliver\<close> of \<open>_in_memory_connection.py\<close>,
  with its queue, its flag and its two locks. A control takes the state lock, computes a bundle,
  releases the lock and only then queues the bundle, under the delivery lock; one call of \<open>_deliver\<close> at
  a time makes the deliveries of all, those asked for by handlers it runs included. The section of a
  lock is one step.
\<close>

section \<open>The queue\<close>

record delivery_queue =
  dq_pending :: "config_bundle list"
  dq_delivering :: bool

text \<open>The first locked section: whether this call has to make the deliveries.\<close>

definition enqueue :: "config_bundle \<Rightarrow> delivery_queue \<Rightarrow> bool \<times> delivery_queue" where
  "enqueue u q =
     (let q1 = q\<lparr>dq_pending := dq_pending q @ [u]\<rparr>
      in if dq_delivering q1 then (False, q1) else (True, q1\<lparr>dq_delivering := True\<rparr>))"

text \<open>The second one, at the head of the loop: the next bundle, or the end of the loop.\<close>

definition take_next :: "delivery_queue \<Rightarrow> config_bundle option \<times> delivery_queue" where
  "take_next q =
     (case dq_pending q of
        [] \<Rightarrow> (None, q\<lparr>dq_delivering := False\<rparr>)
      | u # us \<Rightarrow> (Some u, q\<lparr>dq_pending := us\<rparr>))"

section \<open>Interleavings\<close>

text \<open>A call of \<open>_deliver\<close> that makes deliveries is at the head of its loop or inside \<open>on_bundle\<close>.\<close>

datatype delivery_frame = AtLoop | Inside config_bundle

text \<open>
  \<open>sd_computed\<close>: the bundles of controls between their two locks. \<open>sd_queued\<close> and \<open>sd_called\<close> record
  what was ever queued and given to \<open>on_bundle\<close>.
\<close>

record shared_deliveries =
  sd_memory :: in_memory
  sd_client :: client_state
  sd_computed :: "config_bundle list"
  sd_queue :: delivery_queue
  sd_frames :: "delivery_frame list"
  sd_queued :: "config_bundle list"
  sd_called :: "config_bundle list"

definition start_deliveries :: "in_memory client \<Rightarrow> shared_deliveries" where
  "start_deliveries c =
     \<lparr>sd_memory = cn_transport c, sd_client = cn_state c, sd_computed = [],
      sd_queue = \<lparr>dq_pending = [], dq_delivering = False\<rparr>, sd_frames = [], sd_queued = [], sd_called = []\<rparr>"

text \<open>
  Any thread may use a control, connect, or go on with a call of \<open>_deliver\<close> at any moment, a handler
  that runs inside \<open>on_bundle\<close> included. With \<open>orderly\<close> a control or an attempt starts only when the
  bundles of those before it are queued, as it is when one thread uses the test client.
\<close>

inductive delivery_step :: "bool \<Rightarrow> printable \<Rightarrow> shared_deliveries \<Rightarrow> shared_deliveries \<Rightarrow> bool" for orderly pr where
  controls: "(orderly \<longrightarrow> sd_computed s = []) \<Longrightarrow> run_control pr x (sd_memory s) = (r, bs, outcome, t) \<Longrightarrow>
    delivery_step orderly pr s (s\<lparr>sd_memory := t, sd_computed := sd_computed s @ bs\<rparr>)"
| attempts: "(orderly \<longrightarrow> sd_computed s = []) \<Longrightarrow> im_armed (sd_memory s) \<noteq> Some Hold \<Longrightarrow>
    attempt_connect pr [] (sd_memory s) = (bs, r, t) \<Longrightarrow>
    delivery_step orderly pr s (s\<lparr>sd_memory := t, sd_computed := sd_computed s @ bs\<rparr>)"
| holds: "im_armed (sd_memory s) = Some Hold \<Longrightarrow>
    delivery_step orderly pr s
      (s\<lparr>sd_memory := (sd_memory s)\<lparr>im_connected := False, im_held := True, im_armed := None\<rparr>\<rparr>)"
| times_out: "delivery_step orderly pr s (s\<lparr>sd_memory := (sd_memory s)\<lparr>im_held := False\<rparr>\<rparr>)"
| connected: "delivery_step orderly pr s (s\<lparr>sd_memory := (sd_memory s)\<lparr>im_attempts_connected := True\<rparr>\<rparr>)"
| queues: "sd_computed s = us @ u # vs \<Longrightarrow> (orderly \<longrightarrow> us = []) \<Longrightarrow> enqueue u (sd_queue s) = (starts, q) \<Longrightarrow>
    delivery_step orderly pr s
      (s\<lparr>sd_computed := us @ vs, sd_queue := q, sd_queued := sd_queued s @ [u],
         sd_frames := (if starts then AtLoop # sd_frames s else sd_frames s)\<rparr>)"
| calls: "sd_frames s = fs @ AtLoop # gs \<Longrightarrow> take_next (sd_queue s) = (Some u, q) \<Longrightarrow>
    delivery_step orderly pr s
      (s\<lparr>sd_queue := q, sd_frames := fs @ Inside u # gs, sd_called := sd_called s @ [u],
         sd_client := on_bundle pr now u (sd_client s)\<rparr>)"
| returns: "sd_frames s = fs @ Inside u # gs \<Longrightarrow> delivery_step orderly pr s (s\<lparr>sd_frames := fs @ AtLoop # gs\<rparr>)"
| finishes: "sd_frames s = fs @ AtLoop # gs \<Longrightarrow> take_next (sd_queue s) = (None, q) \<Longrightarrow>
    delivery_step orderly pr s (s\<lparr>sd_queue := q, sd_frames := fs @ gs\<rparr>)"
| uses: "client_step (sd_client s) c \<Longrightarrow> cl_closed c = cl_closed (sd_client s) \<Longrightarrow>
    known_of c = known_of (sd_client s) \<Longrightarrow> delivery_step orderly pr s (s\<lparr>sd_client := c\<rparr>)"
| closes: "delivery_step orderly pr s
    (s\<lparr>sd_client := snd (client_close_state no_network now (sd_client s)), sd_memory := close_in_memory (sd_memory s)\<rparr>)"

inductive delivery_run :: "bool \<Rightarrow> printable \<Rightarrow> shared_deliveries \<Rightarrow> shared_deliveries \<Rightarrow> bool" for orderly pr where
  start: "delivery_run orderly pr s s"
| further: "delivery_run orderly pr s s' \<Longrightarrow> delivery_step orderly pr s' s'' \<Longrightarrow> delivery_run orderly pr s s''"

lemma delivery_run_trans:
  "delivery_run orderly pr s' s'' \<Longrightarrow> delivery_run orderly pr s s' \<Longrightarrow> delivery_run orderly pr s s''"
  by (induction rule: delivery_run.induct) (auto intro: delivery_run.further)

lemmas delivery_one = delivery_run.further [OF delivery_run.start]

section \<open>What every interleaving keeps\<close>

text \<open>
  One call delivers while the flag is set, none otherwise; what was queued is what was delivered and
  what is pending, in order; the client has seen the bundles delivered while it was open.
\<close>

definition deliveries_ok :: "known option \<Rightarrow> shared_deliveries \<Rightarrow> bool" where
  "deliveries_ok k s \<longleftrightarrow>
     length (sd_frames s) = of_bool (dq_delivering (sd_queue s)) \<and>
     (dq_delivering (sd_queue s) \<or> dq_pending (sd_queue s) = []) \<and>
     sd_queued s = sd_called s @ dq_pending (sd_queue s) \<and>
     (\<forall>b \<in> set (sd_queued s @ sd_computed s). bundle_ok b) \<and>
     dict_ok (im_configs (sd_memory s)) \<and>
     (\<not> cl_closed (sd_client s) \<longrightarrow> known_of (sd_client s) = fold apply_bundle (sd_called s) k)"

lemma computed_ok:
  "attempt_connect pr [] t = (bs, r, t') \<Longrightarrow> dict_ok (im_configs t) \<Longrightarrow> dict_ok (im_configs t') \<and> (\<forall>b\<in>set bs. bundle_ok b)"
  "run_control pr x t = (r', bs, outcome, t') \<Longrightarrow> dict_ok (im_configs t) \<Longrightarrow>
     dict_ok (im_configs t') \<and> (\<forall>b\<in>set bs. bundle_ok b)"
proof -
  assume "attempt_connect pr [] t = (bs, r, t')" "dict_ok (im_configs t)"
  from attempt_tracks [OF this, of None] show "dict_ok (im_configs t') \<and> (\<forall>b\<in>set bs. bundle_ok b)"
    by (simp add: tracks_def)
next
  assume r: "run_control pr x t = (r', bs, outcome, t')" and d: "dict_ok (im_configs t)"
  have "tracks (Some \<lparr>known_configs = dict_get (im_configs t), known_segments = Map.empty\<rparr>) t"
    using d by (simp add: tracks_def)
  from control_tracks(1,2) [OF r this] show "dict_ok (im_configs t') \<and> (\<forall>b\<in>set bs. bundle_ok b)"
    by (simp add: tracks_def)
qed

lemma one_frame: "length (fs @ x # gs) = of_bool b \<Longrightarrow> fs = [] \<and> gs = [] \<and> b"
  by (cases b) auto

lemma deliveries_ok_step:
  assumes "delivery_step orderly pr s s'" and "deliveries_ok k s"
  shows "deliveries_ok k s'"
  using assms
proof (induction rule: delivery_step.induct)
  case (controls s x r bs outcome t)
  then show ?case using computed_ok(2) [OF controls.hyps(2)] by (auto simp: deliveries_ok_def)
next
  case (attempts s bs r t)
  then show ?case using computed_ok(1) [OF attempts.hyps(3)] by (auto simp: deliveries_ok_def)
next
  case (queues s us u vs starts q)
  then show ?case by (auto simp: deliveries_ok_def enqueue_def Let_def split: if_splits)
next
  case (calls s fs gs u q now)
  then have f: "fs = []" "gs = []" "dq_delivering (sd_queue s)" using one_frame by (auto simp: deliveries_ok_def)
  obtain us where us: "dq_pending (sd_queue s) = u # us" "q = (sd_queue s)\<lparr>dq_pending := us\<rparr>"
    using calls.hyps(2) by (auto simp: take_next_def split: list.splits)
  have "bundle_ok u" using calls.prems us by (simp add: deliveries_ok_def)
  then have "known_of (on_bundle pr now u (sd_client s)) = apply_bundle u (known_of (sd_client s))"
    if "\<not> cl_closed (sd_client s)"
    using known_of_bundles [OF that, of "[u]" pr now] by simp
  with calls.prems f us show ?case by (simp add: deliveries_ok_def)
next
  case (returns s fs u gs)
  then show ?case by (auto simp: deliveries_ok_def)
next
  case (finishes s fs gs q)
  then have f: "fs = []" "gs = []" "dq_delivering (sd_queue s)" using one_frame by (auto simp: deliveries_ok_def)
  have "dq_pending (sd_queue s) = []" "q = (sd_queue s)\<lparr>dq_delivering := False\<rparr>"
    using finishes.hyps(2) by (auto simp: take_next_def split: list.splits)
  with finishes.prems f show ?case by (simp add: deliveries_ok_def)
next
  case (closes s now)
  then show ?case by (simp add: deliveries_ok_def close_in_memory_def client_close_closed)
qed (auto simp: deliveries_ok_def)

lemma deliveries_ok_run: "delivery_run orderly pr s s' \<Longrightarrow> deliveries_ok k s \<Longrightarrow> deliveries_ok k s'"
  by (induction rule: delivery_run.induct) (auto intro: deliveries_ok_step)

lemma deliveries_ok_start:
  assumes "create_test_client pr pf values timeout = Inr c"
  shows "deliveries_ok (known_of (cn_state c)) (start_deliveries c)" and "\<not> im_connected (cn_transport c)"
    and "dict_ok (im_configs (cn_transport c))"
  using assms test_configs_ok
  by (auto simp: create_test_client_def new_in_memory_def new_client_with_def bindE_Inr_iff Let_def deliveries_ok_def
      start_deliveries_def)

text \<open>With orderly controls, the bundles queued and computed carry the client to what the test stored.\<close>

definition stored_arrives :: "known option \<Rightarrow> shared_deliveries \<Rightarrow> bool" where
  "stored_arrives k s \<longleftrightarrow> tracks (fold apply_bundle (sd_queued s @ sd_computed s) k) (sd_memory s)"

lemma stored_arrives_step:
  assumes "delivery_step True pr s s'" and "stored_arrives k s"
  shows "stored_arrives k s'"
  using assms
proof (induction rule: delivery_step.induct)
  case (controls s x r bs outcome t)
  then show ?case using control_tracks(1) [OF controls.hyps(2)] by (simp add: stored_arrives_def)
next
  case (attempts s bs r t)
  then have "dict_ok (im_configs (sd_memory s))" by (simp add: stored_arrives_def tracks_def)
  with attempts show ?case using attempt_tracks [OF attempts.hyps(3)] by (simp add: stored_arrives_def)
qed (auto simp: stored_arrives_def tracks_def close_in_memory_def)

lemma stored_arrives_run: "delivery_run True pr s s' \<Longrightarrow> stored_arrives k s \<Longrightarrow> stored_arrives k s'"
  by (induction rule: delivery_run.induct) (auto intro: stored_arrives_step)

section \<open>A call of deliver gets to its end\<close>

lemma at_loop:
  assumes "sd_frames s = [f]"
  shows "delivery_run orderly pr s (s\<lparr>sd_frames := [AtLoop]\<rparr>)"
proof (cases f)
  case AtLoop
  with assms have "s\<lparr>sd_frames := [AtLoop]\<rparr> = s" by (cases s) simp
  then show ?thesis by (metis delivery_run.start)
next
  case (Inside u)
  then show ?thesis using delivery_one [OF returns [of s "[]" u "[]"]] assms by simp
qed

lemma delivery_goes_on:
  assumes "sd_frames s = [f]" and "dq_delivering (sd_queue s)"
  shows "\<exists>s'. delivery_run orderly pr s s' \<and> sd_frames s' = [] \<and> sd_queue s' = \<lparr>dq_pending = [], dq_delivering = False\<rparr> \<and>
    sd_called s' = sd_called s @ dq_pending (sd_queue s) \<and> sd_queued s' = sd_queued s \<and> sd_memory s' = sd_memory s \<and>
    sd_computed s' = sd_computed s \<and> cl_closed (sd_client s') = cl_closed (sd_client s)"
  using assms
proof (induction "dq_pending (sd_queue s)" arbitrary: s f)
  case Nil
  define s1 where "s1 = s\<lparr>sd_frames := [AtLoop]\<rparr>"
  have "delivery_run orderly pr s s1" using at_loop Nil.prems(1) by (simp add: s1_def)
  moreover define s2 where "s2 = s1\<lparr>sd_queue := (sd_queue s)\<lparr>dq_delivering := False\<rparr>, sd_frames := [] @ []\<rparr>"
  moreover have "delivery_step orderly pr s1 s2"
    unfolding s2_def by (rule finishes) (use Nil in \<open>simp_all add: s1_def take_next_def\<close>)
  ultimately have "delivery_run orderly pr s s2" by (auto intro: delivery_run.further)
  then show ?case using Nil by (intro exI [of _ s2]) (simp add: s1_def s2_def)
next
  case (Cons u us)
  define s1 where "s1 = s\<lparr>sd_frames := [AtLoop]\<rparr>"
  have "delivery_run orderly pr s s1" using at_loop Cons.prems(1) by (simp add: s1_def)
  moreover define s2 where "s2 = s1\<lparr>sd_queue := (sd_queue s)\<lparr>dq_pending := us\<rparr>, sd_frames := [] @ Inside u # [],
      sd_called := sd_called s1 @ [u], sd_client := on_bundle pr midnight u (sd_client s1)\<rparr>"
  moreover have "delivery_step orderly pr s1 s2"
    unfolding s2_def by (rule calls) (use Cons in \<open>simp_all add: s1_def take_next_def Cons.hyps(2) [symmetric]\<close>)
  ultimately have "delivery_run orderly pr s s2" by (auto intro: delivery_run.further)
  moreover obtain s' where "delivery_run orderly pr s2 s'" "sd_frames s' = []"
    "sd_queue s' = \<lparr>dq_pending = [], dq_delivering = False\<rparr>" "sd_called s' = sd_called s2 @ us"
    "sd_queued s' = sd_queued s2" "sd_memory s' = sd_memory s2" "sd_computed s' = sd_computed s2"
    "cl_closed (sd_client s') = cl_closed (sd_client s2)"
    using Cons.hyps(1) [of s2 "Inside u"] Cons.prems by (auto simp: s2_def s1_def)
  ultimately show ?case using Cons.hyps(2) by (intro exI [of _ s']) (auto intro: delivery_run_trans simp: s1_def s2_def)
qed

lemma deliveries_end:
  assumes "deliveries_ok k s"
  shows "\<exists>s'. delivery_run orderly pr s s' \<and> sd_frames s' = [] \<and> sd_queue s' = \<lparr>dq_pending = [], dq_delivering = False\<rparr> \<and>
    sd_called s' = sd_queued s \<and> sd_queued s' = sd_queued s \<and> sd_memory s' = sd_memory s \<and>
    sd_computed s' = sd_computed s \<and> cl_closed (sd_client s') = cl_closed (sd_client s)"
proof (cases "dq_delivering (sd_queue s)")
  case True
  with assms obtain f where "sd_frames s = [f]" by (auto simp: deliveries_ok_def length_Suc_conv)
  from delivery_goes_on [OF this True] assms show ?thesis by (simp add: deliveries_ok_def)
next
  case False
  then have "sd_queue s = \<lparr>dq_pending = [], dq_delivering = False\<rparr>" using assms by (simp add: deliveries_ok_def)
  with False assms show ?thesis by (intro exI [of _ s]) (simp add: deliveries_ok_def delivery_run.start)
qed

text \<open>A bundle computed is delivered, before or after others that were computed with it.\<close>

lemma deliver_one:
  assumes "deliveries_ok k s" and "sd_computed s = us @ u # vs" and "orderly \<longrightarrow> us = []"
  shows "\<exists>s'. delivery_run orderly pr s s' \<and> deliveries_ok k s' \<and> sd_frames s' = [] \<and>
    sd_called s' = sd_queued s @ [u] \<and> sd_queued s' = sd_queued s @ [u] \<and> sd_memory s' = sd_memory s \<and>
    sd_computed s' = us @ vs \<and> cl_closed (sd_client s') = cl_closed (sd_client s)"
proof -
  obtain starts q where e: "enqueue u (sd_queue s) = (starts, q)" by fastforce
  let ?s = "s\<lparr>sd_computed := us @ vs, sd_queue := q, sd_queued := sd_queued s @ [u],
      sd_frames := (if starts then AtLoop # sd_frames s else sd_frames s)\<rparr>"
  have step: "delivery_step orderly pr s ?s" by (rule queues [OF assms(2,3) e])
  then have "deliveries_ok k ?s" using assms(1) by (rule deliveries_ok_step)
  from deliveries_end [OF this, of orderly pr] obtain s' where s': "delivery_run orderly pr ?s s'"
    "sd_frames s' = []" "sd_called s' = sd_queued s @ [u]" "sd_queued s' = sd_queued s @ [u]" "sd_memory s' = sd_memory s"
    "sd_computed s' = us @ vs" "cl_closed (sd_client s') = cl_closed (sd_client s)" by auto
  moreover have "delivery_run orderly pr s s'" using delivery_run_trans [OF s'(1)] delivery_one [OF step] by blast
  ultimately show ?thesis using deliveries_ok_run assms(1) by blast
qed

lemma start_fields [simp]:
  "sd_queued (start_deliveries c) = []" "sd_called (start_deliveries c) = []" "sd_computed (start_deliveries c) = []"
  "sd_frames (start_deliveries c) = []" "sd_memory (start_deliveries c) = cn_transport c"
  "sd_client (start_deliveries c) = cn_state c"
  by (simp_all add: start_deliveries_def)

lemma first_attempt:
  assumes "im_armed t = None"
  shows "\<exists>t'. attempt_connect pr [] t = ([full_update t'], Inr (), t') \<and> im_connected t'"
  using assms by (simp add: attempt_connect_def Let_def)

text \<open>A client that has connected, with its first bundle delivered.\<close>

lemma sample_delivery:
  obtains c0 s where "create_test_client (\<lambda>_. True) sample_platform None None = Inr c0"
    and "delivery_run True (\<lambda>_. True) (start_deliveries c0) s" and "sd_frames s = []" and "sd_computed s = []"
    and "\<not> cl_closed (sd_client s)" and "im_connected (sd_memory s)" and "sd_called s \<noteq> []"
proof -
  obtain c0 where c0: "create_test_client (\<lambda>_. True) sample_platform None None = Inr c0" "im_armed (cn_transport c0) = None"
    "\<not> cl_closed (cn_state c0)"
    by (rule sample_test_client) simp
  let ?k = "known_of (cn_state c0)"
  from first_attempt [OF c0(2)] obtain t where
    t: "attempt_connect (\<lambda>_. True) [] (cn_transport c0) = ([full_update t], Inr (), t)" "im_connected t" by blast
  let ?s = "(start_deliveries c0)\<lparr>sd_memory := t, sd_computed := [full_update t]\<rparr>"
  have step: "delivery_step True (\<lambda>_. True) (start_deliveries c0) ?s"
    using attempts [of True "start_deliveries c0" "\<lambda>_. True" "[full_update t]" "Inr ()" t] c0(2) t by simp
  have "deliveries_ok ?k ?s" by (rule deliveries_ok_step [OF step deliveries_ok_start(1) [OF c0(1)]])
  from deliver_one [OF this, of "[]" "full_update t" "[]" True "\<lambda>_. True"] obtain s where
    "delivery_run True (\<lambda>_. True) ?s s" "sd_frames s = []" "sd_computed s = []" "sd_called s = [full_update t]"
    "sd_memory s = t" "\<not> cl_closed (sd_client s)" using c0(3) by auto
  with that [OF c0(1) delivery_run_trans [OF _ delivery_one [OF step]]] t(2) show thesis by simp
qed

section \<open>Properties\<close>

text \<open>
  C17 (deliveries_in_order). Whatever threads and handlers ask for: deliveries are made one at a time,
  every queued bundle is given to the client once, in the order of the queue, and none is lost: when
  no call of \<open>_deliver\<close> is making deliveries, all queued bundles have arrived, and an open client
  knows what they say.
\<close>

theorem deliveries_in_order:
  assumes "create_test_client pr pf values timeout = Inr c0" and "delivery_run orderly pr (start_deliveries c0) s"
  shows "length (sd_frames s) \<le> 1 \<and> sd_queued s = sd_called s @ dq_pending (sd_queue s) \<and>
    (sd_frames s = [] \<longrightarrow> sd_called s = sd_queued s) \<and>
    (\<not> cl_closed (sd_client s) \<longrightarrow> known_of (sd_client s) = fold apply_bundle (sd_called s) (known_of (cn_state c0)))"
  using deliveries_ok_run [OF assms(2) deliveries_ok_start(1) [OF assms(1)]] by (auto simp: deliveries_ok_def)

text \<open>
  Wherever an interleaving stands, the call that makes deliveries can go on
  to its end without any other thread, and then every bundle queued so far has been delivered.
\<close>

theorem deliveries_complete:
  assumes "create_test_client pr pf values timeout = Inr c0" and "delivery_run orderly pr (start_deliveries c0) s"
  shows "\<exists>s'. delivery_run orderly pr s s' \<and> sd_frames s' = [] \<and> sd_called s' = sd_queued s \<and> sd_memory s' = sd_memory s"
  using deliveries_end [OF deliveries_ok_run [OF assms(2) deliveries_ok_start(1) [OF assms(1)]], of orderly pr] by auto


text \<open>
  Without that order the client can end with a value that the test has replaced: two threads set the
  same key, and the one that stored its value first is the last to queue its bundle.
\<close>

theorem concurrent_controls_overtake:
  assumes "create_test_client pr pf values timeout = Inr c0" and "im_armed (cn_transport c0) = None"
    and "\<not> cl_closed (cn_state c0)" and "test_entry pr (PStr key, v) = Inr (key, cfg)"
    and "test_entry pr (PStr key, w) = Inr (key, cfg')" and "cfg \<noteq> cfg'"
  shows "\<exists>s. delivery_run False pr (start_deliveries c0) s \<and> sd_frames s = [] \<and> sd_computed s = [] \<and>
    \<not> cl_closed (sd_client s) \<and> im_connected (sd_memory s) \<and>
    config_of (sd_client s) key = Some cfg \<and> dict_get (im_configs (sd_memory s)) key = Some cfg'"
proof -
  let ?k = "known_of (cn_state c0)"
  from first_attempt [OF assms(2)] obtain t where
    t: "attempt_connect pr [] (cn_transport c0) = ([full_update t], Inr (), t)" "im_connected t" by blast
  let ?t1 = "t\<lparr>im_configs := dict_set key cfg (im_configs t)\<rparr>"
  let ?t2 = "?t1\<lparr>im_configs := dict_set key cfg' (im_configs ?t1)\<rparr>"
  define s1 where "s1 = (start_deliveries c0)\<lparr>sd_memory := t, sd_computed := [full_update t]\<rparr>"
  define s2 where "s2 = s1\<lparr>sd_memory := ?t1, sd_computed := [full_update t, delta_update key cfg]\<rparr>"
  define s3 where "s3 = s2\<lparr>sd_memory := ?t2, sd_computed := [full_update t, delta_update key cfg, delta_update key cfg']\<rparr>"
  have "delivery_step False pr (start_deliveries c0) s1"
    using attempts [of False "start_deliveries c0" pr "[full_update t]" "Inr ()" t] assms(2) t by (simp add: s1_def)
  moreover have "delivery_step False pr s1 s2"
    using controls [of False s1 pr "SetValue (PStr key) v" "Inr ()" "[delta_update key cfg]" None ?t1] assms(4)
    t by (simp add: s2_def s1_def run_control_def set_value_def)
  moreover have "delivery_step False pr s2 s3"
    using controls [of False s2 pr "SetValue (PStr key) w" "Inr ()" "[delta_update key cfg']" None ?t2] assms(5)
    t by (simp add: s3_def s2_def s1_def run_control_def set_value_def)
  ultimately have run3: "delivery_run False pr (start_deliveries c0) s3"
    by (meson delivery_run.start delivery_run.further)
  have ok3: "deliveries_ok ?k s3" using deliveries_ok_run [OF run3 deliveries_ok_start(1) [OF assms(1)]] .
  obtain s4 where s4: "delivery_run False pr s3 s4" "deliveries_ok ?k s4" "sd_queued s4 = [full_update t]"
    "sd_memory s4 = ?t2" "sd_computed s4 = [delta_update key cfg, delta_update key cfg']"
    "\<not> cl_closed (sd_client s4)"
    using deliver_one [OF ok3, of "[]" "full_update t" _ False pr] assms(3) by (auto simp: s3_def s2_def s1_def)
  obtain s5 where s5: "delivery_run False pr s4 s5" "deliveries_ok ?k s5"
    "sd_queued s5 = [full_update t, delta_update key cfg']" "sd_memory s5 = ?t2" "sd_computed s5 = [delta_update key cfg]"
    "\<not> cl_closed (sd_client s5)"
    using deliver_one [OF s4(2), of "[delta_update key cfg]" "delta_update key cfg'" "[]" False pr] s4 by auto
  obtain s6 where s6: "delivery_run False pr s5 s6" "deliveries_ok ?k s6" "sd_frames s6 = []"
    "sd_called s6 = [full_update t, delta_update key cfg', delta_update key cfg]" "sd_memory s6 = ?t2"
    "sd_computed s6 = []" "\<not> cl_closed (sd_client s6)"
    using deliver_one [OF s5(2), of "[]" "delta_update key cfg" "[]" False pr] s5 by auto
  have "config_of (sd_client s6) key = Some cfg"
    using s6(2,4,7)
    by (auto simp: deliveries_ok_def apply_bundle_def delta_update_def test_bundle_def known_of_def config_of_def
        dict_get_maps split: option.splits)
  moreover have "delivery_run False pr (start_deliveries c0) s6"
    by (rule delivery_run_trans [OF s6(1) delivery_run_trans [OF s5(1) delivery_run_trans [OF s4(1) run3]]])
  ultimately show ?thesis using s6 t by (intro exI [of _ s6]) simp
qed

section \<open>Witnesses\<close>

theorem deliveries_in_order_witness:
  "\<exists>c0 s. create_test_client (\<lambda>_. True) sample_platform None None = Inr c0 \<and>
     delivery_run True (\<lambda>_. True) (start_deliveries c0) s \<and> sd_called s \<noteq> [] \<and> sd_called s = sd_queued s"
proof -
  obtain c0 s where s: "create_test_client (\<lambda>_. True) sample_platform None None = Inr c0"
    "delivery_run True (\<lambda>_. True) (start_deliveries c0) s" "sd_frames s = []" "sd_called s \<noteq> []"
    by (rule sample_delivery)
  with deliveries_in_order [OF s(1,2)] show ?thesis by blast
qed

theorem deliveries_complete_witness:
  "\<exists>c0 s. create_test_client (\<lambda>_. True) sample_platform None None = Inr c0 \<and>
     delivery_run True (\<lambda>_. True) (start_deliveries c0) s \<and> sd_frames s = [] \<and> sd_called s \<noteq> []"
proof -
  obtain c0 s where s: "create_test_client (\<lambda>_. True) sample_platform None None = Inr c0"
    "delivery_run True (\<lambda>_. True) (start_deliveries c0) s" "sd_called s \<noteq> []"
    by (rule sample_delivery)
  have "deliveries_ok (known_of (cn_state c0)) s" by (rule deliveries_ok_run [OF s(2) deliveries_ok_start(1) [OF s(1)]])
  then have "sd_queued s \<noteq> []" using s(3) by (simp add: deliveries_ok_def)
  with deliveries_complete [OF s(1,2)] s(1) delivery_run_trans [OF _ s(2)] show ?thesis by metis
qed


theorem concurrent_controls_overtake_witness:
  "\<exists>c0 s. create_test_client (\<lambda>_. True) sample_platform None None = Inr c0 \<and>
     delivery_run False (\<lambda>_. True) (start_deliveries c0) s \<and> sd_frames s = [] \<and> sd_computed s = [] \<and>
     config_of (sd_client s) (py ''flag'') \<noteq> dict_get (im_configs (sd_memory s)) (py ''flag'')"
proof -
  obtain c0 where c0: "create_test_client (\<lambda>_. True) sample_platform None None = Inr c0"
    "im_armed (cn_transport c0) = None" "\<not> cl_closed (cn_state c0)" by (rule sample_test_client) simp
  have "\<exists>cfg. test_entry (\<lambda>_. True) (PStr (py ''flag''), PBool b) = Inr (py ''flag'', cfg) \<and>
      tr_default_value (cfg_target cfg) = bool_text b" for b
    by (simp add: test_entry_def test_config_def unconditional_config_def encode_value_def validate_config_key_def
        has_content_def str_strip_def is_space_def py_def)
  from this [of True] this [of False] obtain cfg cfg' where
    e: "test_entry (\<lambda>_. True) (PStr (py ''flag''), PBool True) = Inr (py ''flag'', cfg)"
      "test_entry (\<lambda>_. True) (PStr (py ''flag''), PBool False) = Inr (py ''flag'', cfg')"
    and "tr_default_value (cfg_target cfg) = bool_text True" "tr_default_value (cfg_target cfg') = bool_text False"
    by blast
  then have "cfg \<noteq> cfg'" by (auto simp: bool_text_def py_def)
  with concurrent_controls_overtake [OF c0 e this] c0(1) show ?thesis by (metis option.inject)
qed

end
