(* ===== verification/Open_Feature_Values.thy ===== *)
theory Open_Feature_Values
  imports Client
begin

text \<open>
  What the OpenFeature provider translates: \<open>_values.py\<close>, \<open>_context.py\<close> and \<open>_resolution.py\<close> of
  \<open>configdirector_openfeature\<close>, and \<open>_wrappers.py\<close> of the SDK, which builds the provider's client. The
  classes of the OpenFeature SDK that it reads and writes are data: records with their fields.
\<close>

section \<open>Plain values\<close>

text \<open>
  Among the values of the model a \<open>Mapping\<close> is a dict, and a \<open>Sequence\<close> a string, a list, a tuple or
  \<open>bytes\<close>. \<open>str\<close> of a datetime is \<open>isoformat\<close> with a space, after ten characters of date, instead of
  the T.
\<close>

definition is_datetime :: "pyval \<Rightarrow> bool" where
  "is_datetime v = (case v of PObj t s \<Rightarrow> t = py ''datetime'' | _ \<Rightarrow> False)"

definition isoformat :: "pystr \<Rightarrow> pystr" where
  "isoformat s = s[10 := 84]"

fun to_plain :: "printable \<Rightarrow> pyval \<Rightarrow> pyval result" where
  "to_plain pr (PDict d) =
     bindE (mapE (\<lambda>(k, v). bindE (py_str pr k) (\<lambda>t. bindE (to_plain pr v) (\<lambda>w. Inr (PStr t, w)))) d)
       (\<lambda>entries. Inr (PDict (dict_update [] entries)))"
| "to_plain pr (PList vs) = bindE (mapE (to_plain pr) vs) (\<lambda>ws. Inr (PList ws))"
| "to_plain pr (PTuple vs) = bindE (mapE (to_plain pr) vs) (\<lambda>ws. Inr (PList ws))"
| "to_plain pr (PObj t s) =
     (case s of
        Some x \<Rightarrow> if is_datetime (PObj t s) then Inr (PStr (isoformat x)) else Inr (PObj t s)
      | None \<Rightarrow> Inr (PObj t s))"
| "to_plain pr v = Inr v"

section \<open>Contexts\<close>

record of_context =
  oc_targeting_key :: "pystr option"
  oc_attributes :: "(pystr, pyval) dict"

text \<open>\<open>attributes.get(name)\<close>\<close>

definition of_attribute :: "of_context \<Rightarrow> pystr \<Rightarrow> pyval" where
  "of_attribute x name = (case dict_get (oc_attributes x) name of None \<Rightarrow> PNone | Some v \<Rightarrow> v)"

definition of_text :: "printable \<Rightarrow> pyval \<Rightarrow> pystr option result" where
  "of_text pr v =
     (case v of
        PNone \<Rightarrow> Inr None
      | PDict _ \<Rightarrow> Inr None
      | PScalar (SStr s) \<Rightarrow> Inr (Some s)
      | PList _ \<Rightarrow> Inr None
      | PTuple _ \<Rightarrow> Inr None
      | PScalar (SBool b) \<Rightarrow> Inr (Some (bool_text b))
      | _ \<Rightarrow>
          if type_name v = py ''bytes'' then Inr None
          else bindE (to_plain pr v) (\<lambda>w. bindE (py_str pr w) (\<lambda>s. Inr (Some s))))"

definition of_identifier :: "printable \<Rightarrow> of_context \<Rightarrow> pystr option result" where
  "of_identifier pr x =
     (case oc_targeting_key x of Some k \<Rightarrow> Inr (Some k) | None \<Rightarrow> of_text pr (of_attribute x (py ''id'')))"

definition to_context :: "printable \<Rightarrow> of_context option \<Rightarrow> supplied_context option result" where
  "to_context pr oc =
     (case oc of
        None \<Rightarrow> Inr None
      | Some x \<Rightarrow>
          (let traits = of_attribute x (py ''traits''); anonymous = of_attribute x (py ''anonymous'');
               kind = of_attribute x (py ''kind'')
           in bindE (of_identifier pr x) (\<lambda>i.
              bindE (of_text pr (of_attribute x (py ''name''))) (\<lambda>n.
              bindE (if is_dict traits \<and> truthy traits then to_plain pr traits else Inr PNone) (\<lambda>ts.
                Inr (Some \<lparr>ctx_id = i, ctx_name = n, ctx_traits = ts,
                  ctx_anonymous = (case anonymous of PScalar (SBool b) \<Rightarrow> b | _ \<Rightarrow> False),
                  ctx_kind = (if kind = PNone then None else Some kind)\<rparr>))))))"

section \<open>Resolution details\<close>

datatype resolution_reason = TARGETING_MATCH | DEFAULT | ERROR

datatype error_code = FLAG_NOT_FOUND | PROVIDER_NOT_READY | TYPE_MISMATCH

record resolution_details =
  rd_value :: pyval
  rd_variant :: "pystr option"
  rd_reason :: "resolution_reason option"
  rd_error_code :: "error_code option"
  rd_error_message :: "pystr option"

definition resolved_value :: "pyval \<Rightarrow> resolution_details" where
  "resolved_value v =
     \<lparr>rd_value = v, rd_variant = None, rd_reason = None, rd_error_code = None, rd_error_message = None\<rparr>"

definition resolution_error :: "pyval \<Rightarrow> error_code \<Rightarrow> pystr \<Rightarrow> resolution_details" where
  "resolution_error v code message =
     \<lparr>rd_value = v, rd_variant = None, rd_reason = Some ERROR, rd_error_code = Some code,
      rd_error_message = Some message\<rparr>"

text \<open>The character 39 is the apostrophe.\<close>

definition to_resolution_details :: "pyval \<Rightarrow> config_evaluation option \<Rightarrow> resolution_details" where
  "to_resolution_details v evaluation =
     (case evaluation of
        None \<Rightarrow> resolved_value v
      | Some ev \<Rightarrow>
          if ev_reason ev = FoundMatch
          then (resolved_value v)\<lparr>rd_variant := ev_value_id ev, rd_reason := Some TARGETING_MATCH\<rparr>
          else if ev_reason ev = ValueMissing then (resolved_value v)\<lparr>rd_reason := Some DEFAULT\<rparr>
          else if ev_reason ev = ConfigStateMissing then
            resolution_error v FLAG_NOT_FOUND
              (py ''No config with the key '' @ [39] @ ev_key ev @ [39] @ py '' was found.'')
          else if ev_reason ev = ClientNotReady then
            resolution_error v PROVIDER_NOT_READY
              (py ''The ConfigDirector client has not received any configs yet.'')
          else if ev_is_default ev then
            resolution_error v TYPE_MISMATCH
              (py ''The value of '' @ [39] @ ev_key ev @ [39] @ py '' does not match the requested type ('' @
               reason_text (ev_reason ev) @ py '').'')
          else resolved_value v)"

section \<open>Wrapped clients\<close>

text \<open>The installed version of a distribution is a parameter: \<open>importlib.metadata.version\<close>.\<close>

datatype wrapper = OPENFEATURE_SERVER_PROVIDER

definition wrapper_sdk_name :: "wrapper \<Rightarrow> pystr" where
  "wrapper_sdk_name w = (case w of OPENFEATURE_SERVER_PROVIDER \<Rightarrow> py ''python-openfeature-server-provider'')"

definition wrapper_distribution :: "wrapper \<Rightarrow> pystr" where
  "wrapper_distribution w =
     (case w of OPENFEATURE_SERVER_PROVIDER \<Rightarrow> py ''configdirector-openfeature-server-provider'')"

definition wrapper_identity :: "(pystr \<Rightarrow> pystr option) \<Rightarrow> wrapper \<Rightarrow> sdk_identity" where
  "wrapper_identity installed w =
     \<lparr>sdk_name = wrapper_sdk_name w,
      sdk_version = (case installed (wrapper_distribution w) of Some v \<Rightarrow> v | None \<Rightarrow> py ''0.0.0-dev'')\<rparr>"

text \<open>An argument that is no wrapper is \<open>None\<close>.\<close>

definition create_wrapped_client ::
  "platform \<Rightarrow> (connection_plan \<Rightarrow> connection_options \<Rightarrow> (pystr, pystr) dict \<Rightarrow> sdk_identity \<Rightarrow> 't) \<Rightarrow>
    (connection_plan \<Rightarrow> telemetry_options \<Rightarrow> (pystr, pystr) dict \<Rightarrow> sdk_identity \<Rightarrow> telemetry) \<Rightarrow>
    (pystr \<Rightarrow> pystr option) \<Rightarrow> wrapper option \<Rightarrow> pyval \<Rightarrow> metadata option \<Rightarrow> connection_options option \<Rightarrow>
    telemetry_options option \<Rightarrow> client_hooks option \<Rightarrow> 't client result" where
  "create_wrapped_client pf make_transport make_telemetry installed w key m co topts hooks =
     (case w of
        None \<Rightarrow> Inl ConfigDirectorTypeError
      | Some wr \<Rightarrow>
          new_client_with pf make_transport make_telemetry
            \<lparr>ar_server_sdk_key = key, ar_metadata = m, ar_connection = co, ar_telemetry = topts,
             ar_hooks = hooks, ar_sdk_identity = wrapper_identity installed wr\<rparr>)"

section \<open>What a context carries\<close>

text \<open>Values made of JSON's types only, but for objects the model knows nothing about.\<close>

fun plain :: "pyval \<Rightarrow> bool" where
  "plain (PList vs) = list_all plain vs"
| "plain (PDict d) = (dict_ok d \<and> list_all (\<lambda>(k, v). (\<exists>s. k = PStr s) \<and> plain v) d)"
| "plain (PTuple vs) = False"
| "plain (PObj t s) = (s = None \<or> t \<noteq> py ''datetime'')"
| "plain (PScalar v) = True"
| "plain PNone = True"

lemma mapE_result_all:
  "mapE f xs = Inr ys \<Longrightarrow> (\<And>x y. x \<in> set xs \<Longrightarrow> f x = Inr y \<Longrightarrow> P y) \<Longrightarrow> list_all P ys"
proof (induction xs arbitrary: ys)
  case (Cons x xs)
  then obtain y zs where y: "f x = Inr y" "mapE f xs = Inr zs" "ys = y # zs" by (auto simp: bindE_Inr_iff)
  have "list_all P zs" by (rule Cons.IH [OF y(2)]) (auto intro: Cons.prems(2))
  moreover have "P y" using Cons.prems(2) [OF _ y(1)] by simp
  ultimately show ?case by (simp add: y(3))
qed simp

lemma list_all_dict_update: "list_all P d \<Longrightarrow> list_all P e \<Longrightarrow> list_all P (dict_update d e)"
  unfolding dict_update_def
proof (induction e arbitrary: d)
  case (Cons kv e)
  obtain k v where kv: "kv = (k, v)" by fastforce
  from Cons.prems have "list_all P (dict_set k v d)" by (intro list_all_dict_set) (simp_all add: kv)
  with Cons show ?case by (simp add: kv)
qed simp

lemma to_plain_plain: "to_plain pr v = Inr w \<Longrightarrow> plain w"
proof (induction pr v arbitrary: w rule: to_plain.induct)
  case (1 pr d)
  then obtain es where es: "mapE (\<lambda>(k, v). bindE (py_str pr k) (\<lambda>t. bindE (to_plain pr v) (\<lambda>w. Inr (PStr t, w)))) d = Inr es"
    and w: "w = PDict (dict_update [] es)" by (auto simp: bindE_Inr_iff)
  have "list_all (\<lambda>(k, v). (\<exists>s. k = PStr s) \<and> plain v) es"
    by (rule mapE_result_all [OF es]) (auto simp: bindE_Inr_iff dest: 1(1))
  then show ?case by (simp add: w list_all_dict_update)
next
  case (2 pr vs)
  then obtain ws where ws: "mapE (to_plain pr) vs = Inr ws" "w = PList ws" by (auto simp: bindE_Inr_iff)
  have "list_all plain ws" using 2(1) by (rule mapE_result_all [OF ws(1)])
  then show ?case by (simp add: ws(2))
next
  case (3 pr vs)
  then obtain ws where ws: "mapE (to_plain pr) vs = Inr ws" "w = PList ws" by (auto simp: bindE_Inr_iff)
  have "list_all plain ws" using 3(1) by (rule mapE_result_all [OF ws(1)])
  then show ?case by (simp add: ws(2))
next
  case (4 pr t s)
  then show ?case by (auto simp: is_datetime_def split: option.splits if_splits)
qed auto

lemma mapE_same: "(\<And>x. x \<in> set xs \<Longrightarrow> f x = Inr x) \<Longrightarrow> mapE f xs = Inr xs"
  by (induction xs) simp_all

lemma plain_to_plain: "plain v \<Longrightarrow> to_plain pr v = Inr v"
proof (induction pr v rule: to_plain.induct)
  case (1 pr d)
  have "mapE (\<lambda>(k, v). bindE (py_str pr k) (\<lambda>t. bindE (to_plain pr v) (\<lambda>w. Inr (PStr t, w)))) d = Inr d"
  proof (rule mapE_same)
    fix x assume x: "x \<in> set d"
    obtain k v where kv: "x = (k, v)" by fastforce
    with x 1 have "\<exists>s. k = PStr s" "to_plain pr v = Inr v" by (auto simp: list_all_iff)
    then show "(case x of (k, v) \<Rightarrow> bindE (py_str pr k) (\<lambda>t. bindE (to_plain pr v) (\<lambda>w. Inr (PStr t, w)))) = Inr x"
      by (auto simp: kv py_str_def)
  qed
  with 1(2) show ?case by (simp add: dict_update_empty)
next
  case (2 pr vs)
  then have "mapE (to_plain pr) vs = Inr vs" by (intro mapE_same) (simp add: list_all_iff)
  then show ?case by simp
qed (auto simp: is_datetime_def split: option.splits)

text \<open>
  C31 (context_translated). The context the SDK evaluates for an OpenFeature context has the targeting key as
  its ID when there is one, is anonymous only for the boolean true, and has traits, if any, that are a
  dict of plain values with string keys only; plain traits are passed on as they are.
\<close>

theorem context_translated:
  assumes "to_context pr (Some x) = Inr (Some c)"
  defines "traits \<equiv> of_attribute x (py ''traits'')"
  shows "(oc_targeting_key x \<noteq> None \<longrightarrow> ctx_id c = oc_targeting_key x) \<and>
    (ctx_anonymous c \<longleftrightarrow> of_attribute x (py ''anonymous'') = PBool True) \<and>
    (ctx_kind c = None \<longleftrightarrow> of_attribute x (py ''kind'') = PNone) \<and>
    plain (ctx_traits c) \<and> (ctx_traits c \<noteq> PNone \<longrightarrow> is_dict (ctx_traits c)) \<and>
    (is_dict traits \<and> truthy traits \<and> plain traits \<longrightarrow> ctx_traits c = traits)"
proof -
  obtain ts where ts: "(if is_dict traits \<and> truthy traits then to_plain pr traits else Inr PNone) = Inr ts"
    and c: "ctx_traits c = ts" "of_identifier pr x = Inr (ctx_id c)"
      "ctx_anonymous c = (case of_attribute x (py ''anonymous'') of PScalar (SBool b) \<Rightarrow> b | _ \<Rightarrow> False)"
      "ctx_kind c = (if of_attribute x (py ''kind'') = PNone then None else Some (of_attribute x (py ''kind'')))"
    using assms(1) unfolding to_context_def Let_def traits_def by (auto simp: bindE_Inr_iff simp del: py_simps)
  have "ts = PNone \<or> is_dict ts \<and> plain ts"
    using ts to_plain_plain [of pr traits ts] by (cases traits) (auto simp: is_dict_def bindE_Inr_iff split: if_splits)
  then show ?thesis
    using c ts plain_to_plain [of traits pr]
    by (auto simp: of_identifier_def split: pyval.splits scalar.splits if_splits)
qed

theorem context_translated_witness:
  "\<exists>c. to_context (\<lambda>_. True) (Some \<lparr>oc_targeting_key = Some (py ''ada''),
      oc_attributes = [(py ''traits'', PDict [(PStr (py ''seen''), PTuple [PInt 1])])]\<rparr>) = Inr (Some c) \<and>
     ctx_id c = Some (py ''ada'') \<and> plain (ctx_traits c)"
proof -
  let ?x = "\<lparr>oc_targeting_key = Some (py ''ada''),
      oc_attributes = [(py ''traits'', PDict [(PStr (py ''seen''), PTuple [PInt 1])])]\<rparr>"
  obtain c where c: "to_context (\<lambda>_. True) (Some ?x) = Inr (Some c)"
    by (simp add: to_context_def of_attribute_def of_identifier_def of_text_def is_dict_def py_str_def
        dict_get_def dict_update_def dict_set_def)
  from context_translated [OF c] c show ?thesis by auto
qed

end
