(* ===== verification/Open_Feature.thy ===== *)
theory Open_Feature
  imports Open_Feature_Values
begin

text \<open>
  The OpenFeature provider: \<open>provider.py\<close> of \<open>configdirector_openfeature\<close>. The callbacks of its client
  run in whatever thread delivers a bundle, so the calls of a bundle wait in \<open>op_pending\<close> and are
  dispatched as steps of their own; a readiness check is a thread that is run one round at a time. What
  OpenFeature has recorded as the status of the provider is asked in each round and is a parameter.
\<close>

section \<open>State\<close>

datatype startup = INITIALIZING | AWAITING_RECORDED_FAILURE | AWAITING_CONFIG | READY

text \<open>
  A readiness check waits for the failure to be recorded, has seen it and is about to report, or is over.
\<close>

datatype readiness_check = Watching | Reporting | Over

datatype provider_event = ProviderReady | ConfigurationChanged "pystr list"

datatype provider_error = ProviderNotReadyError | ClientError exn

text \<open>\<open>_readiness_check\<close> is the last of the threads that were started.\<close>

record provider =
  op_startup :: startup
  op_checks :: "readiness_check list"
  op_shut_down :: bool
  op_client :: "any_transport client"
  op_pending :: "client_call list"
  op_events :: "provider_event list"

abbreviation client_of :: "provider \<Rightarrow> client_state" where
  "client_of p \<equiv> cn_state (op_client p)"

definition provider_name :: pystr where
  "provider_name = py ''ConfigDirectorProvider''"

text \<open>The three callbacks, as the client knows them.\<close>

definition provider_hooks :: client_hooks where
  "provider_hooks = \<lparr>hk_client_ready = Some (Some 0), hk_configs_updated = Some (Some 1),
     hk_config_evaluated = Some (Some 2)\<rparr>"

definition new_provider ::
  "platform \<Rightarrow> (pystr \<Rightarrow> pystr option) \<Rightarrow> pyval \<Rightarrow> metadata option \<Rightarrow> connection_options option \<Rightarrow>
    telemetry_options option \<Rightarrow> provider result" where
  "new_provider pf installed key m co topts =
     bindE (create_wrapped_client pf (build_transport pf) (build_telemetry pf) installed
              (Some OPENFEATURE_SERVER_PROVIDER) key m co topts (Some provider_hooks))
       (\<lambda>c. Inr \<lparr>op_startup = INITIALIZING, op_checks = [], op_shut_down = False, op_client = c,
              op_pending = [], op_events = []\<rparr>)"

section \<open>Callbacks\<close>

definition report_ready_if_config_arrived :: "provider \<Rightarrow> provider" where
  "report_ready_if_config_arrived p =
     (if op_startup p \<noteq> AWAITING_CONFIG \<or> \<not> cl_ready (client_of p) then p
      else p\<lparr>op_startup := READY, op_events := op_events p @ [ProviderReady]\<rparr>)"

definition on_configs_updated_hook :: "pystr list \<Rightarrow> pystr list \<Rightarrow> provider \<Rightarrow> provider" where
  "on_configs_updated_hook keys removed p =
     p\<lparr>op_events := op_events p @ [ConfigurationChanged (keys @ removed)]\<rparr>"

text \<open>An evaluation event concerns the thread that evaluates: see \<open>evaluated_by\<close>.\<close>

definition dispatch_call :: "client_call \<Rightarrow> provider \<Rightarrow> provider" where
  "dispatch_call x p =
     (case x of
        CallReady _ \<Rightarrow> report_ready_if_config_arrived p
      | CallUpdated _ keys removed \<Rightarrow> on_configs_updated_hook keys removed p
      | CallEvaluated _ _ \<Rightarrow> p
      | CallWatcher _ _ \<Rightarrow> p)"

definition dispatch_next :: "provider \<Rightarrow> provider" where
  "dispatch_next p =
     (case op_pending p of [] \<Rightarrow> p | x # xs \<Rightarrow> dispatch_call x (p\<lparr>op_pending := xs\<rparr>))"

definition dispatch_all :: "provider \<Rightarrow> provider" where
  "dispatch_all p = (dispatch_next ^^ length (op_pending p)) p"

definition new_calls :: "client_state \<Rightarrow> client_state \<Rightarrow> client_call list" where
  "new_calls c c' = drop (length (cl_calls c)) (cl_calls c')"

text \<open>The provider after something has happened to its client.\<close>

definition with_client :: "any_transport client \<Rightarrow> provider \<Rightarrow> provider" where
  "with_client c p =
     p\<lparr>op_client := c, op_pending := op_pending p @ new_calls (client_of p) (cn_state c)\<rparr>"

section \<open>Lifecycle\<close>

definition provider_connect ::
  "printable \<Rightarrow> datetime \<Rightarrow> surroundings \<Rightarrow> provider \<Rightarrow> unit result \<times> provider" where
  "provider_connect pr now e p =
     (let (r, c) = initialize pr now (sdk_connect pr e) None (op_client p) in (r, with_client c p))"

definition provider_settle :: "provider \<Rightarrow> (provider_error + unit) \<times> provider" where
  "provider_settle p =
     (if cl_ready (client_of p) then (Inr (), p\<lparr>op_startup := READY\<rparr>)
      else (Inl ProviderNotReadyError,
            p\<lparr>op_startup := AWAITING_RECORDED_FAILURE, op_checks := op_checks p @ [Watching]\<rparr>))"

definition provider_initialize ::
  "printable \<Rightarrow> datetime \<Rightarrow> surroundings \<Rightarrow> provider \<Rightarrow> (provider_error + unit) \<times> provider" where
  "provider_initialize pr now e p =
     (case provider_connect pr now e p of
        (Inl x, p1) \<Rightarrow> (Inl (ClientError x), dispatch_all p1)
      | (Inr _, p1) \<Rightarrow> provider_settle (dispatch_all p1))"

text \<open>One round of a readiness check; \<open>recorded\<close> says whether OpenFeature reports the status \<open>ERROR\<close>.\<close>

definition check_round :: "bool \<Rightarrow> nat \<Rightarrow> provider \<Rightarrow> provider" where
  "check_round recorded i p =
     (case op_checks p ! i of
        Watching \<Rightarrow>
          if recorded then p\<lparr>op_checks := (op_checks p)[i := Reporting], op_startup := AWAITING_CONFIG\<rparr>
          else if op_shut_down p then p\<lparr>op_checks := (op_checks p)[i := Over]\<rparr>
          else p
      | Reporting \<Rightarrow> report_ready_if_config_arrived (p\<lparr>op_checks := (op_checks p)[i := Over]\<rparr>)
      | Over \<Rightarrow> p)"

text \<open>
  \<open>shutdown\<close> joins the last check, which is over within two rounds once \<open>_shut_down\<close> is set, and closes
  the client.
\<close>

definition join_check :: "bool \<Rightarrow> provider \<Rightarrow> provider" where
  "join_check recorded p =
     (if op_checks p = [] then p
      else let i = length (op_checks p) - 1 in check_round recorded i (check_round recorded i p))"

definition provider_shutdown :: "bool \<Rightarrow> pool \<Rightarrow> datetime \<Rightarrow> provider \<Rightarrow> unit result \<times> provider" where
  "provider_shutdown recorded pool now p =
     (let p1 = join_check recorded (p\<lparr>op_shut_down := True\<rparr>);
          (r, c) = close_client transport_close pool now (op_client p1)
      in (r, with_client c p1))"

section \<open>Resolution\<close>

text \<open>What the context variable holds after the calls of an evaluation, reset before.\<close>

definition evaluated_by :: "client_call list \<Rightarrow> config_evaluation option" where
  "evaluated_by calls =
     fold (\<lambda>x v. case x of CallEvaluated _ ev \<Rightarrow> Some ev | _ \<Rightarrow> v) calls None"

definition provider_resolve ::
  "printable \<Rightarrow> datetime \<Rightarrow> pyval \<Rightarrow> pyval \<Rightarrow> of_context option \<Rightarrow> provider \<Rightarrow> resolution_details result \<times> provider" where
  "provider_resolve pr now key d oc p =
     (case to_context pr oc of
        Inl e \<Rightarrow> (Inl e, p)
      | Inr cx \<Rightarrow>
          (let (r, c) = client_get_value pr now key d cx (op_client p)
           in (bindE r (\<lambda>v. Inr (to_resolution_details v (evaluated_by (new_calls (client_of p) (cn_state c))))),
               p\<lparr>op_client := c\<rparr>)))"

definition resolve_boolean_details ::
  "printable \<Rightarrow> datetime \<Rightarrow> pyval \<Rightarrow> pyval \<Rightarrow> of_context option \<Rightarrow> provider \<Rightarrow> resolution_details result \<times> provider" where
  "resolve_boolean_details = provider_resolve"

definition resolve_string_details ::
  "printable \<Rightarrow> datetime \<Rightarrow> pyval \<Rightarrow> pyval \<Rightarrow> of_context option \<Rightarrow> provider \<Rightarrow> resolution_details result \<times> provider" where
  "resolve_string_details = provider_resolve"

definition resolve_integer_details ::
  "printable \<Rightarrow> datetime \<Rightarrow> pyval \<Rightarrow> pyval \<Rightarrow> of_context option \<Rightarrow> provider \<Rightarrow> resolution_details result \<times> provider" where
  "resolve_integer_details = provider_resolve"

definition resolve_float_details ::
  "printable \<Rightarrow> datetime \<Rightarrow> pyval \<Rightarrow> pyval \<Rightarrow> of_context option \<Rightarrow> provider \<Rightarrow> resolution_details result \<times> provider" where
  "resolve_float_details pr now key d oc p =
     (case py_float d of Inl e \<Rightarrow> (Inl e, p) | Inr f \<Rightarrow> provider_resolve pr now key (PFloat f) oc p)"

definition resolve_object_details ::
  "printable \<Rightarrow> datetime \<Rightarrow> pyval \<Rightarrow> pyval \<Rightarrow> of_context option \<Rightarrow> provider \<Rightarrow> resolution_details result \<times> provider" where
  "resolve_object_details pr now key d oc p =
     (case to_plain pr d of Inl e \<Rightarrow> (Inl e, p) | Inr v \<Rightarrow> provider_resolve pr now key v oc p)"

section \<open>Runs of a provider\<close>

text \<open>What happens without OpenFeature starting or stopping the provider, and what it does.\<close>

inductive serving_step :: "printable \<Rightarrow> provider \<Rightarrow> provider \<Rightarrow> bool" for pr where
  works: "serving_step pr p (with_client (background pr now (transport_work pr e) (op_client p)) p)"
| dispatches: "serving_step pr p (dispatch_next p)"
| checks: "i < length (op_checks p) \<Longrightarrow> serving_step pr p (check_round recorded i p)"
| resolves: "serving_step pr p (snd (provider_resolve pr now key d oc p))"

inductive serving_run :: "printable \<Rightarrow> provider \<Rightarrow> provider \<Rightarrow> bool" for pr where
  start: "serving_run pr p p"
| further: "serving_run pr p p' \<Longrightarrow> serving_step pr p' p'' \<Longrightarrow> serving_run pr p p''"

inductive provider_step :: "printable \<Rightarrow> provider \<Rightarrow> provider \<Rightarrow> bool" for pr where
  serves: "serving_step pr p q \<Longrightarrow> provider_step pr p q"
| connects: "provider_step pr p (snd (provider_connect pr now e p))"
| settles: "provider_step pr p (snd (provider_settle p))"
| shuts_down: "provider_step pr p (snd (provider_shutdown recorded pool now p))"

inductive provider_run :: "printable \<Rightarrow> provider \<Rightarrow> provider \<Rightarrow> bool" for pr where
  start: "provider_run pr p p"
| further: "provider_run pr p p' \<Longrightarrow> provider_step pr p' p'' \<Longrightarrow> provider_run pr p p''"

inductive_cases serving_stepE: "serving_step pr p q"
inductive_cases provider_stepE: "provider_step pr p q"

definition ready_events :: "provider \<Rightarrow> nat" where
  "ready_events p = count_list (op_events p) ProviderReady"

section \<open>The client behind the provider\<close>

definition provider_handlers :: handlers where
  "provider_handlers = \<lparr>on_client_ready = [0], on_configs_updated = [1], on_config_evaluated = [2]\<rparr>"

text \<open>
  Until it is closed the client has exactly the callbacks of the provider; it is a sound client of the
  SDK throughout.
\<close>

definition provider_ok :: "printable \<Rightarrow> provider \<Rightarrow> bool" where
  "provider_ok pr p \<longleftrightarrow> any.sound pr (op_client p) \<and>
     (\<not> cl_closed (client_of p) \<longrightarrow> cl_handlers (client_of p) = provider_handlers)"

lemma prefix_emit: "prefix (cl_calls c) (cl_calls (emit ev mk c))"
  by (simp add: emit_def)

lemma prefix_evaluates: "evaluates c c' \<Longrightarrow> prefix (cl_calls c) (cl_calls c')"
  by (auto simp: evaluates_def)

lemma prefix_notify: "prefix (cl_calls c) (cl_calls (notify_watcher pr now key cfg segs w c))"
proof -
  obtain x c1 where x: "evaluate_definition pr now key cfg (w_default w) (w_context w) segs c = (x, c1)"
    by fastforce
  have "evaluates c c1" using evaluate_definition_result [THEN conjunct1] by (metis x snd_conv)
  then have "prefix (cl_calls c) (cl_calls c1)" by (rule prefix_evaluates)
  then show ?thesis by (cases x) (simp_all add: notify_watcher_def x prefix_order.order_trans)
qed

lemma prefix_fold:
  assumes "\<And>x c. prefix (cl_calls c) (cl_calls (f x c))"
  shows "prefix (cl_calls c) (cl_calls (fold f xs c))"
  by (induction xs arbitrary: c) (auto intro: prefix_order.order_trans [OF assms])

lemma prefix_emitI: "prefix xs (cl_calls c) \<Longrightarrow> prefix xs (cl_calls (emit ev mk c))"
  by (rule prefix_order.order_trans [OF _ prefix_emit])

lemma prefix_notifyI: "prefix xs (cl_calls c) \<Longrightarrow> prefix xs (cl_calls (notify_watchers pr now ws configs segs c))"
  unfolding notify_watchers_def
  by (rule prefix_order.order_trans [OF _ prefix_fold]) (auto intro: prefix_fold prefix_notify)

lemma prefix_bundle: "prefix (cl_calls c) (cl_calls (on_bundle pr now b c))"
  by (auto simp: on_bundle_def Let_def intro!: prefix_emitI prefix_notifyI)

text \<open>A bundle that makes the client ready calls whoever waits for that.\<close>

lemma bundle_effect:
  assumes "\<not> cl_closed c"
  shows "cl_handlers (on_bundle pr now b c) = cl_handlers c" "cl_ready (on_bundle pr now b c)"
    "\<not> cl_ready c \<Longrightarrow> h \<in> set (on_client_ready (cl_handlers c)) \<Longrightarrow>
      CallReady h \<in> set (new_calls c (on_bundle pr now b c))"
proof -
  note e = on_bundle_effect [OF assms, where b = b and pr = pr and now = now]
  show "cl_handlers (on_bundle pr now b c) = cl_handlers c" "cl_ready (on_bundle pr now b c)"
    using e(1) by (simp_all add: same_but_calls_def)
  obtain ys where ys: "cl_calls (on_bundle pr now b c) = cl_calls c @ ys"
    using prefix_bundle unfolding prefix_def by blast
  assume "\<not> cl_ready c" "h \<in> set (on_client_ready (cl_handlers c))"
  with e(3) ys have "CallReady h \<in> set (filter is_ready_call ys)" by auto
  then show "CallReady h \<in> set (new_calls c (on_bundle pr now b c))" by (simp add: new_calls_def ys)
qed

lemma bundles_effect:
  assumes "\<not> cl_closed c"
  shows "cl_handlers (fold (on_bundle pr now) bs c) = cl_handlers c \<and>
    prefix (cl_calls c) (cl_calls (fold (on_bundle pr now) bs c)) \<and>
    (cl_ready c \<longrightarrow> cl_ready (fold (on_bundle pr now) bs c)) \<and>
    (\<not> cl_ready c \<and> cl_ready (fold (on_bundle pr now) bs c) \<longrightarrow>
       (\<forall>h \<in> set (on_client_ready (cl_handlers c)).
          CallReady h \<in> set (new_calls c (fold (on_bundle pr now) bs c))))"
  using assms
proof (induction bs arbitrary: c)
  case (Cons b bs)
  let ?c = "on_bundle pr now b c"
  have ih: "\<not> cl_closed ?c" using Cons.prems by simp
  note e = bundle_effect [OF Cons.prems, where b = b and pr = pr and now = now]
  obtain xs where xs: "cl_calls ?c = cl_calls c @ xs" using prefix_bundle unfolding prefix_def by blast
  obtain ys where ys: "cl_calls (fold (on_bundle pr now) bs ?c) = cl_calls ?c @ ys"
    using Cons.IH [OF ih] unfolding prefix_def by blast
  have "set (new_calls c ?c) \<subseteq> set (new_calls c (fold (on_bundle pr now) bs ?c))"
    by (simp add: new_calls_def xs ys)
  with Cons.IH [OF ih] e xs ys show ?case by auto
qed (simp add: new_calls_def)

lemma background_state:
  "\<exists>bs. cn_state (background pr now work c) = fold (on_bundle pr now) bs (cn_state c)"
  by (auto simp: background_def split_def Let_def)

lemma initialize_state:
  "\<exists>bs. cn_state (snd (initialize pr now connect timeout c)) = fold (on_bundle pr now) bs (cn_state c)"
proof -
  have "\<exists>bs. cn_state (snd (run_connect pr now connect t c)) = fold (on_bundle pr now) bs (cn_state c)" for t
    by (auto simp: run_connect_def split: prod.splits)
  moreover have "\<exists>bs. cn_state c = fold (on_bundle pr now) bs (cn_state c)" by (rule exI [of _ "[]"]) simp
  ultimately show ?thesis
    by (auto simp: initialize_def connect_and_wait_def Let_def split: connection_plan.splits sum.splits)
qed

section \<open>Invariants\<close>

lemma hooked_state:
  assumes "attach_hooks (Some provider_hooks) (new_client_state m t) = Inr s"
  shows "cl_handlers s = provider_handlers"
  using assms
  by (auto simp: attach_hooks_def attach_hook_def provider_hooks_def client_on_def event_of_name_def bindE_Inr_iff
      set_handlers_def handlers_for_def new_client_state_def no_handlers_def provider_handlers_def)

lemma new_provider_ok:
  assumes "new_provider pf installed key m co topts = Inr p"
  shows "provider_ok pr p \<and> op_startup p = INITIALIZING \<and> op_checks p = [] \<and> \<not> op_shut_down p \<and>
    op_pending p = [] \<and> op_events p = [] \<and> \<not> cl_closed (client_of p)"
proof -
  obtain c ar where c: "new_client pf ar = Inr c" "ar_hooks ar = Some provider_hooks" and
    p: "p = \<lparr>op_startup = INITIALIZING, op_checks = [], op_shut_down = False, op_client = c,
              op_pending = [], op_events = []\<rparr>"
    using assms by (auto simp: new_provider_def create_wrapped_client_def new_client_def bindE_Inr_iff)
  have "any.sound pr c" by (rule new_client_sound [OF c(1)])
  moreover have "cl_handlers (cn_state c) = provider_handlers" "\<not> cl_closed (cn_state c)"
    using c by (auto simp: new_client_def new_client_with_def Let_def bindE_Inr_iff dest: hooked_state attach_hooks_new)
  ultimately show ?thesis by (simp add: provider_ok_def p)
qed

lemma report_ready_simps [simp]:
  "op_client (report_ready_if_config_arrived p) = op_client p"
  "op_pending (report_ready_if_config_arrived p) = op_pending p"
  "op_checks (report_ready_if_config_arrived p) = op_checks p"
  "op_shut_down (report_ready_if_config_arrived p) = op_shut_down p"
  by (simp_all add: report_ready_if_config_arrived_def)

lemma dispatch_call_simps [simp]:
  "op_client (dispatch_call x p) = op_client p" "op_pending (dispatch_call x p) = op_pending p"
  "op_checks (dispatch_call x p) = op_checks p" "op_shut_down (dispatch_call x p) = op_shut_down p"
  by (simp_all add: dispatch_call_def on_configs_updated_hook_def split: client_call.splits)

lemma dispatch_next_simps [simp]:
  "op_client (dispatch_next p) = op_client p" "op_pending (dispatch_next p) = tl (op_pending p)"
  "op_checks (dispatch_next p) = op_checks p" "op_shut_down (dispatch_next p) = op_shut_down p"
  by (simp_all add: dispatch_next_def split: list.splits)

lemma check_round_simps [simp]:
  "op_client (check_round recorded i p) = op_client p" "op_pending (check_round recorded i p) = op_pending p"
  "length (op_checks (check_round recorded i p)) = length (op_checks p)"
  by (simp_all add: check_round_def split: readiness_check.splits)

lemma with_client_simps [simp]:
  "op_client (with_client c p) = c" "op_startup (with_client c p) = op_startup p"
  "op_checks (with_client c p) = op_checks p" "op_events (with_client c p) = op_events p"
  "op_shut_down (with_client c p) = op_shut_down p"
  by (simp_all add: with_client_def)

lemma join_check_simps [simp]:
  "op_client (join_check recorded p) = op_client p" "length (op_checks (join_check recorded p)) = length (op_checks p)"
  by (simp_all add: join_check_def Let_def)

lemma resolve_state:
  obtains "snd (provider_resolve pr now key d oc p) = p"
  | s where "snd (provider_resolve pr now key d oc p) = p\<lparr>op_client := (op_client p)\<lparr>cn_state := s\<rparr>\<rparr>"
    "evaluates (client_of p) s" "client_step (client_of p) s"
proof (cases "to_context pr oc")
  case (Inr cx)
  let ?s = "snd (get_value pr now key d cx (client_of p))"
  have "snd (provider_resolve pr now key d oc p) = p\<lparr>op_client := (op_client p)\<lparr>cn_state := ?s\<rparr>\<rparr>"
    by (simp add: provider_resolve_def Inr client_get_value_def split_def Let_def)
  then show thesis using that(2) get_value_evaluates step_get_value by blast
qed (use that(1) in \<open>simp add: provider_resolve_def\<close>)

text \<open>What any step does to the client.\<close>

lemma provider_step_client:
  assumes "provider_step pr p q" and "provider_ok pr p"
  shows "provider_ok pr q \<and> (cl_closed (client_of p) \<longrightarrow> cl_closed (client_of q))"
proof -
  have sound: "any.sound pr (op_client p)" using assms(2) by (simp add: provider_ok_def)
  have bundles: "cl_handlers (fold (on_bundle pr now) bs (client_of p)) = provider_handlers"
    if "\<not> cl_closed (client_of p)" for now bs
    using bundles_effect [OF that] assms(2) that by (simp add: provider_ok_def)
  from assms(1) show ?thesis
  proof (cases rule: provider_step.cases)
    case serves
    then show ?thesis
    proof (cases rule: serving_step.cases)
      case (works now e)
      then show ?thesis
        using any.sound_background [OF sound, where now = now and e = e] background_state [of pr now "transport_work pr e" "op_client p"] bundles
        by (auto simp: provider_ok_def)
    next
      case (resolves now key d oc)
      show ?thesis
      proof (rule resolve_state [of pr now key d oc p])
        fix s
        assume s: "snd (provider_resolve pr now key d oc p) = p\<lparr>op_client := (op_client p)\<lparr>cn_state := s\<rparr>\<rparr>"
          "evaluates (client_of p) s" "client_step (client_of p) s"
        with any.sound_uses [OF sound s(3)] evaluates_fields [OF s(2)] assms(2) resolves show ?thesis
          by (simp add: provider_ok_def)
      qed (use assms(2) resolves in simp)
    qed (use assms(2) in \<open>simp_all add: provider_ok_def\<close>)
  next
    case (connects now e)
    then show ?thesis
      using any.sound_initialize [OF sound, where now = now and env = "\<lambda>timeout. e\<lparr>sw_timeout := timeout\<rparr>" and timeout = None]
        initialize_state [of pr now "sdk_connect pr e" None "op_client p"] bundles
      by (auto simp: provider_ok_def provider_connect_def sdk_connect_eq split_def Let_def)
  next
    case settles
    then show ?thesis using assms(2) by (simp add: provider_ok_def provider_settle_def)
  next
    case (shuts_down recorded pool now)
    then show ?thesis
      using any.sound_close [OF sound, where pool = pool and now = now] client_close_closed [of pool now "client_of p"] assms(2)
      by (auto simp: provider_ok_def provider_shutdown_def close_client_def Let_def split_def split: sum.splits prod.splits)
  qed
qed

lemma provider_run_client:
  assumes "provider_run pr p q" and "provider_ok pr p"
  shows "provider_ok pr q \<and> (cl_closed (client_of p) \<longrightarrow> cl_closed (client_of q))"
  using assms by (induction rule: provider_run.induct) (auto dest: provider_step_client)

section \<open>How often OpenFeature is told\<close>

lemma count_list_update:
  "i < length xs \<Longrightarrow> xs ! i = x \<Longrightarrow> y \<noteq> x \<Longrightarrow> Suc (count_list (xs[i := y]) x) = count_list xs x"
  "i < length xs \<Longrightarrow> xs ! i \<noteq> x \<Longrightarrow> y \<noteq> x \<Longrightarrow> count_list (xs[i := y]) x = count_list xs x"
  by (induction xs arbitrary: i) (auto split: nat.splits)

text \<open>
  Every check that still watches, and a startup that waits for config, may lead to one more event.
\<close>

definition claims :: "provider \<Rightarrow> nat" where
  "claims p = count_list (op_checks p) Watching + (if op_startup p = AWAITING_CONFIG then 1 else 0) +
     ready_events p"

text \<open>The two ways a step can count: no event, or one event, after which the startup is over.\<close>

definition at_most_one_event :: "provider \<Rightarrow> provider \<Rightarrow> bool" where
  "at_most_one_event p q \<longleftrightarrow> ready_events q = ready_events p \<or>
     ready_events q = Suc (ready_events p) \<and> cl_ready (client_of p) \<and> op_startup q = READY"

lemma report_ready_claims:
  "claims (report_ready_if_config_arrived p) = claims p \<and> at_most_one_event p (report_ready_if_config_arrived p)"
  by (simp add: report_ready_if_config_arrived_def claims_def ready_events_def at_most_one_event_def)

lemma dispatch_next_claims: "claims (dispatch_next p) = claims p \<and> at_most_one_event p (dispatch_next p)"
  by (simp add: dispatch_next_def dispatch_call_def on_configs_updated_hook_def report_ready_if_config_arrived_def
      claims_def ready_events_def at_most_one_event_def split: list.splits client_call.splits)

lemma check_round_claims:
  assumes "i < length (op_checks p)"
  shows "claims (check_round recorded i p) \<le> claims p \<and> at_most_one_event p (check_round recorded i p)"
proof (cases "op_checks p ! i")
  case Watching
  have "Suc (count_list ((op_checks p)[i := y]) Watching) = count_list (op_checks p) Watching" if "y \<noteq> Watching" for y
    using count_list_update(1) [OF assms Watching that] .
  from this [of Reporting] this [of Over] show ?thesis
    by (simp add: check_round_def Watching claims_def ready_events_def at_most_one_event_def)
next
  case Reporting
  then have "count_list ((op_checks p)[i := Over]) Watching = count_list (op_checks p) Watching"
    using count_list_update(2) [OF assms] by simp
  then show ?thesis
    by (simp add: check_round_def Reporting report_ready_if_config_arrived_def claims_def ready_events_def
        at_most_one_event_def)
qed (simp add: check_round_def at_most_one_event_def)

text \<open>A round that tells OpenFeature is the last one of its check.\<close>

lemma check_round_over:
  assumes "i < length (op_checks p)"
  shows "op_checks (check_round recorded i p) ! i = Over \<or> ready_events (check_round recorded i p) = ready_events p"
  using assms by (auto simp: check_round_def ready_events_def split: readiness_check.splits)

lemma join_check_claims: "claims (join_check recorded p) \<le> claims p \<and> at_most_one_event p (join_check recorded p)"
proof (cases "op_checks p = []")
  case False
  define i where "i = length (op_checks p) - 1"
  with False have i: "i < length (op_checks p)" by simp
  let ?q = "check_round recorded i p"
  have j: "join_check recorded p = check_round recorded i ?q" using False by (simp add: join_check_def i_def Let_def)
  note first = check_round_claims [OF i, of recorded] and second = check_round_claims [of i ?q recorded]
  have "claims (join_check recorded p) \<le> claims p" using first second i by (auto simp: j)
  moreover have "at_most_one_event p (join_check recorded p)"
  proof (cases "ready_events ?q = ready_events p")
    case True
    then show ?thesis using second i by (simp add: j at_most_one_event_def)
  next
    case False
    with check_round_over [OF i, of recorded] have "op_checks ?q ! i = Over" by blast
    then have "check_round recorded i ?q = ?q" by (simp add: check_round_def [of recorded i ?q])
    with first show ?thesis by (simp add: j)
  qed
  ultimately show ?thesis ..
qed (simp add: join_check_def at_most_one_event_def)

lemma provider_step_claims:
  assumes "provider_step pr p q" and "claims p \<le> length (op_checks p)"
  shows "claims q \<le> length (op_checks q) \<and> at_most_one_event p q"
  using assms(1)
proof (cases rule: provider_step.cases)
  case serves
  then show ?thesis
  proof (cases rule: serving_step.cases)
    case dispatches
    then show ?thesis using dispatch_next_claims [of p] assms(2) by simp
  next
    case (checks i recorded)
    then show ?thesis using check_round_claims [of i p recorded] assms(2) by simp
  next
    case (resolves now key d oc)
    then show ?thesis using assms(2)
      by (auto simp: claims_def ready_events_def at_most_one_event_def intro: resolve_state [of pr now key d oc p])
  qed (use assms(2) in \<open>simp add: claims_def ready_events_def at_most_one_event_def\<close>)
next
  case (shuts_down recorded pool now)
  let ?p = "p\<lparr>op_shut_down := True\<rparr>"
  have e: "claims ?p = claims p" "ready_events ?p = ready_events p" by (simp_all add: claims_def ready_events_def)
  have q: "claims q = claims (join_check recorded ?p)" "ready_events q = ready_events (join_check recorded ?p)"
    "length (op_checks q) = length (op_checks p)" "op_startup q = op_startup (join_check recorded ?p)"
    by (simp_all add: shuts_down provider_shutdown_def Let_def split_def claims_def ready_events_def)
  show ?thesis using join_check_claims [of recorded ?p] assms(2) by (auto simp: q e at_most_one_event_def)
qed (use assms(2) in \<open>auto simp: provider_connect_def provider_settle_def split_def Let_def claims_def
    ready_events_def at_most_one_event_def\<close>)

lemma provider_run_claims:
  "provider_run pr p q \<Longrightarrow> claims p \<le> length (op_checks p) \<Longrightarrow> claims q \<le> length (op_checks q)"
  by (induction rule: provider_run.induct) (auto dest: provider_step_claims)

section \<open>After a failed initialization\<close>

text \<open>
  One failure, one check: until OpenFeature has been told, either the check still has to see the failure,
  or it has still to report, or the client is not ready, or a call that says it became ready is pending.
\<close>

definition recovering :: "provider \<Rightarrow> bool" where
  "recovering p \<longleftrightarrow> (\<exists>check. op_checks p = [check] \<and>
     (op_startup p = AWAITING_RECORDED_FAILURE \<and> check = Watching \<and> ready_events p = 0 \<or>
      op_startup p = AWAITING_CONFIG \<and> ready_events p = 0 \<and>
        (check = Reporting \<or> check = Over \<and> (\<not> cl_ready (client_of p) \<or> (\<exists>h. CallReady h \<in> set (op_pending p)))) \<or>
      op_startup p = READY \<and> ready_events p = 1 \<and> check \<noteq> Watching)) \<and>
   \<not> op_shut_down p \<and> \<not> cl_closed (client_of p)"

lemma recovering_dispatch: "recovering p \<Longrightarrow> recovering (dispatch_next p)"
  by (auto simp: recovering_def dispatch_next_def dispatch_call_def on_configs_updated_hook_def
      report_ready_if_config_arrived_def ready_events_def split: list.splits client_call.splits)

lemma recovering_check: "recovering p \<Longrightarrow> i < length (op_checks p) \<Longrightarrow> recovering (check_round recorded i p)"
  by (auto simp: recovering_def check_round_def report_ready_if_config_arrived_def ready_events_def
      split: if_splits readiness_check.splits)

lemma recovering_step:
  assumes "serving_step pr p q" and "recovering p" and "provider_ok pr p"
  shows "recovering q"
  using assms(1)
proof (cases rule: serving_step.cases)
  case (works now e)
  let ?c = "background pr now (transport_work pr e) (op_client p)"
  obtain bs where bs: "cn_state ?c = fold (on_bundle pr now) bs (client_of p)" using background_state by blast
  have op: "\<not> cl_closed (client_of p)" and h: "cl_handlers (client_of p) = provider_handlers"
    using assms(2,3) by (auto simp: recovering_def provider_ok_def)
  have "\<not> cl_ready (client_of p) \<and> cl_ready (cn_state ?c) \<longrightarrow> CallReady 0 \<in> set (new_calls (client_of p) (cn_state ?c))"
    using bundles_effect [OF op, of pr now bs] by (simp add: bs h provider_handlers_def)
  then show ?thesis using assms(2) op
    by (auto simp: works recovering_def ready_events_def with_client_def bs)
next
  case (resolves now key d oc)
  show ?thesis
    by (rule resolve_state [of pr now key d oc p])
      (use assms(2) resolves in \<open>auto simp: recovering_def ready_events_def evaluates_fields\<close>)
qed (use assms(2) in \<open>simp_all add: recovering_dispatch recovering_check\<close>)

lemma recovering_run:
  assumes "serving_run pr p q" and "recovering p" and "provider_ok pr p"
  shows "recovering q \<and> provider_ok pr q"
  using assms
  by (induction rule: serving_run.induct) (auto intro: recovering_step dest: provider_step_client [OF provider_step.serves])

lemma recovering_dispatch_all: "recovering p \<Longrightarrow> recovering ((dispatch_next ^^ n) p)"
  by (induction n) (simp_all add: recovering_dispatch)

lemma dispatches_simps:
  "op_client ((dispatch_next ^^ n) p) = op_client p" "op_pending ((dispatch_next ^^ n) p) = drop n (op_pending p)"
  "op_checks ((dispatch_next ^^ n) p) = op_checks p" "op_shut_down ((dispatch_next ^^ n) p) = op_shut_down p"
  by (induction n) (simp_all add: drop_Suc tl_drop)

lemma initializing_dispatches:
  "op_startup p = INITIALIZING \<Longrightarrow> op_startup ((dispatch_next ^^ n) p) = INITIALIZING \<and>
     ready_events ((dispatch_next ^^ n) p) = ready_events p"
  by (induction n) (auto simp: dispatch_next_def dispatch_call_def on_configs_updated_hook_def ready_events_def
      report_ready_if_config_arrived_def split: list.splits client_call.splits)

lemma recovering_initialize:
  assumes "new_provider pf installed k m co topts = Inr p0"
    and "provider_initialize pr now e p0 = (Inl ProviderNotReadyError, p1)"
  shows "recovering p1 \<and> provider_ok pr p1"
proof -
  note new = new_provider_ok [OF assms(1), of pr]
  obtain r pc where c: "provider_connect pr now e p0 = (r, pc)" by fastforce
  have step: "provider_step pr p0 pc" using provider_step.connects [of pr p0 now e] by (simp add: c)
  have ok: "provider_ok pr pc" using provider_step_client [OF step] new by simp
  have pc: "op_startup pc = INITIALIZING" "op_checks pc = []" "ready_events pc = 0" "\<not> op_shut_down pc"
    "\<not> cl_closed (client_of pc)"
    using c new initialize_state [of pr now "sdk_connect pr e" None "op_client p0"]
    by (auto simp: provider_connect_def split_def Let_def ready_events_def)
  then have p1: "provider_settle (dispatch_all pc) = (Inl ProviderNotReadyError, p1)"
    using assms(2) by (cases r) (simp_all add: provider_initialize_def c)
  note d = dispatches_simps [of "length (op_pending pc)" pc, folded dispatch_all_def]
  have "recovering p1" using p1 pc d initializing_dispatches [OF pc(1), of "length (op_pending pc)", folded dispatch_all_def]
    by (auto simp: provider_settle_def recovering_def ready_events_def split: if_splits)
  moreover have "provider_ok pr p1" using p1 ok d by (auto simp: provider_settle_def provider_ok_def split: if_splits)
  ultimately show ?thesis ..
qed

lemma join_check_over:
  assumes "op_shut_down p" and "op_checks p \<noteq> []"
  shows "last (op_checks (join_check recorded p)) = Over"
proof -
  define i where "i = length (op_checks p) - 1"
  have i: "i < length (op_checks p)" using assms(2) by (simp add: i_def)
  have first: "op_checks (check_round recorded i p) ! i \<noteq> Watching" using i assms(1)
    by (simp add: check_round_def split: readiness_check.splits)
  have "op_checks q ! i \<noteq> Watching \<Longrightarrow> i < length (op_checks q) \<Longrightarrow> op_checks (check_round recorded i q) ! i = Over" for q
    by (cases "op_checks q ! i") (simp_all add: check_round_def)
  from this [OF first] i have "op_checks (check_round recorded i (check_round recorded i p)) ! i = Over" by simp
  moreover have "length (op_checks (join_check recorded p)) - 1 = i" by (simp add: i_def)
  moreover have "op_checks (join_check recorded p) \<noteq> []" using join_check_simps(2) [of recorded p] i by force
  ultimately show ?thesis
    using assms(2) by (simp add: last_conv_nth join_check_def i_def Let_def)
qed

section \<open>What an evaluation reports\<close>

lemma parse_config_value_reason:
  assumes "parse_config_value state d = Inr r"
  shows "pv_reason r \<noteq> ConfigStateMissing \<and> pv_reason r \<noteq> ClientNotReady"
proof -
  have m: "pv_reason (matched v state) = FoundMatch" for v by (simp add: matched_def)
  have d: "pv_reason (defaulted x reason) = reason" for x reason by (simp add: defaulted_def)
  show ?thesis
  proof (cases d rule: json_plain.cases)
    case (4 f)
    then show ?thesis using assms by (auto simp: parse_config_value_def m d split: option.splits if_splits)
  qed (use assms in \<open>auto simp: parse_config_value_def bindE_Inr_iff m d is_dict_def
      split: option.splits if_splits sum.splits pyval.splits\<close>)
qed

lemma evaluation_of_cases:
  assumes "evaluation_of pr meta missing key cfg d supplied segs = Inr r"
  shows "er_key r = key \<and>
    (if cfg = None then er_value r = d \<and> er_used_default r \<and> er_reason r = missing
     else er_reason r \<noteq> ConfigStateMissing \<and> er_reason r \<noteq> ClientNotReady \<and>
       (if er_reason r = FoundMatch then same_type (er_value r) d else er_used_default r \<and> er_value r = d))"
proof (cases cfg)
  case (Some c)
  define state where "state = evaluate c (Some \<lparr>ec_context = checked_of supplied, ec_metadata = Some meta\<rparr>) (Some segs)"
  obtain q i where q: "parse_config_value state d = Inr q" and r: "r = \<lparr>er_key = key, er_default = d,
      er_value = pv_value q, er_used_default = pv_used_default q, er_reason = pv_reason q,
      er_config_type = st_type state, er_value_id = Some i\<rparr>"
    using assms by (auto simp: evaluation_of_def Some state_def Let_def bindE_Inr_iff)
  from q show ?thesis
    by (cases rule: parse_config_value_cases)
      (use parse_config_value_reason [OF q] in \<open>auto simp: r Some defaulted_def matched_def\<close>)
qed (use assms in \<open>auto simp: evaluation_of_def bindE_Inr_iff\<close>)

lemma get_value_event:
  assumes "get_value pr now (PStr key) d supplied c = (Inr v, c')"
  obtains r where
    "evaluation_of pr (cl_metadata c) (missing_reason c) key (config_of c key) d supplied (cl_segments c) = Inr r"
    and "v = er_value r"
    and "new_calls c c' = map (\<lambda>h. CallEvaluated h \<lparr>ev_key = er_key r, ev_value = er_value r,
      ev_is_default = er_used_default r, ev_reason = er_reason r, ev_value_id = er_value_id r,
      ev_context = checked_of supplied\<rparr>) (on_config_evaluated (cl_handlers c))"
proof -
  have e: "evaluate_definition pr now key (config_of c key) d supplied (cl_segments c) c = (Inr v, c')"
    using assms by (auto simp: get_value_def config_of_def bindE_Inr_iff split: sum.splits)
  obtain t where t: "evaluate_definition pr now key (config_of c key) d supplied (cl_segments c) c =
       (case evaluation_of pr (cl_metadata c) (missing_reason c) key (config_of c key) d supplied (cl_segments c) of
          Inl e \<Rightarrow> (Inl e, c\<lparr>cl_telemetry := t\<rparr>)
        | Inr r \<Rightarrow> record_and_emit pr now r (checked_of supplied) (c\<lparr>cl_telemetry := t\<rparr>))"
    using evaluate_definition_eq by blast
  with e obtain r where r: "evaluation_of pr (cl_metadata c) (missing_reason c) key (config_of c key) d supplied
      (cl_segments c) = Inr r" "record_and_emit pr now r (checked_of supplied) (c\<lparr>cl_telemetry := t\<rparr>) = (Inr v, c')"
    by (auto split: sum.splits)
  then show thesis
    by (intro that [OF r(1)])
      (auto simp: record_and_emit_def emit_evaluation_def emit_def handlers_for_def new_calls_def split_def Let_def
        split: sum.splits)
qed

section \<open>Properties\<close>


text \<open>
  C28 (provider_ready_once). However a provider is used, OpenFeature is told at most once for each failed
  initialization that the provider is ready, one event at a time, and only while the client has config.
\<close>

theorem provider_ready_once:
  assumes "new_provider pf installed k m co topts = Inr p0" and "provider_run pr p0 p"
    and "provider_step pr p q"
  shows "ready_events p \<le> length (op_checks p) \<and>
    (ready_events q \<noteq> ready_events p \<longrightarrow>
       ready_events q = Suc (ready_events p) \<and> cl_ready (client_of p) \<and> op_startup q = READY)"
proof -
  have "claims p0 \<le> length (op_checks p0)"
    using new_provider_ok [OF assms(1)] by (simp add: claims_def ready_events_def)
  with assms(2) have "claims p \<le> length (op_checks p)" by (rule provider_run_claims)
  with provider_step_claims [OF assms(3)] show ?thesis by (auto simp: claims_def at_most_one_event_def)
qed

text \<open>
  C27 (provider_recovers). When initialization has failed for lack of config and config arrives later, the
  provider recovers: in whatever order the bundle, its callbacks, the rounds of the readiness check and
  evaluations happen, once the client is ready two rounds that see the recorded failure and the pending
  callbacks suffice for OpenFeature to be told exactly once.
\<close>

theorem provider_recovers:
  assumes "new_provider pf installed k m co topts = Inr p0"
    and "provider_initialize pr now e p0 = (Inl ProviderNotReadyError, p1)"
    and "serving_run pr p1 p" and "cl_ready (client_of p)"
  shows "ready_events (dispatch_all (check_round True 0 (check_round True 0 p))) = 1 \<and>
    op_startup (dispatch_all (check_round True 0 (check_round True 0 p))) = READY"
proof -
  let ?q = "check_round True 0 (check_round True 0 p)"
  have r: "recovering p" using recovering_run [OF assms(3)] recovering_initialize [OF assms(1,2)] by blast
  then have i: "0 < length (op_checks p)" by (auto simp: recovering_def)
  have "recovering ?q" using r i recovering_check by simp
  then have end_state: "recovering (dispatch_all ?q)" unfolding dispatch_all_def by (rule recovering_dispatch_all)
  have first: "op_checks (check_round True 0 p) ! 0 \<noteq> Watching" using i
    by (simp add: check_round_def split: readiness_check.splits)
  have "op_checks x ! 0 \<noteq> Watching \<Longrightarrow> 0 < length (op_checks x) \<Longrightarrow> op_checks (check_round True 0 x) ! 0 = Over" for x
    by (cases "op_checks x ! 0") (simp_all add: check_round_def)
  from this [OF first] i have "op_checks ?q ! 0 = Over" by simp
  with end_state assms(4) show ?thesis
    by (auto simp: recovering_def dispatches_simps [of _ ?q, folded dispatch_all_def] dispatch_all_def dispatches_simps)
qed

text \<open>
  C30 (provider_shutdown_final). \<open>shutdown\<close> returns with its readiness check over, whatever the status, and
  with the client closed and disconnected; afterwards, whatever is called and whatever arrives, the
  client stays closed and OpenFeature is never told again that the provider is ready.
\<close>

theorem provider_shutdown_final:
  fixes pf installed k m co topts p0 pr p recorded pool now q'
  assumes "new_provider pf installed k m co topts = Inr p0" and "provider_run pr p0 p"
  defines "q \<equiv> snd (provider_shutdown recorded pool now p)"
  assumes "provider_run pr q q'"
  shows "(op_checks q \<noteq> [] \<longrightarrow> last (op_checks q) = Over) \<and> cl_closed (client_of q) \<and>
    \<not> transport_is_connected (cn_transport (op_client q)) \<and> cl_closed (client_of q') \<and>
    ready_events q' = ready_events q"
proof -
  have ok: "provider_ok pr p" using provider_run_client [OF assms(2)] new_provider_ok [OF assms(1)] by blast
  have step: "provider_step pr p q" unfolding q_def by (rule provider_step.shuts_down)
  have okq: "provider_ok pr q" using provider_step_client [OF step ok] by simp
  have "client_of q = cn_state (snd (close_client transport_close pool now (op_client p)))"
    by (simp add: q_def provider_shutdown_def Let_def split_def)
  then have closed: "cl_closed (client_of q)"
    using client_close_closed [of pool now "client_of p"]
    by (auto simp: close_client_def Let_def split: prod.splits sum.splits)
  have off: "\<not> transport_is_connected (cn_transport (op_client q))"
    using any.sound_disconnected okq closed unfolding provider_ok_def by blast
  have none: "join_check recorded (p\<lparr>op_shut_down := True\<rparr>) = p\<lparr>op_shut_down := True\<rparr>" if "op_checks p = []"
    using that by (simp add: join_check_def)
  have over: "op_checks q \<noteq> [] \<longrightarrow> last (op_checks q) = Over"
    using join_check_over [of "p\<lparr>op_shut_down := True\<rparr>" recorded] none
    by (cases "op_checks p = []") (auto simp: q_def provider_shutdown_def Let_def split_def)
  have "claims p0 \<le> length (op_checks p0)"
    using new_provider_ok [OF assms(1)] by (simp add: claims_def ready_events_def)
  with assms(2) have "claims p \<le> length (op_checks p)" by (rule provider_run_claims)
  then have cq: "claims q \<le> length (op_checks q)" using provider_step_claims [OF step] by simp
  from assms(4) closed okq cq have "cl_closed (client_of q') \<and> ready_events q' = ready_events q \<and>
      provider_ok pr q' \<and> claims q' \<le> length (op_checks q')"
  proof (induction rule: provider_run.induct)
    case (further a b c)
    then have b: "cl_closed (client_of b)" "provider_ok pr b" "claims b \<le> length (op_checks b)"
      "ready_events b = ready_events a" by auto
    then have "\<not> cl_ready (client_of b)" by (simp add: provider_ok_def any.sound_def client_ok_def)
    with provider_step_claims [OF further.hyps(2) b(3)] provider_step_client [OF further.hyps(2) b(2)] b
    show ?case by (simp add: at_most_one_event_def)
  qed simp
  with over closed off show ?thesis by blast
qed

section \<open>Witnesses\<close>

text \<open>A provider that polls: the network is down at first, then a bundle arrives.\<close>

definition polling_connection :: connection_options where
  "polling_connection = default_connection\<lparr>co_mode := PStr (py ''polling'')\<rparr>"

definition sample_key :: pystr where
  "sample_key = py ''k''"

definition sample_provider :: "provider result" where
  "sample_provider = new_provider sample_platform (\<lambda>_. None) (PStr sample_key) None (Some polling_connection) None"

definition later_surroundings :: surroundings where
  "later_surroundings = no_surroundings\<lparr>sw_later_pools := [\<lambda>_. PoolResponse 200 (Inr empty_bundle_bytes)]\<rparr>"

lemma sample_provider_fields:
  obtains p plan t where "sample_provider = Inr p" and "cn_plan (op_client p) = Connect plan"
    and "cn_connection (op_client p) = polling_connection" and "cn_transport (op_client p) = PollingTransport t"
    and "pl_interval t = Finite 300" and "\<not> pl_thread t" and "\<not> pl_fatal t"
proof -
  have plan: "plan_connection (pf_urlparse sample_platform) (PStr sample_key) polling_connection =
      Inr (Connect \<lparr>cp_mode = Polling, cp_server_sdk_key = sample_key, cp_base_url = default_base_url\<rparr>)"
    by (simp add: sample_key_def plan_connection_def polling_connection_def default_connection_def offline_source_of_def
        live_mode_of_def validated_server_sdk_key_def has_content_def str_strip_def is_space_def py_def base_url_of_def)
  have topts: "validated_telemetry default_telemetry = Inr default_telemetry"
    by (simp add: validated_telemetry_def default_telemetry_def min_event_queue_limit_def max_event_queue_limit_def
        not_positive_def)
  have hooks: "\<exists>s. attach_hooks (Some provider_hooks) (new_client_state m t) = Inr s" for m t
    by (simp add: attach_hooks_callable callable_def provider_hooks_def)
  have co: "co_polling_interval polling_connection = None"
    by (simp add: polling_connection_def default_connection_def)
  note defs = sample_provider_def new_provider_def create_wrapped_client_def new_client_with_def option_or_def
  have "\<exists>p. sample_provider = Inr p" using hooks by (simp add: defs Let_def plan topts bindE_Inr_iff)
  then obtain p where p: "sample_provider = Inr p" ..
  show thesis
    by (rule that [OF p])
      (use p in \<open>auto simp: defs Let_def plan topts co bindE_Inr_iff build_transport_def create_transport_def
        new_polling_def resolve_polling_interval_def default_polling_interval_def\<close>)
qed

lemma sample_resolves:
  assumes "config_of c (py ''flag'') = None" and "cl_metadata c = meta"
  shows "\<exists>v s. get_value (\<lambda>_. True) midnight (PStr (py ''flag'')) (PBool True) None c = (Inr v, s)"
proof -
  have "validate_config_key (PStr (py ''flag'')) = Inr ()"
    by (simp add: validate_config_key_def has_content_def str_strip_def is_space_def py_def)
  moreover have "value_of (\<lambda>_. True) b m r (py ''flag'') None (PBool True) None segs = Some (PBool True)" for b m r segs
    by (simp add: value_of_def evaluation_of_def value_id_for_def render_value_def json_string_of_def
        generate_value_id_def bool_text_def utf8_encode_ascii renders_def telemetry_value_of_def bindE_def)
  ultimately have "read_value (\<lambda>_. True) midnight (py ''flag'') (PBool True) None c = Some (PBool True)"
    using assms by (simp add: read_value_eq [where m = ConfigStateMissing] validate_default_def)
  then show ?thesis by (auto simp: read_value_def split: sum.splits) (metis prod.collapse)
qed

theorem provider_ready_once_witness:
  "\<exists>p. sample_provider = Inr p \<and> ready_events (snd (provider_settle p)) \<le> 1"
proof -
  obtain p where p: "sample_provider = Inr p" using sample_provider_fields by blast
  have "provider_run (\<lambda>_. True) p (snd (provider_settle p))"
    by (rule provider_run.further [OF provider_run.start provider_step.settles])
  from provider_ready_once [OF p [unfolded sample_provider_def] this provider_step.settles]
  have "ready_events (snd (provider_settle p)) \<le> length (op_checks (snd (provider_settle p)))" by blast
  moreover have "op_checks p = []" using new_provider_ok [OF p [unfolded sample_provider_def]] by simp
  ultimately have "ready_events (snd (provider_settle p)) \<le> 1" by (auto simp: provider_settle_def split: if_splits)
  with p show ?thesis by blast
qed

theorem provider_shutdown_final_witness:
  "\<exists>p. sample_provider = Inr p \<and> cl_closed (client_of (snd (provider_shutdown False no_network midnight p)))"
proof -
  obtain p where p: "sample_provider = Inr p" using sample_provider_fields by blast
  from provider_shutdown_final [OF p [unfolded sample_provider_def] provider_run.start provider_run.start]
  show ?thesis using p by blast
qed


lemma sample_initialize:
  assumes "sample_provider = Inr p0"
  obtains p1 t where "provider_initialize pr now no_surroundings p0 = (Inl ProviderNotReadyError, p1)"
    and "cn_transport (op_client p1) = PollingTransport t" and "running t"
proof -
  obtain plan t where t: "cn_plan (op_client p0) = Connect plan" "cn_connection (op_client p0) = polling_connection"
    "cn_transport (op_client p0) = PollingTransport t" "pl_interval t = Finite 300" "\<not> pl_thread t" "\<not> pl_fatal t"
    using sample_provider_fields assms by (metis Inr_inject)
  have nr: "\<not> cl_ready (client_of p0)" "\<not> cl_closed (client_of p0)"
    using assms by (auto simp: sample_provider_def new_provider_def create_wrapped_client_def new_client_with_def Let_def
        bindE_Inr_iff dest: attach_hooks_new)
  obtain body where body: "polling_body t = Inr body" using polling_body_ok by blast
  have fetch: "polling_fetch pr no_network s t = (Inl (ConfigDirectorConnectionError None), t)" for s
    using t body by (simp add: polling_fetch_def polling_post_def http_post_def no_network_def is_http_error_def)
  have "initialize pr now (sdk_connect pr no_surroundings) None (op_client p0) =
      (Inr (), (op_client p0)\<lparr>cn_transport := PollingTransport (start_polling t)\<rparr>)"
    using t nr
    by (simp add: initialize_def connect_and_wait_def option_or_def raise_if_closed_def run_connect_def sdk_connect_def
        transport_connect_def connect_polling_def polling_connect_def fetch no_surroundings_def deliver_def map_result_def
        polling_connection_def default_connection_def not_positive_def Let_def)
  then have "provider_connect pr now no_surroundings p0 =
      (Inr (), p0\<lparr>op_client := (op_client p0)\<lparr>cn_transport := PollingTransport (start_polling t)\<rparr>\<rparr>)"
    using new_provider_ok [OF assms [unfolded sample_provider_def], of pr]
    by (simp add: provider_connect_def with_client_def new_calls_def)
  then have "provider_initialize pr now no_surroundings p0 = (Inl ProviderNotReadyError,
      p0\<lparr>op_client := (op_client p0)\<lparr>cn_transport := PollingTransport (start_polling t)\<rparr>,
         op_startup := AWAITING_RECORDED_FAILURE, op_checks := op_checks p0 @ [Watching]\<rparr>)"
    using new_provider_ok [OF assms [unfolded sample_provider_def], of pr] nr
    by (simp add: provider_initialize_def dispatch_all_def provider_settle_def)
  then show thesis by (rule that [where t = "start_polling t"]) (use t in \<open>simp_all add: running_def start_polling_def\<close>)
qed

theorem provider_recovers_witness:
  "\<exists>p0 p1. sample_provider = Inr p0 \<and>
     provider_initialize (\<lambda>_. True) midnight no_surroundings p0 = (Inl ProviderNotReadyError, p1) \<and>
     ready_events (dispatch_all (check_round True 0 (check_round True 0 (with_client (background (\<lambda>_. True) midnight
       (transport_work (\<lambda>_. True) later_surroundings) (op_client p1)) p1)))) = 1"
proof -
  obtain p0 where p0: "sample_provider = Inr p0" using sample_provider_fields by blast
  obtain p1 t where p1: "provider_initialize (\<lambda>_. True) midnight no_surroundings p0 = (Inl ProviderNotReadyError, p1)"
    "cn_transport (op_client p1) = PollingTransport t" "running t"
    using sample_initialize [OF p0] by blast
  let ?c = "background (\<lambda>_. True) midnight (transport_work (\<lambda>_. True) later_surroundings) (op_client p1)"
  obtain b where b: "parse_bundle (\<lambda>_. True) (utf8_decode empty_bundle_bytes) = Inr b" using empty_bundle_parses by blast
  have "fst (poll_tick (\<lambda>_. True) s (\<lambda>_. PoolResponse 200 (Inr empty_bundle_bytes)) t) = Some b" for s
    by (rule good_answer_delivered [OF p1(3) b]) (simp add: empty_bundle_bytes_def max_response_bytes_def)
  then have w: "fst (transport_work (\<lambda>_. True) later_surroundings (cn_transport (op_client p1))) = [b]"
    by (simp add: transport_work_def p1(2) work_polling_def later_surroundings_def split_def Let_def)
  have "\<not> cl_closed (client_of p1)"
    using recovering_initialize [OF p0 [unfolded sample_provider_def] p1(1)] by (simp add: recovering_def)
  then have "cl_ready (cn_state ?c)"
    using bundle_effect(2) w by (simp add: background_def split_def Let_def)
  moreover have "serving_run (\<lambda>_. True) p1 (with_client ?c p1)"
    by (rule serving_run.further [OF serving_run.start serving_step.works])
  ultimately show ?thesis
    using provider_recovers [OF p0 [unfolded sample_provider_def] p1(1)] p0 p1(1) by auto
qed

end
