(* ===== verification/Py_Stats.thy ===== *)
theory Py_Stats
  imports Py_Object
begin

text \<open>
  What the profiling harness uses of Python beyond the SDK: the remaining arithmetic of floats,
  \<open>round\<close> to decimal places, \<open>math.ceil\<close>, \<open>statistics.fmean\<close>, \<open>sorted\<close> on floats and \<open>str.replace\<close>.
\<close>

section \<open>Arithmetic\<close>

fun fl_neg :: "pyfloat \<Rightarrow> pyfloat" where
  "fl_neg (Finite a) = Finite (- a)"
| "fl_neg (Infinite s) = Infinite (\<not> s)"
| "fl_neg NaN = NaN"

definition fl_sub :: "pyfloat \<Rightarrow> pyfloat \<Rightarrow> pyfloat" where
  "fl_sub a b = fl_add a (fl_neg b)"

fun fl_mul :: "pyfloat \<Rightarrow> pyfloat \<Rightarrow> pyfloat" where
  "fl_mul (Finite a) (Finite b) = round_double (a * b)"
| "fl_mul (Infinite s) (Infinite t) = Infinite (s = t)"
| "fl_mul NaN _ = NaN"
| "fl_mul _ NaN = NaN"
| "fl_mul (Infinite s) (Finite b) = (if b = 0 then NaN else Infinite (s = (0 < b)))"
| "fl_mul (Finite a) (Infinite t) = (if a = 0 then NaN else Infinite (t = (0 < a)))"

text \<open>\<open>a / b\<close>: a divisor of zero raises.\<close>

fun fl_div :: "pyfloat \<Rightarrow> pyfloat \<Rightarrow> pyfloat result" where
  "fl_div (Finite a) (Finite b) = (if b = 0 then Inl ZeroDivisionError else Inr (fl_div_finite a b))"
| "fl_div NaN (Finite b) = (if b = 0 then Inl ZeroDivisionError else Inr NaN)"
| "fl_div (Infinite s) (Finite b) = (if b = 0 then Inl ZeroDivisionError else Inr (Infinite (s = (0 < b))))"
| "fl_div (Finite a) (Infinite t) = Inr (Finite 0)"
| "fl_div _ _ = Inr NaN"

definition fl_leq :: "pyfloat \<Rightarrow> pyfloat \<Rightarrow> bool" where
  "fl_leq a b \<longleftrightarrow> fl_less a b \<or> (a = b \<and> a \<noteq> NaN)"

text \<open>\<open>a * n\<close> and \<open>a / n\<close> for an integer: it is converted first.\<close>

definition fl_mul_int :: "pyfloat \<Rightarrow> int \<Rightarrow> pyfloat result" where
  "fl_mul_int a n = bindE (float_of_int n) (\<lambda>x. Inr (fl_mul a x))"

definition fl_div_int :: "pyfloat \<Rightarrow> int \<Rightarrow> pyfloat result" where
  "fl_div_int a n = bindE (float_of_int n) (\<lambda>x. fl_div a x)"

text \<open>\<open>math.ceil\<close>\<close>

definition fl_ceil :: "pyfloat \<Rightarrow> int result" where
  "fl_ceil f = (case f of Finite x \<Rightarrow> Inr \<lceil>x\<rceil> | Infinite _ \<Rightarrow> Inl OverflowError | NaN \<Rightarrow> Inl ValueError)"

text \<open>\<open>round(f, places)\<close>: the exact value is rounded to decimal places, the result to a float.\<close>

definition fl_round :: "pyfloat \<Rightarrow> nat \<Rightarrow> pyfloat result" where
  "fl_round f places =
     (case f of
        Finite x \<Rightarrow>
          (case round_double (of_int (round_half_even (x * 10 ^ places)) / 10 ^ places) of
             Finite y \<Rightarrow> Inr (Finite y)
           | _ \<Rightarrow> Inl OverflowError)
      | _ \<Rightarrow> Inr f)"

section \<open>Statistics and sorting\<close>

text \<open>
  \<open>statistics.fmean\<close>: the exact sum of the data rounded once, divided by their number; with data that
  are not finite, the sum of those. No caller passes an empty list. (\<open>math.fsum\<close> also raises when a
  partial sum overflows.)
\<close>

definition fl_fsum :: "pyfloat list \<Rightarrow> pyfloat result" where
  "fl_fsum xs =
     (if list_all fl_is_finite xs then
        (case round_double (sum_list (map (\<lambda>f. case f of Finite x \<Rightarrow> x | _ \<Rightarrow> 0) xs)) of
           Finite y \<Rightarrow> Inr (Finite y)
         | _ \<Rightarrow> Inl OverflowError)
      else if NaN \<in> set xs then Inr NaN
      else if Infinite True \<in> set xs \<and> Infinite False \<in> set xs then Inl ValueError
      else Inr (Infinite (Infinite True \<in> set xs)))"

definition fl_fmean :: "pyfloat list \<Rightarrow> pyfloat result" where
  "fl_fmean xs = bindE (fl_fsum xs) (\<lambda>total. fl_div_int total (int (length xs)))"

text \<open>\<open>sorted(xs)\<close>, for floats without a NaN: stable insertion by \<open><\<close>.\<close>

fun fl_insert :: "pyfloat \<Rightarrow> pyfloat list \<Rightarrow> pyfloat list" where
  "fl_insert x [] = [x]"
| "fl_insert x (y # ys) = (if fl_less y x then y # fl_insert x ys else x # y # ys)"

definition fl_sort :: "pyfloat list \<Rightarrow> pyfloat list" where
  "fl_sort xs = foldr fl_insert xs []"

definition fl_max :: "pyfloat list \<Rightarrow> pyfloat \<Rightarrow> pyfloat" where
  "fl_max xs default_value =
     (case xs of [] \<Rightarrow> default_value | x # ys \<Rightarrow> foldl (\<lambda>m y. if fl_less m y then y else m) x ys)"

definition int_max :: "int list \<Rightarrow> int" where
  "int_max xs = (case xs of [] \<Rightarrow> 0 | x # ys \<Rightarrow> foldl max x ys)"

text \<open>\<open>s.replace(pattern, r)\<close>, from left to right, for a pattern that is not empty.\<close>

function str_replace :: "pystr \<Rightarrow> pystr \<Rightarrow> pystr \<Rightarrow> pystr" where
  "str_replace pattern r [] = []"
| "str_replace pattern r (c # s) =
     (if pattern \<noteq> [] \<and> prefix pattern (c # s) then r @ str_replace pattern r (drop (length pattern) (c # s))
      else c # str_replace pattern r s)"
  by pat_completeness auto
termination
  by (relation "measure (\<lambda>(p, r, s). length s)") (auto simp: Suc_diff_le neq_Nil_conv)

section \<open>Facts\<close>

lemma fl_insert_set [simp]: "set (fl_insert x ys) = insert x (set ys)"
  by (induction ys) auto

lemma length_fl_insert [simp]: "length (fl_insert x ys) = Suc (length ys)"
  by (induction ys) auto

lemma fl_sort_set [simp]: "set (fl_sort xs) = set xs"
  unfolding fl_sort_def by (induction xs) auto

lemma length_fl_sort [simp]: "length (fl_sort xs) = length xs"
  unfolding fl_sort_def by (induction xs) auto

lemma fl_leq_trans: "fl_leq a b \<Longrightarrow> fl_leq b c \<Longrightarrow> fl_leq a c"
  by (cases a; cases b; cases c) (auto simp: fl_leq_def)

lemma fl_leq_total: "a \<noteq> NaN \<Longrightarrow> b \<noteq> NaN \<Longrightarrow> fl_leq a b \<or> fl_less b a"
  by (cases a; cases b) (auto simp: fl_leq_def)

lemma fl_insert_sorted:
  assumes "sorted_wrt fl_leq ys" and "x \<noteq> NaN" and "NaN \<notin> set ys"
  shows "sorted_wrt fl_leq (fl_insert x ys)"
  using assms(1,3)
proof (induction ys)
  case (Cons y ys)
  show ?case
  proof (cases "fl_less y x")
    case True
    then show ?thesis using Cons by (auto simp: fl_leq_def)
  next
    case False
    then have "fl_leq x y" using fl_leq_total [of x y] assms(2) Cons.prems by auto
    then show ?thesis using Cons.prems False by (auto intro: fl_leq_trans)
  qed
qed simp

lemma fl_sort_sorted: "NaN \<notin> set xs \<Longrightarrow> sorted_wrt fl_leq (fl_sort xs)"
proof (induction xs)
  case (Cons x xs)
  moreover have "fl_sort (x # xs) = fl_insert x (fl_sort xs)" by (simp add: fl_sort_def)
  ultimately show ?case by (auto intro: fl_insert_sorted)
qed (simp add: fl_sort_def)

text \<open>Rounding does not go below a float that the exact value reaches.\<close>

lemma round_double_ge_double:
  assumes "is_double d" and "0 < d" and "d \<le> x" and "round_double x = Finite y"
  shows "d \<le> y"
proof -
  have x: "0 < x" using assms by simp
  let ?q = "quantum_exp x"
  have lx: "2 powi ilog2 x \<le> x" using ilog2_bounds(1) [OF x] .
  show ?thesis
  proof (cases "quantum_exp d = ?q")
    case True
    then obtain n where "d = of_int n * 2 powi ?q"
      using assms(1,2) by (auto simp: is_double_def field_simps elim!: Ints_cases)
    then show ?thesis using round_double_ge [OF assms(4), of n] assms(3) x by simp
  next
    case False
    have "ilog2 d \<le> ilog2 x" using ilog2_mono [OF assms(2,3)] .
    with False have q: "?q \<le> ilog2 x" "ilog2 d < ilog2 x" using assms(2) x by (auto simp: quantum_exp_def max_def split: if_splits)
    define n where "n = (2::int) ^ nat (ilog2 x - ?q)"
    have "of_int n = (2 powi (ilog2 x - ?q) :: rat)" using q(1) by (simp add: n_def power_int_def)
    then have n: "of_int n * 2 powi ?q = (2 powi ilog2 x :: rat)" by (simp add: powi_2_diff)
    have "2 powi ilog2 x \<le> y" using round_double_ge [OF assms(4), of n] n lx x by simp
    moreover have "d < 2 powi (ilog2 d + 1)" using ilog2_bounds(2) [OF assms(2)] .
    moreover have "(2 :: rat) powi (ilog2 d + 1) \<le> 2 powi ilog2 x" using q(2) by (intro power_int_increasing) auto
    ultimately show ?thesis by linarith
  qed
qed

end
