(* ===== verification/Profiling_Load.thy ===== *)
theory Profiling_Load
  imports Py_Stats
begin

text \<open>
  The load generator of the profiling harness: \<open>profiling/load.py\<close>. \<open>httpx\<close>, the clock and the event
  loop are data: each round of the pacing loop reads the clock and, if it sleeps, sees some of the
  requests in flight end. A task runs only while the loop awaits. Progress lines are not modelled.
\<close>

section \<open>Requests\<close>

definition context_variants :: "(pystr, pystr) dict list" where
  "context_variants =
     [[(py ''id'', py ''user-{n}''), (py ''plan'', py ''pro''), (py ''region'', py ''us-east''), (py ''role'', py ''writer'')],
      [(py ''id'', py ''user-{n}''), (py ''name'', py ''Ada Lovelace''), (py ''plan'', py ''free''),
       (py ''region'', py ''eu-west'')],
      [(py ''id'', py ''user-{n}''), (py ''plan'', py ''enterprise''), (py ''region'', py ''ap-south''),
       (py ''beta'', py ''true''), (py ''seats'', py ''250'')],
      [(py ''id'', py ''user-{n}''), (py ''name'', py ''Grace Hopper''), (py ''role'', py ''admin'')],
      [(py ''id'', py ''user-{n}''), (py ''plan'', py ''free''), (py ''anonymous'', py ''true'')],
      [(py ''anonymous'', py ''true'')],
      [(py ''id'', py ''service-{n}''), (py ''plan'', py ''pro''), (py ''region'', py ''us-east''),
       (py ''internal'', py ''true'')],
      [(py ''id'', py ''user-{n}'')]]"

definition build_params :: "int \<Rightarrow> int \<Rightarrow> ((pystr, pystr) dict \<times> int) result" where
  "build_params seq distinct_users =
     (let variants = int (length context_variants); variant = seq mod variants
      in if distinct_users = 0 then Inl ZeroDivisionError
         else bindE (str_of_int ((seq div variants) mod distinct_users)) (\<lambda>user.
           Inr (map (\<lambda>(key, value). (key, str_replace (py ''{n}'') user value)) (context_variants ! nat variant),
                variant)))"

record load_result =
  lr_seq :: int
  lr_t_seconds :: pyfloat
  lr_latency_ms :: pyfloat
  lr_status :: int
  lr_variant :: int
  lr_error :: pystr

record load_summary =
  ls_sent :: int
  ls_ok :: int
  ls_failed :: int
  ls_skipped :: int
  ls_elapsed :: pyfloat

definition actual_rps :: "load_summary \<Rightarrow> pyfloat result" where
  "actual_rps s =
     (if fl_less (Finite 0) (ls_elapsed s)
      then bindE (float_of_int (ls_sent s)) (\<lambda>sent. fl_div sent (ls_elapsed s)) else Inr (Finite 0))"

text \<open>What comes of a request: no response, a response whose body cannot be read, or a response.\<close>

datatype exchange = Unanswered pystr | Unread int pystr | Answered int

definition send :: "int \<Rightarrow> int \<Rightarrow> pyfloat \<Rightarrow> pyfloat \<Rightarrow> exchange \<Rightarrow> pyfloat \<Rightarrow> load_result result" where
  "send distinct_users seq started_at sent_at x ended_at =
     bindE (build_params seq distinct_users) (\<lambda>(params, variant).
       let (status, error) =
             (case x of Unanswered e \<Rightarrow> (0, e) | Unread status e \<Rightarrow> (status, e) | Answered status \<Rightarrow> (status, []))
       in Inr \<lparr>lr_seq = seq, lr_t_seconds = fl_sub sent_at started_at,
               lr_latency_ms = fl_mul (fl_sub ended_at sent_at) (Finite 1000),
               lr_status = status, lr_variant = variant, lr_error = error\<rparr>)"

section \<open>Pacing\<close>

record task_end =
  te_seq :: int
  te_sent_at :: pyfloat
  te_exchange :: exchange
  te_ended_at :: pyfloat

record load_round =
  rd_clock :: pyfloat
  rd_ends :: "task_end list"
  rd_skip_clock :: pyfloat

record load_state =
  ld_results :: "load_result list"
  ld_in_flight :: "int list"
  ld_skipped :: int

text \<open>A task that ends leaves the flight; one that raises (\<open>distinct_users\<close> is zero) leaves no result.\<close>

definition task_done :: "int \<Rightarrow> pyfloat \<Rightarrow> task_end \<Rightarrow> load_state \<Rightarrow> load_state" where
  "task_done distinct_users started_at e st =
     (if te_seq e \<in> set (ld_in_flight st) then
        st\<lparr>ld_in_flight := remove1 (te_seq e) (ld_in_flight st),
           ld_results :=
             (case send distinct_users (te_seq e) started_at (te_sent_at e) (te_exchange e) (te_ended_at e) of
                Inl _ \<Rightarrow> ld_results st | Inr r \<Rightarrow> ld_results st @ [r])\<rparr>
      else st)"

definition skip_text :: pystr where
  "skip_text = py ''skipped: max-in-flight reached''"

definition skip_mark :: pystr where
  "skip_mark = py ''skipped''"

definition is_skip :: "load_result \<Rightarrow> bool" where
  "is_skip r \<longleftrightarrow> str_startswith (lr_error r) skip_mark"

definition skip_request :: "pyfloat \<Rightarrow> int \<Rightarrow> pyfloat \<Rightarrow> load_state \<Rightarrow> load_state" where
  "skip_request started_at seq clock st =
     st\<lparr>ld_skipped := ld_skipped st + 1,
        ld_results := ld_results st @
          [\<lparr>lr_seq = seq, lr_t_seconds = fl_sub clock started_at, lr_latency_ms = Finite 0, lr_status = 0,
            lr_variant = seq mod int (length context_variants), lr_error = skip_text\<rparr>]\<rparr>"

text \<open>
  The loop over \<open>itertools.count\<close>, and whether it has ended: it has not when the rounds are used up.
\<close>

fun load_loop ::
  "pyfloat \<Rightarrow> pyfloat \<Rightarrow> int \<Rightarrow> int \<Rightarrow> pyfloat \<Rightarrow> int \<Rightarrow> load_round list \<Rightarrow> load_state \<Rightarrow> (bool \<times> load_state) result" where
  "load_loop interval duration max_in_flight users started_at seq [] st = Inr (False, st)"
| "load_loop interval duration max_in_flight users started_at seq (r # rs) st =
     bindE (fl_mul_int interval seq) (\<lambda>target.
       if fl_leq duration target then Inr (True, st)
       else
         let delay = fl_sub target (fl_sub (rd_clock r) started_at);
             st1 = (if fl_less (Finite 0) delay then fold (task_done users started_at) (rd_ends r) st else st)
         in if max_in_flight \<le> int (length (ld_in_flight st1))
            then load_loop interval duration max_in_flight users started_at (seq + 1) rs
                   (skip_request started_at seq (rd_skip_clock r) st1)
            else load_loop interval duration max_in_flight users started_at (seq + 1) rs
                   (st1\<lparr>ld_in_flight := ld_in_flight st1 @ [seq]\<rparr>))"

text \<open>
  \<open>ends\<close>: what ends during the last wait. Without an answer the loop is still sending.
\<close>

definition generate ::
  "pyfloat \<Rightarrow> pyfloat \<Rightarrow> int \<Rightarrow> int \<Rightarrow> pyfloat \<Rightarrow> load_round list \<Rightarrow> task_end list \<Rightarrow> pyfloat \<Rightarrow>
     (load_result list \<times> load_summary) option result" where
  "generate rps duration users max_in_flight started_at rounds ends clock =
     bindE (fl_div (Finite 1) rps) (\<lambda>interval.
       bindE (load_loop interval duration max_in_flight users started_at 0 rounds
                \<lparr>ld_results = [], ld_in_flight = [], ld_skipped = 0\<rparr>) (\<lambda>(ended, st).
         if \<not> ended then Inr None
         else
           let st1 = fold (task_done users started_at) ends st;
               results = sort_key lr_seq (ld_results st1);
               ok = int (length (filter (\<lambda>r. lr_status r = 200) results));
               failed = int (length (filter (\<lambda>r. lr_status r \<noteq> 200 \<and> \<not> is_skip r) results))
           in Inr (Some (results,
                \<lparr>ls_sent = int (length results) - ld_skipped st1, ls_ok = ok, ls_failed = failed,
                 ls_skipped = ld_skipped st1, ls_elapsed = fl_sub clock started_at\<rparr>))))"

definition resolve_max_in_flight :: "int \<Rightarrow> pyfloat \<Rightarrow> int result" where
  "resolve_max_in_flight requested rps =
     (if 0 < requested then Inr requested
      else bindE (int_of_float (fl_mul rps (Finite 4))) (\<lambda>n. Inr (max 50 n)))"

section \<open>What the loop keeps\<close>

text \<open>
  Up to a sequence number every request was started once: it is in flight, it was recorded, or it was
  skipped; skipped ones are counted, and no more than the limit are in flight.
\<close>

definition load_ok :: "int \<Rightarrow> int \<Rightarrow> load_state \<Rightarrow> bool" where
  "load_ok max_in_flight seq st \<longleftrightarrow>
     distinct (map lr_seq (ld_results st) @ ld_in_flight st) \<and>
     set (map lr_seq (ld_results st) @ ld_in_flight st) = {0..<seq} \<and>
     ld_skipped st = int (length (filter is_skip (ld_results st))) \<and>
     list_all (\<lambda>r. is_skip r \<longrightarrow> lr_status r = 0) (ld_results st) \<and>
     int (length (ld_in_flight st)) \<le> max 0 max_in_flight"

text \<open>No exception of a request has a name that looks like a skip.\<close>

definition plain_end :: "task_end \<Rightarrow> bool" where
  "plain_end e \<longleftrightarrow>
     (case te_exchange e of
        Unanswered t \<Rightarrow> \<not> str_startswith t skip_mark
      | Unread _ t \<Rightarrow> \<not> str_startswith t skip_mark
      | Answered _ \<Rightarrow> True)"

lemma skip_text_skips [simp]: "str_startswith skip_text skip_mark" "\<not> str_startswith [] skip_mark"
  by (simp_all add: skip_text_def skip_mark_def str_startswith_def py_def)

lemma send_records:
  assumes "plain_end e" and "send users (te_seq e) started_at (te_sent_at e) (te_exchange e) (te_ended_at e) = Inr r"
  shows "lr_seq r = te_seq e \<and> \<not> is_skip r"
  using assms by (auto simp: send_def plain_end_def is_skip_def bindE_Inr_iff split: exchange.splits)

lemma short_numbers: "n < 2 ^ 53 \<Longrightarrow> length (nat_str n) < 18"
proof (rule ccontr)
  assume n: "n < 2 ^ 53" "\<not> length (nat_str n) < 18"
  then have "(10 :: nat) ^ 18 \<le> 10 ^ length (nat_str n)" by (intro power_increasing) auto
  moreover have "0 < n"
  proof (rule ccontr)
    assume "\<not> 0 < n"
    then show False using n(2) by (simp add: nat_str.simps)
  qed
  ultimately show False using nat_str_lower [of n] n(1) by simp
qed

lemma send_total:
  assumes "0 < users" and "0 \<le> seq" and "seq < 2 ^ 53"
  shows "\<exists>r. send users seq a b x c = Inr r"
proof -
  let ?u = "(seq div 8) mod users"
  have "0 \<le> ?u" "?u \<le> seq div 8" using assms by (simp_all add: zmod_le_nonneg_dividend)
  then have "nat \<bar>?u\<bar> < 2 ^ 53" using assms(3) by simp
  then have "str_of_int ?u = Inr (int_str ?u)"
    using short_numbers by (fastforce simp: str_of_int_def int_max_str_digits_def)
  then show ?thesis using assms(1)
    by (simp add: send_def build_params_def context_variants_def Let_def split: prod.splits)
qed

lemma load_ok_done:
  assumes "load_ok m seq st" and "plain_end e" and "0 < users" and "seq \<le> 2 ^ 53"
  shows "load_ok m seq (task_done users started_at e st)"
proof (cases "te_seq e \<in> set (ld_in_flight st)")
  case True
  then have "te_seq e \<in> {0..<seq}" using assms(1) by (auto simp: load_ok_def)
  then obtain r where r: "send users (te_seq e) started_at (te_sent_at e) (te_exchange e) (te_ended_at e) = Inr r"
    using send_total [of users "te_seq e"] assms(3,4) by fastforce
  from send_records [OF assms(2) r] True assms(1) show ?thesis
    by (auto simp: task_done_def r load_ok_def length_remove1 distinct_remove1 set_remove1_eq)
qed (use assms in \<open>simp add: task_done_def\<close>)

lemma load_ok_ends:
  assumes "load_ok m seq st" and "list_all plain_end es" and "0 < users" and "seq \<le> 2 ^ 53"
  shows "load_ok m seq (fold (task_done users started_at) es st)"
  using assms(1,2) by (induction es arbitrary: st) (auto intro: load_ok_done [OF _ _ assms(3,4)])

lemma load_ok_skip:
  assumes "load_ok m seq st" and "0 \<le> seq"
  shows "load_ok m (seq + 1) (skip_request started_at seq clock st)"
proof -
  have "{0..<seq + 1} = insert seq {0..<seq}" using assms(2) by auto
  moreover have "seq \<notin> {0..<seq}" by simp
  ultimately show ?thesis using assms(1)
    by (auto simp: load_ok_def skip_request_def is_skip_def)
qed

lemma load_ok_start:
  assumes "load_ok m seq st" and "0 \<le> seq" and "\<not> m \<le> int (length (ld_in_flight st))"
  shows "load_ok m (seq + 1) (st\<lparr>ld_in_flight := ld_in_flight st @ [seq]\<rparr>)"
proof -
  have "{0..<seq + 1} = insert seq {0..<seq}" using assms(2) by auto
  moreover have "seq \<notin> {0..<seq}" by simp
  ultimately show ?thesis using assms(1,3) by (auto simp: load_ok_def)
qed

lemma load_ok_loop:
  assumes "load_ok m seq st" and "list_all (\<lambda>r. list_all plain_end (rd_ends r)) rs" and "0 < users" and "0 \<le> seq"
    and "seq + int (length rs) \<le> 2 ^ 53"
    and "load_loop interval duration m users started_at seq rs st = Inr (ended, st')"
  shows "\<exists>n. load_ok m n st' \<and> 0 \<le> n \<and> n \<le> seq + int (length rs)"
  using assms(1,2,4-6)
proof (induction rs arbitrary: seq st)
  case (Cons r rs)
  obtain target where target: "fl_mul_int interval seq = Inr target"
    using Cons.prems(5) by (auto simp: bindE_Inr_iff)
  show ?case
  proof (cases "fl_leq duration target")
    case True
    then show ?thesis using Cons.prems target by (intro exI [of _ seq]) auto
  next
    case False
    let ?st = "if fl_less (Finite 0) (fl_sub target (fl_sub (rd_clock r) started_at))
      then fold (task_done users started_at) (rd_ends r) st else st"
    have ok: "load_ok m seq ?st"
      using load_ok_ends [OF Cons.prems(1) _ assms(3)] Cons.prems(1,2,4) by auto
    show ?thesis
    proof (cases "m \<le> int (length (ld_in_flight ?st))")
      case True
      then have "load_loop interval duration m users started_at (seq + 1) rs
          (skip_request started_at seq (rd_skip_clock r) ?st) = Inr (ended, st')"
        using Cons.prems(5) target False by (simp add: Let_def)
      from Cons.IH [OF load_ok_skip [OF ok] _ _ _ this] Cons.prems show ?thesis by auto
    next
      case start: False
      then have "load_loop interval duration m users started_at (seq + 1) rs
          (?st\<lparr>ld_in_flight := ld_in_flight ?st @ [seq]\<rparr>) = Inr (ended, st')"
        using Cons.prems(5) target False by (simp add: Let_def)
      from Cons.IH [OF load_ok_start [OF ok _ start] _ _ _ this] Cons.prems show ?thesis by auto
    qed
  qed
qed auto

lemma counts_split:
  assumes "list_all (\<lambda>r. is_skip r \<longrightarrow> lr_status r = 0) rs"
  shows "length (filter (\<lambda>r. lr_status r = 200) rs) + length (filter (\<lambda>r. lr_status r \<noteq> 200 \<and> \<not> is_skip r) rs) +
    length (filter is_skip rs) = length rs"
  using assms by (induction rs) auto

lemma sorted_distinct_less: "sorted xs \<Longrightarrow> distinct xs \<Longrightarrow> sorted_wrt (<) xs" for xs :: "int list"
  by (simp add: strict_sorted_iff)

section \<open>Properties\<close>

text \<open>
  The report of a run adds up: no request is recorded twice, the results are in the order of the
  requests, what was sent is what returned 200 and what failed, with the skipped ones it makes all
  results, and at most as many requests as may be in flight have no result.
\<close>

theorem load_accounts:
  assumes "generate rps duration users m started_at rounds ends clock = Inr (Some (rs, sm))"
    and "list_all (\<lambda>r. list_all plain_end (rd_ends r)) rounds" and "list_all plain_end ends"
    and "0 < users" and "int (length rounds) \<le> 2 ^ 53"
  shows "sorted_wrt (<) (map lr_seq rs)" and "ls_sent sm = ls_ok sm + ls_failed sm"
    and "ls_sent sm + ls_skipped sm = int (length rs)"
    and "\<exists>n \<le> int (length rounds). set (map lr_seq rs) \<subseteq> {0..<n} \<and> n - int (length rs) \<le> max 0 m"
proof -
  obtain interval st where l: "load_loop interval duration m users started_at 0 rounds
      \<lparr>ld_results = [], ld_in_flight = [], ld_skipped = 0\<rparr> = Inr (True, st)"
    and rs: "rs = sort_key lr_seq (ld_results (fold (task_done users started_at) ends st))"
    and sm: "ls_sent sm = int (length rs) - ld_skipped (fold (task_done users started_at) ends st)"
      "ls_ok sm = int (length (filter (\<lambda>r. lr_status r = 200) rs))"
      "ls_failed sm = int (length (filter (\<lambda>r. lr_status r \<noteq> 200 \<and> \<not> is_skip r) rs))"
      "ls_skipped sm = ld_skipped (fold (task_done users started_at) ends st)"
    using assms(1) by (auto simp: generate_def bindE_Inr_iff Let_def split: if_splits)
  have "load_ok m 0 \<lparr>ld_results = [], ld_in_flight = [], ld_skipped = 0\<rparr>" by (simp add: load_ok_def)
  from load_ok_loop [OF this assms(2,4) _ _ l] assms(5) obtain n where
    n: "load_ok m n st" "0 \<le> n" "n \<le> int (length rounds)" by auto
  define t where "t = fold (task_done users started_at) ends st"
  have t: "load_ok m n t" using load_ok_ends [OF n(1) assms(3,4)] n(3) assms(5) by (simp add: t_def)
  have "distinct (map lr_seq rs)" using t by (simp add: rs load_ok_def t_def [symmetric] distinct_map)
  then show "sorted_wrt (<) (map lr_seq rs)" by (intro sorted_distinct_less) (simp add: rs)
  have skips: "ld_skipped t = int (length (filter is_skip rs))" "list_all (\<lambda>r. is_skip r \<longrightarrow> lr_status r = 0) rs"
    using t by (simp_all add: load_ok_def rs t_def [symmetric] filter_sort list_all_iff)
  with counts_split [OF skips(2)] show "ls_sent sm = ls_ok sm + ls_failed sm"
    by (simp add: sm t_def [symmetric])
  show "ls_sent sm + ls_skipped sm = int (length rs)" by (simp add: sm)
  have "card (set (map lr_seq (ld_results t) @ ld_in_flight t)) = length (map lr_seq (ld_results t) @ ld_in_flight t)"
    using t by (intro distinct_card) (simp add: load_ok_def)
  then have "nat n = length rs + length (ld_in_flight t)"
    using t by (simp add: load_ok_def rs t_def [symmetric])
  moreover have "set (map lr_seq rs) \<subseteq> {0..<n}" using t by (auto simp: load_ok_def rs t_def [symmetric])
  ultimately show "\<exists>n \<le> int (length rounds). set (map lr_seq rs) \<subseteq> {0..<n} \<and> n - int (length rs) \<le> max 0 m"
    using t n(2,3) by (intro exI [of _ n]) (auto simp: load_ok_def)
qed

text \<open>
  Pacing ends: with a rate of requests per second, the loop is over when the duration is reached,
  however slow the application is and whatever the clock says.
\<close>

theorem load_ends:
  assumes "fl_div (Finite 1) rps = Inr (Finite interval)" and "0 < interval"
    and "is_double d" and "0 < d" and "d \<le> interval * of_nat n" and "n < length rounds" and "length rounds < 2 ^ 53"
  shows "\<exists>answer. generate rps (Finite d) users m started_at rounds ends clock = Inr (Some answer)"
proof -
  have "\<exists>st'. load_loop (Finite interval) (Finite d) m users started_at (int k) rs st = Inr (True, st')"
    if "n < k + length rs" "k \<le> n" "k + length rs < 2 ^ 53" for k rs st
    using that
  proof (induction rs arbitrary: k st)
    case (Cons r rs)
    have k: "float_of_int (int k) = Inr (Finite (of_nat k))"
      using Cons.prems(3) round_double_double [OF is_double_int, of "int k"] by (simp add: float_of_int_def)
    show ?case
    proof (cases "fl_leq (Finite d) (fl_mul (Finite interval) (Finite (of_nat k)))")
      case True
      then show ?thesis by (simp add: fl_mul_int_def k)
    next
      case False
      have "k < n"
      proof (rule ccontr)
        assume "\<not> k < n"
        with Cons.prems(2) have "k = n" by simp
        have "fl_leq (Finite d) (round_double (interval * of_nat k))"
        proof (cases "round_double (interval * of_nat k)")
          case (Finite y)
          then have "d \<le> y" using round_double_ge_double [OF assms(3,4)] assms(5) \<open>k = n\<close> by simp
          then show ?thesis by (auto simp: Finite fl_leq_def)
        next
          case (Infinite s)
          then have "s" using assms(2,4,5) \<open>k = n\<close>
            by (auto simp: round_double_def Let_def split: if_splits)
          then show ?thesis by (simp add: Infinite fl_leq_def)
        next
          case NaN
          then show ?thesis by (simp add: round_double_def Let_def split: if_splits)
        qed
        with False show False by simp
      qed
      with Cons.IH [of "Suc k"] Cons.prems False show ?thesis
        by (simp add: fl_mul_int_def k Let_def add.commute)
    qed
  qed simp
  from this [of 0 rounds] assms(6,7) obtain st where
    "load_loop (Finite interval) (Finite d) m users started_at 0 rounds
      \<lparr>ld_results = [], ld_in_flight = [], ld_skipped = 0\<rparr> = Inr (True, st)" by auto
  then show ?thesis using assms(1) by (simp add: generate_def Let_def)
qed

end
