(* ===== verification/Profiling_Report.thy ===== *)
theory Profiling_Report
  imports Py_Stats
begin

text \<open>
  The report of the profiling harness: the computations of \<open>profiling/report.py\<close>, from the rows of its
  CSV files and the document of the run to the metrics of each second and the summary. Reading and
  writing files and the layout of the page are not modelled. A row is a dictionary of texts, as
  \<open>csv.DictReader\<close> gives it for complete lines.
\<close>

type_synonym csv_row = "(pystr, pystr) dict"

definition bytes_per_mb :: int where
  "bytes_per_mb = 1024 * 1024"

definition csv_text :: "csv_row \<Rightarrow> pystr \<Rightarrow> pystr result" where
  "csv_text row k = (case dict_get row k of Some t \<Rightarrow> Inr t | None \<Rightarrow> Inl KeyError)"

definition csv_float :: "csv_row \<Rightarrow> pystr \<Rightarrow> pyfloat result" where
  "csv_float row k = bindE (csv_text row k) float_of_text"

text \<open>\<open>int(s)\<close>, with the spaces, underscores and digits that \<open>float(s)\<close> accepts too.\<close>

definition int_of_text :: "pystr \<Rightarrow> int result" where
  "int_of_text s =
     (case drop_underscores 0 (dropWhile is_ascii_space (rev (dropWhile is_ascii_space (rev (map ascii_char s))))) of
        None \<Rightarrow> Inl ValueError
      | Some u \<Rightarrow> int_of_str u)"

definition csv_int :: "csv_row \<Rightarrow> pystr \<Rightarrow> int result" where
  "csv_int row k = bindE (csv_text row k) int_of_text"

section \<open>Windows\<close>

record window =
  wd_name :: pystr
  wd_start :: pyfloat
  wd_end :: pyfloat

definition window_duration :: "window \<Rightarrow> pyfloat" where
  "window_duration w = fl_sub (wd_end w) (wd_start w)"

definition window_contains :: "window \<Rightarrow> pyfloat \<Rightarrow> bool" where
  "window_contains w t \<longleftrightarrow> fl_leq (wd_start w) t \<and> fl_less t (wd_end w)"

definition percentile :: "pyfloat list \<Rightarrow> pyfloat \<Rightarrow> pyfloat result" where
  "percentile sorted_values fraction =
     (if sorted_values = [] then Inr (Finite 0)
      else bindE (fl_mul_int fraction (int (length sorted_values))) (\<lambda>rank.
        bindE (fl_ceil rank) (\<lambda>c.
          Inr (sorted_values ! nat (max 0 (min (int (length sorted_values) - 1) (c - 1)))))))"

definition section_of :: "pyval \<Rightarrow> pystr \<Rightarrow> pyval result" where
  "section_of mapping key =
     bindE (get_attr mapping key) (\<lambda>v. Inr (case v of PDict d \<Rightarrow> v | _ \<Rightarrow> PDict []))"

definition load_window :: "printable \<Rightarrow> pyval \<Rightarrow> window result" where
  "load_window pr phase =
     bindE (bindE (get_item phase (py ''name'')) (py_str pr)) (\<lambda>name.
       bindE (bindE (get_item phase (py ''start'')) py_float) (\<lambda>start.
         bindE (bindE (get_item phase (py ''end'')) py_float) (\<lambda>finish.
           Inr \<lparr>wd_name = name, wd_start = start, wd_end = finish\<rparr>)))"

definition load_windows :: "printable \<Rightarrow> pyval \<Rightarrow> window list result" where
  "load_windows pr run =
     bindE (get_attr run (py ''phases'')) (\<lambda>phases.
       case phases of
         PList ps \<Rightarrow> mapE (load_window pr) (filter (\<lambda>p. case p of PDict d \<Rightarrow> True | _ \<Rightarrow> False) ps)
       | _ \<Rightarrow> Inr [])"

definition window_named :: "window list \<Rightarrow> pystr \<Rightarrow> window option" where
  "window_named ws name = find (\<lambda>w. wd_name w = name) ws"

definition phase_at :: "window list \<Rightarrow> pyfloat \<Rightarrow> pystr" where
  "phase_at ws t = (case find (\<lambda>w. window_contains w t) ws of Some w \<Rightarrow> wd_name w | None \<Rightarrow> py ''idle'')"

section \<open>Metrics of each second\<close>

record metrics_row =
  mr_t_seconds :: int
  mr_phase :: pystr
  mr_cpu_percent :: pyfloat
  mr_cpu_percent_of_machine :: pyfloat
  mr_rss_mb :: pyfloat
  mr_rss_delta_mb :: pyfloat
  mr_threads :: int
  mr_open_files :: int
  mr_connections :: int
  mr_requests :: nat
  mr_ok :: nat
  mr_errors :: nat
  mr_skipped :: nat
  mr_rps_actual :: nat
  mr_latency_p50_ms :: pyfloat
  mr_latency_p95_ms :: pyfloat
  mr_latency_p99_ms :: pyfloat
  mr_latency_max_ms :: pyfloat

text \<open>A list comprehension with a condition that may raise.\<close>

fun filterE :: "('a \<Rightarrow> bool result) \<Rightarrow> 'a list \<Rightarrow> 'a list result" where
  "filterE p [] = Inr []"
| "filterE p (x # xs) = bindE (p x) (\<lambda>b. bindE (filterE p xs) (\<lambda>ys. Inr (if b then x # ys else ys)))"

definition call_skipped :: "csv_row \<Rightarrow> bool result" where
  "call_skipped call = bindE (csv_text call (py ''error'')) (\<lambda>e. Inr (str_startswith e (py ''skipped'')))"

definition call_ok :: "csv_row \<Rightarrow> bool result" where
  "call_ok call = bindE (csv_text call (py ''status'')) (\<lambda>s. Inr (s = py ''200''))"

text \<open>The requests that were attempted, those that returned 200, and the sorted latencies of these.\<close>

definition attempted_calls :: "csv_row list \<Rightarrow> csv_row list result" where
  "attempted_calls calls = filterE (\<lambda>c. notE (call_skipped c)) calls"

definition latencies_of :: "csv_row list \<Rightarrow> pyfloat list result" where
  "latencies_of ok = bindE (mapE (\<lambda>c. csv_float c (py ''latency_ms'')) ok) (\<lambda>ls. Inr (fl_sort ls))"

definition rounded_percentile :: "pyfloat list \<Rightarrow> pyfloat \<Rightarrow> nat \<Rightarrow> pyfloat result" where
  "rounded_percentile xs fraction places = bindE (percentile xs fraction) (\<lambda>p. fl_round p places)"

definition rounded_last :: "pyfloat list \<Rightarrow> nat \<Rightarrow> pyfloat result" where
  "rounded_last xs places = (if xs = [] then Inr (Finite 0) else fl_round (last xs) places)"

definition f50 :: pyfloat where "f50 = Finite (1 / 2)"
definition f95 :: pyfloat where "f95 = round_double (95 / 100)"
definition f99 :: pyfloat where "f99 = round_double (99 / 100)"

definition bucket_mean :: "csv_row list \<Rightarrow> pystr \<Rightarrow> pyfloat result" where
  "bucket_mean bucket key =
     (if bucket = [] then Inr (Finite 0) else bindE (mapE (\<lambda>row. csv_float row key) bucket) fl_fmean)"

definition metrics_of ::
  "window list \<Rightarrow> pyfloat \<Rightarrow> int \<Rightarrow> int \<Rightarrow> csv_row list \<Rightarrow> csv_row list \<Rightarrow> metrics_row result" where
  "metrics_of windows baseline_rss_mb cpu_count second bucket calls =
     bindE (filterE call_skipped calls) (\<lambda>skipped.
     bindE (attempted_calls calls) (\<lambda>attempted.
     bindE (filterE call_ok attempted) (\<lambda>ok.
     bindE (latencies_of ok) (\<lambda>latencies.
     bindE (bucket_mean bucket (py ''cpu_percent'')) (\<lambda>cpu.
     bindE (if bucket = [] then Inr (Finite 0)
            else bindE (bucket_mean bucket (py ''rss_bytes'')) (\<lambda>m. fl_div_int m bytes_per_mb)) (\<lambda>rss_mb.
     bindE (bindE (float_of_int second) (\<lambda>t. Inr (phase_at windows (fl_add t (Finite (1 / 2)))))) (\<lambda>phase.
     bindE (fl_round cpu 2) (\<lambda>cpu_percent.
     bindE (if cpu_count = 0 then Inr (Finite 0) else bindE (fl_div_int cpu cpu_count) (\<lambda>x. fl_round x 2)) (\<lambda>of_machine.
     bindE (fl_round rss_mb 3) (\<lambda>rss.
     bindE (fl_round (fl_sub rss_mb baseline_rss_mb) 3) (\<lambda>delta.
     bindE (mapE (\<lambda>row. csv_int row (py ''threads'')) bucket) (\<lambda>threads.
     bindE (mapE (\<lambda>row. csv_int row (py ''open_files'')) bucket) (\<lambda>files.
     bindE (mapE (\<lambda>row. csv_int row (py ''connections'')) bucket) (\<lambda>connections.
     bindE (rounded_percentile latencies f50 3) (\<lambda>p50.
     bindE (rounded_percentile latencies f95 3) (\<lambda>p95.
     bindE (rounded_percentile latencies f99 3) (\<lambda>p99.
     bindE (rounded_last latencies 3) (\<lambda>slowest.
       Inr \<lparr>mr_t_seconds = second, mr_phase = phase, mr_cpu_percent = cpu_percent,
            mr_cpu_percent_of_machine = of_machine, mr_rss_mb = rss, mr_rss_delta_mb = delta,
            mr_threads = int_max threads, mr_open_files = int_max files, mr_connections = int_max connections,
            mr_requests = length attempted, mr_ok = length ok, mr_errors = length attempted - length ok,
            mr_skipped = length skipped, mr_rps_actual = length attempted,
            mr_latency_p50_ms = p50, mr_latency_p95_ms = p95, mr_latency_p99_ms = p99,
            mr_latency_max_ms = slowest\<rparr>))))))))))))))))))"

text \<open>The rows of a second, in their order, out of the rows with their seconds.\<close>

definition rows_at :: "int \<Rightarrow> int list \<Rightarrow> csv_row list \<Rightarrow> csv_row list" where
  "rows_at second seconds rows = map snd (filter (\<lambda>(s, row). s = second) (zip seconds rows))"

definition sample_second :: "csv_row \<Rightarrow> int result" where
  "sample_second sample = bindE (csv_float sample (py ''t_seconds'')) int_of_float"

definition request_second :: "pyfloat \<Rightarrow> csv_row \<Rightarrow> int result" where
  "request_second load_offset request =
     bindE (csv_float request (py ''t_seconds'')) (\<lambda>t. int_of_float (fl_add t load_offset))"

definition build_metrics ::
  "csv_row list \<Rightarrow> csv_row list \<Rightarrow> window list \<Rightarrow> pyfloat \<Rightarrow> pyfloat \<Rightarrow> int \<Rightarrow> metrics_row list result" where
  "build_metrics samples requests windows load_offset baseline_rss_mb cpu_count =
     bindE (mapE sample_second samples) (\<lambda>ss.
       bindE (mapE (request_second load_offset) requests) (\<lambda>rs.
         mapE (\<lambda>second. metrics_of windows baseline_rss_mb cpu_count second
                 (rows_at second ss samples) (rows_at second rs requests))
           (sort (remdups (ss @ rs)))))"

section \<open>The summary\<close>

definition mean_rss_mb :: "csv_row list \<Rightarrow> window option \<Rightarrow> pyfloat result" where
  "mean_rss_mb samples window =
     bindE (case window of
              None \<Rightarrow> Inr samples
            | Some w \<Rightarrow> filterE (\<lambda>s. bindE (csv_float s (py ''t_seconds'')) (\<lambda>t. Inr (window_contains w t))) samples)
       (\<lambda>inside. bindE (mapE (\<lambda>s. bindE (csv_float s (py ''rss_bytes'')) (\<lambda>b. fl_div_int b bytes_per_mb)) inside)
         (\<lambda>values. if values = [] then Inr (Finite 0) else fl_fmean values))"

definition cpu_seconds_in :: "csv_row list \<Rightarrow> window \<Rightarrow> pyfloat result" where
  "cpu_seconds_in samples w =
     bindE (filterE (\<lambda>s. bindE (csv_float s (py ''t_seconds'')) (\<lambda>t. Inr (window_contains w t))) samples) (\<lambda>inside.
       if length inside < 2 then Inr (Finite 0)
       else bindE (mapE (\<lambda>s. bindE (csv_float s (py ''cpu_user_seconds'')) (\<lambda>u.
              bindE (csv_float s (py ''cpu_system_seconds'')) (\<lambda>k. Inr (fl_add u k)))) inside) (\<lambda>total.
         Inr (fl_sub (last total) (hd total))))"

datatype report_warning =
    ClientNeverReady
  | NotAllOk nat nat
  | RequestsSkipped nat
  | CpuProfileActive
  | TracemallocActive

record report_summary =
  rs_target_rps :: pyval
  rs_actual_rps :: pyfloat
  rs_requests_attempted :: nat
  rs_requests_ok :: nat
  rs_requests_skipped :: nat
  rs_percent_mean :: pyfloat
  rs_percent_p95 :: pyfloat
  rs_percent_max :: pyfloat
  rs_percent_of_machine_mean :: pyfloat
  rs_cpu_seconds_under_load :: pyfloat
  rs_cpu_ms_per_request :: pyfloat
  rs_baseline_rss_mb :: pyfloat
  rs_peak_rss_mb :: pyfloat
  rs_cooldown_rss_mb :: pyfloat
  rs_final_rss_mb :: pyfloat
  rs_growth_vs_baseline_mb :: pyfloat
  rs_retained_after_cooldown_mb :: pyfloat
  rs_bytes_per_request :: pyfloat
  rs_peak_threads :: int
  rs_peak_open_files :: int
  rs_p50 :: pyfloat
  rs_p95 :: pyfloat
  rs_p99 :: pyfloat
  rs_max :: pyfloat
  rs_mean :: pyfloat
  rs_phases :: "window list"
  rs_load_offset_seconds :: pyfloat
  rs_warnings :: "report_warning list"

text \<open>\<open>int(str(environment.get("cpu_count", 1) or 1))\<close>\<close>

definition cpu_count_of :: "printable \<Rightarrow> pyval \<Rightarrow> int result" where
  "cpu_count_of pr run =
     bindE (section_of run (py ''environment'')) (\<lambda>environment.
       bindE (get_attr_default environment (py ''cpu_count'') (PInt 1)) (\<lambda>n.
         bindE (py_str pr (py_or n (PInt 1))) int_of_text))"

definition warnings_of :: "pyval \<Rightarrow> nat \<Rightarrow> nat \<Rightarrow> nat \<Rightarrow> report_warning list result" where
  "warnings_of run requests attempted ok =
     bindE (section_of run (py ''server'')) (\<lambda>server.
     bindE (get_attr server (py ''client_ready'')) (\<lambda>ready.
     bindE (get_attr run (py ''cpu_profile'')) (\<lambda>profile.
     bindE (get_attr run (py ''tracemalloc'')) (\<lambda>tracemalloc.
       Inr ((if truthy server \<and> \<not> truthy ready then [ClientNeverReady] else []) @
            (if attempted \<noteq> ok then [NotAllOk (attempted - ok) attempted] else []) @
            (if requests - attempted \<noteq> 0 then [RequestsSkipped (requests - attempted)] else []) @
            (if truthy profile then [CpuProfileActive] else []) @
            (if truthy tracemalloc then [TracemallocActive] else []))))))"

text \<open>A quotient by the number of attempted requests, rounded, or zero when there is none.\<close>

definition per_request :: "pyfloat \<Rightarrow> nat \<Rightarrow> nat \<Rightarrow> pyfloat result" where
  "per_request x attempted places =
     (if attempted = 0 then Inr (Finite 0) else bindE (fl_div_int x (int attempted)) (\<lambda>y. fl_round y places))"

definition rate_in :: "nat \<Rightarrow> window option \<Rightarrow> pyfloat result" where
  "rate_in attempted window =
     (case window of
        None \<Rightarrow> Inr (Finite 0)
      | Some w \<Rightarrow>
          if window_duration w = Finite 0 then Inr (Finite 0)
          else bindE (float_of_int (int attempted)) (\<lambda>n. bindE (fl_div n (window_duration w)) (\<lambda>x. fl_round x 2)))"

definition summarize ::
  "printable \<Rightarrow> pyval \<Rightarrow> csv_row list \<Rightarrow> csv_row list \<Rightarrow> metrics_row list \<Rightarrow> window list \<Rightarrow> pyfloat \<Rightarrow> report_summary result" where
  "summarize pr run samples requests metrics windows load_offset =
     bindE (cpu_count_of pr run) (\<lambda>cpu_count.
     let load_phase = window_named windows (py ''load'') in
     bindE (mean_rss_mb samples (window_named windows (py ''baseline''))) (\<lambda>baseline_rss.
     bindE (mapE (\<lambda>s. csv_float s (py ''rss_bytes'')) samples) (\<lambda>rss.
     bindE (fl_div_int (fl_max rss (Finite 0)) bytes_per_mb) (\<lambda>peak_rss.
     bindE (if samples = [] then Inr (Finite 0) else fl_div_int (last rss) bytes_per_mb) (\<lambda>final_rss.
     bindE (mean_rss_mb samples (window_named windows (py ''cooldown''))) (\<lambda>cooldown_rss.
     let load_cpu = fl_sort (map mr_cpu_percent (filter (\<lambda>r. mr_phase r = py ''load'') metrics)) in
     bindE (attempted_calls requests) (\<lambda>attempted.
     bindE (filterE call_ok attempted) (\<lambda>ok.
     bindE (latencies_of ok) (\<lambda>latencies.
     bindE (case load_phase of None \<Rightarrow> Inr (Finite 0) | Some w \<Rightarrow> cpu_seconds_in samples w) (\<lambda>cpu_seconds.
     bindE (warnings_of run (length requests) (length attempted) (length ok)) (\<lambda>warnings.
     bindE (get_attr run (py ''target_rps'')) (\<lambda>target.
     bindE (rate_in (length attempted) load_phase) (\<lambda>rate.
     bindE (if load_cpu = [] then Inr (Finite 0) else bindE (fl_fmean load_cpu) (\<lambda>m. fl_round m 2)) (\<lambda>cpu_mean.
     bindE (rounded_percentile load_cpu f95 2) (\<lambda>cpu_p95.
     bindE (if load_cpu = [] then Inr (Finite 0) else fl_round (fl_max load_cpu (Finite 0)) 2) (\<lambda>cpu_max.
     bindE (if load_cpu = [] then Inr (Finite 0)
            else bindE (fl_fmean load_cpu) (\<lambda>m. bindE (fl_div_int m cpu_count) (\<lambda>x. fl_round x 2))) (\<lambda>machine_mean.
     bindE (fl_round cpu_seconds 3) (\<lambda>cpu_total.
     bindE (per_request (fl_mul cpu_seconds (Finite 1000)) (length attempted) 4) (\<lambda>cpu_each.
     bindE (mapE (\<lambda>x. fl_round x 2) [baseline_rss, peak_rss, cooldown_rss, final_rss,
              fl_sub final_rss baseline_rss, fl_sub cooldown_rss baseline_rss]) (\<lambda>memory.
     bindE (per_request (fl_mul (fl_sub final_rss baseline_rss) (Finite (of_int bytes_per_mb))) (length attempted) 1) (\<lambda>bytes_each.
     bindE (mapE (\<lambda>s. csv_int s (py ''threads'')) samples) (\<lambda>threads.
     bindE (mapE (\<lambda>s. csv_int s (py ''open_files'')) samples) (\<lambda>files.
     bindE (rounded_percentile latencies f50 3) (\<lambda>p50.
     bindE (rounded_percentile latencies f95 3) (\<lambda>p95.
     bindE (rounded_percentile latencies f99 3) (\<lambda>p99.
     bindE (rounded_last latencies 3) (\<lambda>slowest.
     bindE (if latencies = [] then Inr (Finite 0) else bindE (fl_fmean latencies) (\<lambda>m. fl_round m 3)) (\<lambda>mean.
       Inr \<lparr>rs_target_rps = target, rs_actual_rps = rate,
            rs_requests_attempted = length attempted, rs_requests_ok = length ok,
            rs_requests_skipped = length requests - length attempted,
            rs_percent_mean = cpu_mean, rs_percent_p95 = cpu_p95, rs_percent_max = cpu_max,
            rs_percent_of_machine_mean = machine_mean, rs_cpu_seconds_under_load = cpu_total,
            rs_cpu_ms_per_request = cpu_each,
            rs_baseline_rss_mb = memory ! 0, rs_peak_rss_mb = memory ! 1, rs_cooldown_rss_mb = memory ! 2,
            rs_final_rss_mb = memory ! 3, rs_growth_vs_baseline_mb = memory ! 4,
            rs_retained_after_cooldown_mb = memory ! 5, rs_bytes_per_request = bytes_each,
            rs_peak_threads = int_max threads, rs_peak_open_files = int_max files,
            rs_p50 = p50, rs_p95 = p95, rs_p99 = p99, rs_max = slowest, rs_mean = mean,
            rs_phases = windows, rs_load_offset_seconds = load_offset, rs_warnings = warnings\<rparr>
     ))))))))))))))))))))))))))))"

section \<open>Rows and seconds\<close>

lemma filterE_Inr: "filterE p xs = Inr ys \<Longrightarrow> ys = filter (\<lambda>x. p x = Inr True) xs \<and> list_all (\<lambda>x. \<exists>b. p x = Inr b) xs"
  by (induction xs arbitrary: ys) (auto simp: bindE_Inr_iff split: if_splits)

lemma attempted_filter: "attempted_calls calls = Inr attempted \<Longrightarrow> attempted = filter (\<lambda>c. call_skipped c = Inr False) calls"
proof -
  assume "attempted_calls calls = Inr attempted"
  then have "attempted = filter (\<lambda>c. notE (call_skipped c) = Inr True) calls"
    using filterE_Inr by (auto simp: attempted_calls_def)
  moreover have "notE x = Inr True \<longleftrightarrow> x = Inr False" for x by (cases x) auto
  ultimately show ?thesis by simp
qed

lemma attempted_or_skipped:
  assumes "filterE call_skipped calls = Inr skipped" and "attempted_calls calls = Inr attempted"
  shows "length attempted + length skipped = length calls"
proof -
  have skipped: "skipped = filter (\<lambda>c. call_skipped c = Inr True) calls" "list_all (\<lambda>c. \<exists>b. call_skipped c = Inr b) calls"
    using filterE_Inr [OF assms(1)] by simp_all
  have "attempted = filter (\<lambda>c. notE (call_skipped c) = Inr True) calls"
    using filterE_Inr assms(2) by (auto simp: attempted_calls_def)
  also have "\<dots> = filter (\<lambda>c. \<not> call_skipped c = Inr True) calls"
    using skipped(2) by (intro filter_cong) (auto simp: list_all_iff)
  finally show ?thesis using sum_length_filter_compl [of "\<lambda>c. call_skipped c = Inr True" calls] skipped(1) by simp
qed

lemma sum_list_at: "distinct ks \<Longrightarrow> (\<Sum>k\<leftarrow>ks. if k = s then x else 0) = (if s \<in> set ks then x else (0 :: nat))"
  by (induction ks) auto

text \<open>Each row is in the bucket of its second and in no other.\<close>

lemma rows_at_partition:
  fixes f :: "csv_row list \<Rightarrow> nat"
  assumes "length ss = length rows" and "distinct ks" and "set ss \<subseteq> set ks" and "f [] = 0"
    and add: "\<And>row rows. f (row # rows) = f [row] + f rows"
  shows "sum_list (map (\<lambda>k. f (rows_at k ss rows)) ks) = f rows"
  using assms(1,3)
proof (induction ss rows rule: list_induct2)
  case Nil
  then show ?case by (simp add: rows_at_def assms(4))
next
  case (Cons s ss row rows)
  have one: "f (rows_at k (s # ss) (row # rows)) = (if k = s then f [row] else 0) + f (rows_at k ss rows)" for k
    using add [of row "rows_at s ss rows"] by (simp add: rows_at_def)
  have "sum_list (map (\<lambda>k. if k = s then f [row] else 0) ks) = f [row]"
    using sum_list_at [OF assms(2)] Cons.prems by simp
  with Cons show ?case by (simp add: one sum_list_addf add [of row rows])
qed

lemma metrics_of_counts:
  assumes "metrics_of ws base cpus second bucket calls = Inr r"
  shows "mr_t_seconds r = second" and "mr_requests r + mr_skipped r = length calls"
    and "mr_ok r + mr_errors r = mr_requests r" and "mr_rps_actual r = mr_requests r"
    and "mr_requests r = length (filter (\<lambda>c. call_skipped c = Inr False) calls)"
    and "mr_ok r = length (filter (\<lambda>c. call_skipped c = Inr False \<and> call_ok c = Inr True) calls)"
proof -
  obtain skipped attempted ok where c: "filterE call_skipped calls = Inr skipped"
    "attempted_calls calls = Inr attempted" "filterE call_ok attempted = Inr ok"
    and r: "mr_t_seconds r = second" "mr_requests r = length attempted" "mr_skipped r = length skipped"
      "mr_ok r = length ok" "mr_errors r = length attempted - length ok" "mr_rps_actual r = length attempted"
    using assms by (auto simp: metrics_of_def bindE_Inr_iff)
  have ok: "ok = filter (\<lambda>c. call_ok c = Inr True) attempted" using filterE_Inr [OF c(3)] by simp
  then have "length ok \<le> length attempted" by simp
  with r show "mr_t_seconds r = second" "mr_ok r + mr_errors r = mr_requests r" "mr_rps_actual r = mr_requests r"
    by simp_all
  show "mr_requests r + mr_skipped r = length calls" using attempted_or_skipped [OF c(1,2)] r by simp
  show "mr_requests r = length (filter (\<lambda>c. call_skipped c = Inr False) calls)"
    using attempted_filter [OF c(2)] r(2) by simp
  show "mr_ok r = length (filter (\<lambda>c. call_skipped c = Inr False \<and> call_ok c = Inr True) calls)"
    using r(4) ok attempted_filter [OF c(2)] by simp
qed

section \<open>Percentiles\<close>

lemma percentile_rank:
  assumes "xs \<noteq> []" and "percentile xs fraction = Inr p"
  obtains i where "i < length xs" and "p = xs ! i"
    and "\<And>r c. fl_mul_int fraction (int (length xs)) = Inr r \<Longrightarrow> fl_ceil r = Inr c \<Longrightarrow>
      i = nat (max 0 (min (int (length xs) - 1) (c - 1)))"
proof -
  obtain r c where rc: "fl_mul_int fraction (int (length xs)) = Inr r" "fl_ceil r = Inr c"
    "p = xs ! nat (max 0 (min (int (length xs) - 1) (c - 1)))"
    using assms by (auto simp: percentile_def bindE_Inr_iff)
  show thesis by (rule that [of "nat (max 0 (min (int (length xs) - 1) (c - 1)))"]) (use rc assms(1) in \<open>auto simp: nat_less_iff max_def min_def\<close>)
qed

lemma metrics_counts:
  assumes "build_metrics samples requests windows load_offset baseline cpus = Inr rows"
    and "attempted_calls requests = Inr attempted"
  shows "sorted_wrt (<) (map mr_t_seconds rows) \<and>
    (\<Sum>r\<leftarrow>rows. mr_requests r + mr_skipped r) = length requests \<and>
    list_all (\<lambda>r. mr_ok r + mr_errors r = mr_requests r) rows \<and>
    (\<Sum>r\<leftarrow>rows. mr_requests r) = length attempted \<and>
    (\<Sum>r\<leftarrow>rows. mr_ok r) = length (filter (\<lambda>c. call_ok c = Inr True) attempted)"
proof -
  obtain ss rs where s: "mapE sample_second samples = Inr ss" and r: "mapE (request_second load_offset) requests = Inr rs"
    and m: "mapE (\<lambda>k. metrics_of windows baseline cpus k (rows_at k ss samples) (rows_at k rs requests))
      (sort (remdups (ss @ rs))) = Inr rows"
    using assms(1) by (auto simp: build_metrics_def bindE_Inr_iff)
  define ks where "ks = sort (remdups (ss @ rs))"
  have len: "length rs = length requests" using r by (auto simp: mapE_eq_Inr dest: list_all2_lengthD)
  have ks: "distinct ks" "set rs \<subseteq> set ks" "sorted_wrt (<) ks" by (auto simp: ks_def strict_sorted_iff)
  have all: "list_all2 (\<lambda>k row. metrics_of windows baseline cpus k (rows_at k ss samples) (rows_at k rs requests) = Inr row) ks rows"
    using m by (simp add: ks_def mapE_eq_Inr)
  let ?ok = "\<lambda>c. call_skipped c = Inr False"
  have a: "attempted = filter ?ok requests" by (rule attempted_filter [OF assms(2)])
  have sums: "map mr_t_seconds rows = ks \<and>
      map (\<lambda>r. mr_requests r + mr_skipped r) rows = map (\<lambda>k. length (rows_at k rs requests)) ks \<and>
      list_all (\<lambda>r. mr_ok r + mr_errors r = mr_requests r) rows"
    using all by (induction rule: list_all2_induct) (simp_all add: metrics_of_counts(1,2,3))
  have counts: "map mr_ok rows = map (\<lambda>k. length (filter (\<lambda>c. ?ok c \<and> call_ok c = Inr True) (rows_at k rs requests))) ks"
    "map mr_requests rows = map (\<lambda>k. length (filter ?ok (rows_at k rs requests))) ks"
    using all by (induction rule: list_all2_induct) (simp_all add: metrics_of_counts(5,6))
  have total: "(\<Sum>k\<leftarrow>ks. length (filter p (rows_at k rs requests))) = length (filter p requests)" for p
    by (rule rows_at_partition [OF len ks(1,2)]) auto
  have "(\<Sum>k\<leftarrow>ks. length (rows_at k rs requests)) = length requests" using total [of "\<lambda>_. True"] by simp
  then show ?thesis using ks(3) sums by (simp add: counts total a)
qed

lemma summary_counts:
  assumes "summarize pr run samples requests rows windows load_offset = Inr sm"
  obtains attempted ok where "attempted_calls requests = Inr attempted" and "filterE call_ok attempted = Inr ok"
    and "rs_requests_attempted sm = length attempted" and "rs_requests_ok sm = length ok"
    and "rs_requests_skipped sm = length requests - length attempted"
  using assms unfolding summarize_def Let_def bindE_Inr_iff by (elim exE conjE) (auto simp: that)

section \<open>Properties\<close>

text \<open>
  C40 (report_accounts_for_requests). The report accounts for every request once. The rows are the seconds
  of the run in order; the requests and skips over all rows are the requests of the run; what a row
  counts as errors is what it attempted without a 200; and the attempted, the successful and the
  skipped requests of all rows add up to those of the summary.
\<close>

theorem report_accounts_for_requests:
  assumes "build_metrics samples requests windows load_offset baseline cpus = Inr rows"
    and "summarize pr run samples requests rows windows load_offset = Inr sm"
  shows "sorted_wrt (<) (map mr_t_seconds rows) \<and>
    (\<Sum>r\<leftarrow>rows. mr_requests r + mr_skipped r) = length requests \<and>
    list_all (\<lambda>r. mr_ok r + mr_errors r = mr_requests r) rows \<and>
    (\<Sum>r\<leftarrow>rows. mr_requests r) = rs_requests_attempted sm \<and>
    (\<Sum>r\<leftarrow>rows. mr_ok r) = rs_requests_ok sm \<and>
    (\<Sum>r\<leftarrow>rows. mr_skipped r) = rs_requests_skipped sm"
proof -
  obtain attempted ok where summary: "attempted_calls requests = Inr attempted" "filterE call_ok attempted = Inr ok"
    "rs_requests_attempted sm = length attempted" "rs_requests_ok sm = length ok"
    "rs_requests_skipped sm = length requests - length attempted"
    using assms(2) by (rule summary_counts)
  have "ok = filter (\<lambda>c. call_ok c = Inr True) attempted" using filterE_Inr [OF summary(2)] by simp
  with metrics_counts [OF assms(1) summary(1)] summary(3-5) show ?thesis by (auto simp: sum_list_addf)
qed

section \<open>Witnesses\<close>

definition sample_requests :: "csv_row list" where
  "sample_requests =
     [[(py ''t_seconds'', py ''0''), (py ''status'', py ''500''), (py ''error'', [])],
      [(py ''t_seconds'', py ''1''), (py ''status'', py ''0''), (py ''error'', py ''skipped: max-in-flight reached'')]]"

lemma no_percentile [simp]: "percentile [] f = Inr (Finite 0)" "rounded_percentile [] f n = Inr (Finite 0)"
  "rounded_last [] n = Inr (Finite 0)" "latencies_of [] = Inr []"
  by (simp_all add: percentile_def rounded_percentile_def rounded_last_def latencies_of_def fl_round_def
      round_half_even_def fl_sort_def)

lemma float_of_digit:
  "float_of_text (py ''0'') = Inr (Finite 0)" "float_of_text (py ''1'') = Inr (Finite 1)"
proof -
  have "digit_value 49 = Some 1" by (simp add: digit_value_def digit_zeros_def)
  moreover have "round_double 1 = Finite 1" using round_double_double [OF is_double_int, of 1] by simp
  ultimately show "float_of_text (py ''0'') = Inr (Finite 0)" "float_of_text (py ''1'') = Inr (Finite 1)"
    by (simp_all add: float_of_text_def py_def ascii_char_def is_ascii_space_def named_float_def split_sign_def
        str_lower_def lower_char_def float_of_str_def decimal_value_def decimal_mantissa_def is_ascii_digit_def
        digits_nat_def decimal_exponent_def)
qed

lemma sample_calls:
  "attempted_calls sample_requests = Inr [hd sample_requests]"
  "filterE call_ok [hd sample_requests] = Inr []"
  by (simp_all add: attempted_calls_def sample_requests_def call_skipped_def call_ok_def csv_text_def dict_get_def
      str_startswith_def py_def)

lemma round_zero [simp]: "fl_round (Finite 0) n = Inr (Finite 0)"
  by (simp add: fl_round_def round_half_even_def)

lemma sample_metrics:
  obtains rows where "build_metrics [] sample_requests [] (Finite 0) (Finite 0) 1 = Inr rows"
    and "filter (\<lambda>r. mr_phase r = py ''load'') rows = []"
proof -
  have one: "round_double 1 = Finite 1" using round_double_double [OF is_double_int, of 1] by simp
  have "mapE (request_second (Finite 0)) sample_requests = Inr [0, 1]"
    using float_of_digit by (simp add: sample_requests_def request_second_def csv_float_def csv_text_def dict_get_def
        int_of_float_def py_def one)
  moreover have "sort (remdups [0, 1 :: int]) = [0, 1]" by simp
  ultimately have "\<exists>rows. build_metrics [] sample_requests [] (Finite 0) (Finite 0) 1 = Inr rows \<and>
      filter (\<lambda>r. mr_phase r = py ''load'') rows = []"
    by (simp add: phase_at_def build_metrics_def metrics_of_def rows_at_def sample_requests_def attempted_calls_def call_skipped_def
        call_ok_def csv_text_def dict_get_def str_startswith_def py_def bucket_mean_def float_of_int_def one
        fl_sub_def fl_div_int_def fl_div_finite_def)
  then show thesis using that by blast
qed

lemma sample_summary:
  assumes "filter (\<lambda>r. mr_phase r = py ''load'') rows = []"
  shows "\<exists>sm. summarize (\<lambda>_. True) (PDict []) [] sample_requests rows [] (Finite 0) = Inr sm \<and> rs_requests_attempted sm = 1"
proof -
  have "round_double 1048576 = Finite 1048576" using round_double_double [OF is_double_int, of 1048576] by simp
  moreover have "cpu_count_of (\<lambda>_. True) (PDict []) = Inr 1"
  proof -
    have "py_str (\<lambda>_. True) (PInt 1) = Inr (py ''1'')"
      by (simp add: py_str_def str_of_int_def int_max_str_digits_def int_str_def nat_str.simps py_def)
    moreover have "int_of_text (py ''1'') = Inr 1"
      by (simp add: int_of_text_def py_def ascii_char_def is_ascii_space_def int_of_str_def nat_of_digits_def
          is_decimal_def digit_value_ascii is_ascii_digit_def int_max_str_digits_def digits_nat_def)
    ultimately show ?thesis
      by (simp add: cpu_count_of_def section_of_def get_attr_default_def pdict_get_def py_or_def)
  qed
  moreover have "round_double 1 = Finite 1" using round_double_double [OF is_double_int, of 1] by simp
  moreover have "filter (\<lambda>r. mr_phase r = [108, 111, 97, 100]) rows = []" using assms by (simp add: py_def)
  ultimately show ?thesis
    by (simp add: summarize_def Let_def sample_calls mean_rss_mb_def window_named_def fl_max_def fl_div_int_def
        float_of_int_def bytes_per_mb_def fl_div_finite_def fl_sort_def warnings_of_def section_of_def
        get_attr_default_def pdict_get_def rate_in_def per_request_def fl_sub_def py_def del: filterE.simps)
qed

theorem report_accounts_for_requests_witness:
  "\<exists>rows sm. build_metrics [] sample_requests [] (Finite 0) (Finite 0) 1 = Inr rows \<and>
     summarize (\<lambda>_. True) (PDict []) [] sample_requests rows [] (Finite 0) = Inr sm \<and>
     (\<Sum>r\<leftarrow>rows. mr_requests r) = 1"
proof -
  obtain rows where rows: "build_metrics [] sample_requests [] (Finite 0) (Finite 0) 1 = Inr rows"
    "filter (\<lambda>r. mr_phase r = py ''load'') rows = []" by (rule sample_metrics)
  obtain sm where sm: "summarize (\<lambda>_. True) (PDict []) [] sample_requests rows [] (Finite 0) = Inr sm"
    "rs_requests_attempted sm = 1" using sample_summary [OF rows(2)] by blast
  from report_accounts_for_requests [OF rows(1) sm(1)] sm rows(1) show ?thesis by auto
qed

end
