(* ===== verification/Profiling_Sampler.thy ===== *)
theory Profiling_Sampler
  imports Py_Stats
begin

text \<open>
  The sampler of the profiling harness, \<open>profiling/sampler.py\<close>, and the data of the page that
  \<open>profiling/chart.py\<close> writes. What \<open>psutil\<close> answers is data: each reading of a process gives a value or
  finds the process gone. Handles of processes are their ids.
\<close>

section \<open>One sample\<close>

record cpu_sample =
  sp_t_seconds :: pyfloat
  sp_wall_time :: pyfloat
  sp_cpu_percent :: pyfloat
  sp_rss_bytes :: int
  sp_vms_bytes :: int
  sp_cpu_user_seconds :: pyfloat
  sp_cpu_system_seconds :: pyfloat
  sp_threads :: int
  sp_open_files :: int
  sp_connections :: int
  sp_processes :: nat

text \<open>The readings of a process in their order; \<open>None\<close> is the exception that drops the process.\<close>

record process_readings =
  pr_cpu_percent :: "pyfloat option"
  pr_memory_info :: "(int \<times> int) option"
  pr_cpu_times :: "(pyfloat \<times> pyfloat) option"
  pr_num_threads :: "int option"
  pr_open_files :: "int option"
  pr_connections :: "int option"

text \<open>\<open>_count\<close>: a listing that the platform refuses counts as empty.\<close>

definition count_listing :: "int option \<Rightarrow> int" where
  "count_listing n = (case n of Some k \<Rightarrow> k | None \<Rightarrow> 0)"

text \<open>
  \<open>_refresh_tracked\<close>: the children in their order, each with whether its \<open>cpu_percent\<close> answers; a child
  that does not answer ends the visit.
\<close>

fun refresh_tracked :: "(int \<times> bool) list \<Rightarrow> int list \<Rightarrow> int list" where
  "refresh_tracked [] tracked = tracked"
| "refresh_tracked ((pid, answers) # children) tracked =
     (if pid \<in> set tracked then refresh_tracked children tracked
      else if answers then refresh_tracked children (tracked @ [pid]) else tracked)"

record sample_sums =
  su_cpu :: pyfloat
  su_rss :: pyfloat
  su_vms :: pyfloat
  su_user :: pyfloat
  su_system :: pyfloat
  su_threads :: pyfloat
  su_files :: pyfloat
  su_conns :: pyfloat
  su_alive :: nat

definition zero_sums :: sample_sums where
  "zero_sums =
     \<lparr>su_cpu = Finite 0, su_rss = Finite 0, su_vms = Finite 0, su_user = Finite 0, su_system = Finite 0,
      su_threads = Finite 0, su_files = Finite 0, su_conns = Finite 0, su_alive = 0\<rparr>"

text \<open>A float plus an integer; the counts are far below the largest float.\<close>

definition add_count :: "pyfloat \<Rightarrow> int \<Rightarrow> pyfloat" where
  "add_count x n = fl_add x (round_double (of_int n))"

text \<open>What was read before a process turned out to be gone stays in the sums. The flag: it answered all.\<close>

definition read_process :: "process_readings \<Rightarrow> sample_sums \<Rightarrow> bool \<times> sample_sums" where
  "read_process p s =
     (case pr_cpu_percent p of
        None \<Rightarrow> (False, s)
      | Some cpu \<Rightarrow>
          let s1 = s\<lparr>su_cpu := fl_add (su_cpu s) cpu\<rparr> in
          case pr_memory_info p of
            None \<Rightarrow> (False, s1)
          | Some (rss, vms) \<Rightarrow>
              let s2 = s1\<lparr>su_rss := add_count (su_rss s1) rss, su_vms := add_count (su_vms s1) vms\<rparr> in
              case pr_cpu_times p of
                None \<Rightarrow> (False, s2)
              | Some (user, system) \<Rightarrow>
                  let s3 = s2\<lparr>su_user := fl_add (su_user s2) user, su_system := fl_add (su_system s2) system\<rparr> in
                  case pr_num_threads p of
                    None \<Rightarrow> (False, s3)
                  | Some threads \<Rightarrow>
                      (True, s3\<lparr>su_threads := add_count (su_threads s3) threads,
                         su_files := add_count (su_files s3) (count_listing (pr_open_files p)),
                         su_conns := add_count (su_conns s3) (count_listing (pr_connections p)),
                         su_alive := su_alive s3 + 1\<rparr>))"

fun read_processes :: "(int \<Rightarrow> process_readings) \<Rightarrow> int list \<Rightarrow> sample_sums \<Rightarrow> int list \<times> sample_sums" where
  "read_processes view [] s = ([], s)"
| "read_processes view (pid # pids) s =
     (let (alive, s1) = read_process (view pid) s; (kept, s2) = read_processes view pids s1
      in (if alive then pid # kept else kept, s2))"

record sampler_round =
  ro_children :: "(int \<times> bool) list"
  ro_view :: "int \<Rightarrow> process_readings"
  ro_clock :: pyfloat
  ro_wall :: pyfloat

definition sample_of :: "pyfloat \<Rightarrow> pyfloat \<Rightarrow> sample_sums \<Rightarrow> cpu_sample result" where
  "sample_of t wall s =
     bindE (fl_round (su_cpu s) 2) (\<lambda>cpu. bindE (int_of_float (su_rss s)) (\<lambda>rss.
     bindE (int_of_float (su_vms s)) (\<lambda>vms. bindE (fl_round (su_user s) 3) (\<lambda>user.
     bindE (fl_round (su_system s) 3) (\<lambda>system. bindE (int_of_float (su_threads s)) (\<lambda>threads.
     bindE (int_of_float (su_files s)) (\<lambda>files. bindE (int_of_float (su_conns s)) (\<lambda>conns.
       Inr \<lparr>sp_t_seconds = t, sp_wall_time = wall, sp_cpu_percent = cpu, sp_rss_bytes = rss, sp_vms_bytes = vms,
            sp_cpu_user_seconds = user, sp_cpu_system_seconds = system, sp_threads = threads,
            sp_open_files = files, sp_connections = conns, sp_processes = su_alive s\<rparr>))))))))"

definition collect :: "pyfloat \<Rightarrow> sampler_round \<Rightarrow> int list \<Rightarrow> cpu_sample option result \<times> int list" where
  "collect started_at r tracked =
     (let (kept, s) = read_processes (ro_view r) (refresh_tracked (ro_children r) tracked) zero_sums
      in (if su_alive s = 0 then Inr None
          else bindE (sample_of (fl_sub (ro_clock r) started_at) (ro_wall r) s) (\<lambda>x. Inr (Some x)), kept))"

text \<open>
  \<open>_run\<close>, with the rounds until \<open>stop\<close>: the samples, and whether the thread is still sampling when they
  are used up.
\<close>

fun sampler_run ::
  "pyfloat \<Rightarrow> sampler_round list \<Rightarrow> int list \<Rightarrow> cpu_sample list \<Rightarrow> (bool \<times> cpu_sample list) result" where
  "sampler_run started_at [] tracked samples = Inr (True, samples)"
| "sampler_run started_at (r # rs) tracked samples =
     (let (x, kept) = collect started_at r tracked
      in bindE x (\<lambda>y. case y of
           None \<Rightarrow> Inr (False, samples)
         | Some sample \<Rightarrow> sampler_run started_at rs kept (samples @ [sample])))"

section \<open>The data of the chart\<close>

definition series_columns :: "pystr list" where
  "series_columns =
     [py ''t_seconds'', py ''phase'', py ''rss_mb'', py ''rss_delta_mb'', py ''cpu_percent'',
      py ''cpu_percent_of_machine'', py ''rps_actual'', py ''requests'', py ''errors'', py ''skipped'',
      py ''threads'', py ''latency_p50_ms'', py ''latency_p95_ms'', py ''latency_p99_ms'']"

definition chart_payload :: "pyval list \<Rightarrow> pyval \<Rightarrow> pyval result" where
  "chart_payload metrics summary =
     bindE (mapE (\<lambda>row. bindE (mapE (\<lambda>column. bindE (get_attr row column) (\<lambda>v. Inr (PStr column, v))) series_columns)
                   (\<lambda>d. Inr (PDict d))) metrics) (\<lambda>rows.
     bindE (get_attr_default summary (py ''phases'') (PList [])) (\<lambda>phases.
       Inr (PDict [(PStr (py ''metrics''), PList rows), (PStr (py ''columns''), PList (map PStr series_columns)),
                   (PStr (py ''phases''), phases), (PStr (py ''summary''), summary)])))"

text \<open>\<open>json.dumps(payload).replace("</", "<\\/")\<close>, the payload being made of JSON values.\<close>

definition chart_encoded :: "pyval list \<Rightarrow> pyval \<Rightarrow> pystr result" where
  "chart_encoded metrics summary =
     bindE (chart_payload metrics summary) (\<lambda>payload.
       bindE (json_dumps default_style payload) (\<lambda>t. Inr (str_replace2 60 47 [60, 92, 47] t)))"

definition chart_page :: "pystr \<Rightarrow> pystr \<Rightarrow> pyval list \<Rightarrow> pyval \<Rightarrow> pystr result" where
  "chart_page template data_token metrics summary =
     bindE (chart_encoded metrics summary) (\<lambda>encoded. Inr (str_replace data_token encoded template))"

section \<open>What is tracked and counted\<close>

lemma refresh_distinct: "distinct tracked \<Longrightarrow> distinct (refresh_tracked children tracked)"
  by (induction children tracked rule: refresh_tracked.induct) auto

lemma refresh_keeps: "set tracked \<subseteq> set (refresh_tracked children tracked)"
  by (induction children tracked rule: refresh_tracked.induct) auto

lemma read_process_alive:
  "read_process p s = (alive, s') \<Longrightarrow> su_alive s' = su_alive s + of_bool alive"
  by (auto simp: read_process_def Let_def split: option.splits)

lemma read_processes_kept:
  "read_processes view pids s = (kept, s') \<Longrightarrow>
     kept = filter (\<lambda>pid. fst (read_process (view pid) zero_sums)) pids \<and> su_alive s' = su_alive s + length kept"
proof (induction pids arbitrary: s kept s')
  case (Cons pid pids)
  have same: "fst (read_process (view pid) s) = fst (read_process (view pid) zero_sums)" for s
    by (auto simp: read_process_def Let_def split: option.splits)
  obtain alive s1 where r: "read_process (view pid) s = (alive, s1)" by fastforce
  with same [of s] read_process_alive [OF r] Cons show ?case by (fastforce simp: Let_def split: prod.splits)
qed simp

text \<open>A sample counts the processes that answered, and these stay tracked; without one there is none.\<close>

theorem collect_counts:
  assumes "collect started_at r tracked = (x, kept)" and "distinct tracked"
  shows "distinct kept" and "x = Inr None \<longleftrightarrow> kept = []" and "x = Inr (Some y) \<Longrightarrow> sp_processes y = length kept"
proof -
  let ?pids = "refresh_tracked (ro_children r) tracked"
  obtain s where s: "read_processes (ro_view r) ?pids zero_sums = (kept, s)"
    and x: "x = (if su_alive s = 0 then Inr None
      else bindE (sample_of (fl_sub (ro_clock r) started_at) (ro_wall r) s) (\<lambda>x. Inr (Some x)))"
    using assms(1) by (auto simp: collect_def Let_def split: prod.splits)
  note kept = read_processes_kept [OF s]
  show "distinct kept" using kept refresh_distinct [OF assms(2)] by simp
  have alive: "su_alive s = length kept" using kept by (simp add: zero_sums_def)
  show "x = Inr None \<longleftrightarrow> kept = []" using x alive by (auto simp: bindE_Inr_iff)
  show "x = Inr (Some y) \<Longrightarrow> sp_processes y = length kept"
    using x alive by (auto simp: sample_of_def bindE_Inr_iff split: if_splits)
qed

text \<open>The application cannot close the script that holds its data: no \<open></\<close> is left in it.\<close>

lemma replaced_apart:
  "\<not> sublist [60, 47] (str_replace2 60 47 [60, 92, 47] s) \<and>
     (str_replace2 60 47 [60, 92, 47] s = [] \<longleftrightarrow> s = []) \<and>
     (s \<noteq> [] \<longrightarrow> hd (str_replace2 60 47 [60, 92, 47] s) = hd s)"
proof (induction "60 :: nat" "47 :: nat" "[60, 92, 47 :: nat]" s rule: str_replace2.induct)
  case (1 c d s)
  then show ?case by (cases "str_replace2 60 47 [60, 92, 47] (d # s)") (auto simp: sublist_Cons_right)
qed (auto simp: sublist_Cons_right)

theorem chart_data_apart: "chart_encoded metrics summary = Inr t \<Longrightarrow> \<not> sublist [60, 47] t"
  using replaced_apart by (auto simp: chart_encoded_def bindE_Inr_iff)

end
