(* ===== verification/Spec2Isabelle.thy ===== *)
theory Spec2Isabelle
  imports Bundle Comparisons Config_Types Evaluator Json_Pointer Percentages Rapidhash Values
    Sse_Parser Telemetry_Events Telemetry_Queue Telemetry Connections Sse_Client Sse_Transport Streaming
    Client_State Client_Updates Transports Client In_Memory Deliveries Open_Feature_Values Open_Feature
    Profiling_Load Profiling_Report Profiling_Sampler
begin

text \<open>
  Verification of the ConfigDirector Python server SDK
  (\<open>src/configdirector-server-sdk/src/configdirector/\<close>) and of its OpenFeature provider
  (\<open>src/configdirector-openfeature-server-provider/src/configdirector_openfeature/\<close>).

  \<^bold>\<open>The program.\<close> An application creates a client, which connects to a server (by an event stream or
  by polling) or loads values offline. The server sends bundles of configs: targeting rules, segments
  and default values. The client keeps the latest config state, evaluates a config for a context
  locally, converts the evaluated text to the type of the caller's default, calls the watchers of the
  keys a bundle changes, and reports what was evaluated as telemetry. The OpenFeature provider owns a
  client, translates contexts and results, and tells OpenFeature when it becomes ready.

  \<^bold>\<open>How the theories correspond to the code.\<close>

  \<^item> Python itself. \<open>Prelude\<close>: exceptions as values of \<open>exn\<close>, code that may raise as
    \<open>'a result = exn + 'a\<close>, dictionaries as association lists in insertion order.
    \<open>Py_Str\<close>: strings as lists of code points (lone surrogates included), case folding, trimming.
    \<open>Py_Float\<close>: binary64 as \<open>Finite rat | infinities | NaN\<close> with every operation rounded as IEEE 754
    demands. \<open>Py_Value\<close>: the values code tells apart with \<open>isinstance\<close>. \<open>Py_Json\<close>: \<open>json.dumps\<close> and
    \<open>json.loads\<close>. \<open>Py_Object\<close>: subscripts, \<open>.get\<close>, \<open>str\<close>, \<open>int\<close>, \<open>float\<close> on untrusted values.
    \<open>Py_Regex\<close>: the backtracking matcher of \<open>re\<close>. \<open>Sha256\<close>: \<open>hashlib.sha256\<close>.
  \<^item> Data. \<open>Config_Types\<close>: \<open>types.py\<close>, \<open>_evaluation/types.py\<close>, \<open>_context_kind.py\<close>, \<open>_validation.py\<close>.
  \<^item> Evaluation. \<open>Rapidhash\<close> (\<open>_evaluation/_rapidhash.py\<close>), \<open>Percentages\<close> (\<open>percent_hashing.py\<close> and the
    bucket loop), \<open>Comparisons\<close> (the five comparison modules), \<open>Json_Pointer\<close>, \<open>Evaluator\<close>
    (\<open>condition_evaluator.py\<close>, \<open>segment_evaluator.py\<close>, \<open>config_evaluator.py\<close>), \<open>Values\<close>
    (\<open>_value_parser.py\<close>, \<open>_native_values.py\<close>), \<open>Bundle\<close> (\<open>_bundle.py\<close>).
  \<^item> Connections. \<open>Http\<close> (\<open>_http.py\<close>, \<open>_transport/base.py\<close>), \<open>Connections\<close> (\<open>_connection_plan.py\<close>, the
    offline and the polling transport), \<open>Sse_Parser\<close>, \<open>Sse_Client\<close> and \<open>Sse_Transport\<close>
    (\<open>_eventsource/parser.py\<close>, \<open>client.py\<close>, \<open>transport.py\<close>), \<open>Streaming\<close> (\<open>_transport/streaming.py\<close>), \<open>Transports\<close> (the common interface and \<open>create_transport\<close>).
  \<^item> Telemetry. \<open>Telemetry_Events\<close>, \<open>Telemetry_Queue\<close>, \<open>Telemetry\<close> (\<open>_telemetry/\<close>).
  \<^item> The client. \<open>Client_State\<close> (state, evaluation, watching, bundles, closing), \<open>Client_Updates\<close> (what
    any sequence of those does), \<open>Client\<close> (construction, \<open>initialize\<close>, \<open>close\<close> over a transport), \<open>In_Memory\<close>
    (\<open>_in_memory_connection.py\<close>, \<open>testing.py\<close>: the test client), \<open>Deliveries\<close> (its queue of deliveries, with
    controls used by several threads and inside handlers).
  \<^item> OpenFeature. \<open>Open_Feature_Values\<close> (\<open>_values.py\<close>, \<open>_context.py\<close>, \<open>_resolution.py\<close>, and \<open>_wrappers.py\<close> of the
    SDK), \<open>Open_Feature\<close> (\<open>provider.py\<close>: its callbacks and its readiness check as steps that interleave).
  \<^item> Profiling (\<open>src/profiling/\<close>). \<open>Py_Stats\<close> (the arithmetic and statistics it uses), \<open>Profiling_Load\<close>
    (\<open>load.py\<close>: parameters and pacing of requests), \<open>Profiling_Report\<close> (\<open>report.py\<close>: metrics and summary),
    \<open>Profiling_Sampler\<close> (\<open>sampler.py\<close>, and the data of the page of \<open>chart.py\<close>).

  \<^bold>\<open>State and effects.\<close> An object of the source is a record, an operation a function from the record to
  a result and the new record. What a lock makes atomic is one step; the order of steps is a sequence
  (\<open>client_run\<close>, \<open>live_run\<close>, \<open>test_run\<close>, \<open>delivery_run\<close>, \<open>provider_run\<close>, \<open>collector_run\<close>, \<open>polling_run\<close>: inductive relations in which
  any operation may come next). Background threads are loops over the answers of the network and of
  their waits: \<open>poll_loop\<close> and \<open>run_loop\<close> take a list with one entry for each attempt and return when it
  is used up, so that they are total and say for every prefix of the thread's life what it has done;
  \<open>Unfinished\<close> is the answer of a loop that would go on. Calls into the application (handlers,
  watchers) are recorded in order in \<open>cl_calls\<close>. No definition uses fuel: recursions are structural or
  have a measure (the characters left, the blocks left, the iterations of a number's digits).

  \<^bold>\<open>Parameters.\<close> Code outside the repository is an argument: the connection pool of \<open>urllib3\<close>
  (\<open>pool\<close>: what each request is answered), the chunks and failures of a stream (the scripts of
  \<open>run_loop\<close>), \<open>urlparse\<close> and \<open>urljoin\<close> (\<open>platform\<close>), the file system, the clock, and the table of printable
  characters that \<open>repr\<close> consults (\<open>printable\<close>), the installed version of a distribution, and the status
  that OpenFeature reports for a provider. No theorem assumes a law of them.

  \<^bold>\<open>Interfaces.\<close> \<open>negated_operator\<close>: a comparison with a positive and a negated operator. \<open>chunked\<close>: a
  reader whose result does not depend on how its input is split; interpreted by the parser, over
  characters, and by the UTF-8 decoder. \<open>bounded_recorder\<close> and \<open>exact_recorder\<close>: collections that
  forget and count; interpreted by the event queue, the context registry and the invalid contexts.
  \<open>telemetry_sink\<close>: what the client relies on in telemetry. \<open>stream_user\<close>: the handlers of an event
  source client and an invariant they keep; interpreted by the streaming transport. \<open>transport\<close>: what
  the client relies on in a transport (good bundles only, silence once closed); interpreted by the
  offline, polling, streaming and in-memory transports and by the choice between them.

  \<^bold>\<open>What the theorems show.\<close> Functional behaviour of rule evaluation, percentages, comparisons, value
  conversion and bundle reading on every branch, errors included; equivalence of the rapidhash port
  on unbounded integers with the algorithm on 64-bit registers; refinement of a character-by-character
  reader by the chunked parser, and of a map from keys to configs by the client's bundle handling;
  round trips of native values and events; bounds of every buffer and queue; the invariant of a client
  over every transport, readiness and closing; the recovery of an OpenFeature provider whose
  initialization came too early; liveness of polling and of streaming through failures (a bundle that
  arrives as an event of a stream is delivered, whatever failed before and however its bytes are cut),
  the backoff of streaming, and the end of both on a refusal; deliveries of the test client one at a
  time, in order and without loss under every interleaving, and the interleaving of two controls that
  leaves the client with an old value; a load test whose results and report add up. Each section of properties names its claims by their
  position in the list of properties of the development.

  \<^bold>\<open>Not modelled.\<close> Log messages and the texts of exceptions that no code reads; threads as such (locks,
  wake-ups, joining) and interleavings inside one locked or single-threaded operation; \<open>cancel\<close>
  and \<open>close\<close> of \<open>_eventsource/transport.py\<close>, which reach into the sockets of \<open>urllib3\<close>; \<open>_logger.py\<close>,
  which hands out a logger of the standard library; of the profiling harness the processes it starts
  (\<open>run.py\<close>, \<open>server.py\<close>), its files and the JavaScript of its page; the samples, which are Flask
  applications around the SDK.
\<close>

end
